(* ===== verification/Prelude.thy ===== *)
theory Prelude
  imports Main "HOL-Library.Word" "HOL-Library.List_Lexorder" "HOL-Library.AList"
    "HOL-Library.Multiset"
begin

text \<open>
  Shared vocabulary of the development: Go's sized integers, byte strings and fixed-size byte
  arrays, error values and panics, association lists for Go maps, and the generic lemmas
  about them that the component theories use.
\<close>

named_theorems outcome_simps "unfolding of sequencing on outcomes"
named_theorems be_simps "big-endian encodings"

section \<open>Integers\<close>

text \<open>
  \<open>uint8\<close>, \<open>uint32\<close> and \<open>uint64\<close> are words of that width, so \<open>+\<close>, \<open>-\<close> and \<open>*\<close>
  wrap as they do in Go. \<open>*big.Int\<close> is \<open>int\<close>, with \<open>None\<close> for a nil pointer where
  the code tests for one. Lengths and loop indices of type \<open>int\<close> are \<open>nat\<close>.
  \<open>time.Time\<close> and \<open>time.Duration\<close> are nanoseconds (\<open>int\<close>).
\<close>

type_synonym u8 = "8 word"
type_synonym u32 = "32 word"
type_synonym u64 = "64 word"

definition sec :: "int \<Rightarrow> int" where
  "sec n = n * 1000000000"

definition ms :: "int \<Rightarrow> int" where
  "ms n = n * 1000000"

text \<open>A signed 64-bit result: what is kept of an \<open>int64\<close> computation.\<close>

definition wrap_i64 :: "int \<Rightarrow> int" where
  "wrap_i64 x = (x + 2 ^ 63) mod 2 ^ 64 - 2 ^ 63"

lemma wrap_i64_id: "- (2 ^ 63) \<le> x \<Longrightarrow> x < 2 ^ 63 \<Longrightarrow> wrap_i64 x = x"
  by (simp add: wrap_i64_def)

lemma unat_sub_le: "y \<le> x \<Longrightarrow> unat (x - y) = unat x - unat (y :: 'a::len word)"
  by (simp add: unat_sub)

lemma unat_Suc_small:
  "unat (n :: 'a::len word) + 1 < 2 ^ LENGTH('a) \<Longrightarrow> unat (n + 1) = unat n + 1"
  by (simp add: unat_word_ariths)

section \<open>Byte strings and fixed-size arrays\<close>

text \<open>
  \<open>thor.Address\<close> is \<open>[20]byte\<close> and \<open>thor.Bytes32\<close> is \<open>[32]byte\<close>. Both are kept as the
  word they spell in big-endian order, so the size is part of the type; \<open>be_bytes\<close> gives
  the bytes back. \<open>be_nat\<close> is \<open>big.Int.SetBytes\<close>.
\<close>

type_synonym bytes = "u8 list"

datatype address = Address (addr_word: "160 word")
datatype bytes32 = Bytes32 (b32_word: "256 word")

abbreviation zero_address :: address where
  "zero_address \<equiv> Address 0"

definition be_nat :: "bytes \<Rightarrow> nat" where
  "be_nat bs = foldl (\<lambda>a b. a * 256 + unat b) 0 bs"

definition be_bytes :: "nat \<Rightarrow> 'a::len word \<Rightarrow> bytes" where
  "be_bytes n w = map (\<lambda>i. ucast (drop_bit (8 * i) w)) (rev [0..<n])"

definition address_bytes :: "address \<Rightarrow> bytes" where
  "address_bytes a = be_bytes 20 (addr_word a)"

definition bytes32_bytes :: "bytes32 \<Rightarrow> bytes" where
  "bytes32_bytes h = be_bytes 32 (b32_word h)"

text \<open>\<open>binary.BigEndian.PutUint32\<close>.\<close>

definition put_uint32 :: "u32 \<Rightarrow> bytes" where
  "put_uint32 n = be_bytes 4 n"

text \<open>\<open>binary.BigEndian.Uint32(id[:])\<close>: the first four bytes of a 32-byte identifier.\<close>

definition id_uint32 :: "bytes32 \<Rightarrow> u32" where
  "id_uint32 h = ucast (drop_bit 224 (b32_word h))"

lemma length_be_bytes [simp]: "length (be_bytes n w) = n"
  by (simp add: be_bytes_def)

lemma be_nat_Nil [simp]: "be_nat [] = 0"
  by (simp add: be_nat_def)

lemma be_nat_snoc [be_simps]: "be_nat (bs @ [b]) = be_nat bs * 256 + unat b"
  by (simp add: be_nat_def)

lemma be_bytes_Suc [be_simps]: "be_bytes (Suc n) w = ucast (drop_bit (8 * n) w) # be_bytes n w"
  by (simp add: be_bytes_def)

lemma be_bytes_0 [simp]: "be_bytes 0 w = []"
  by (simp add: be_bytes_def)

lemma be_nat_foldl: "foldl (\<lambda>a b. a * 256 + unat b) x bs = x * 256 ^ length bs + be_nat bs"
proof (induction bs rule: rev_induct)
  case Nil
  show ?case by simp
next
  case (snoc b bs)
  then show ?case by (simp add: be_nat_snoc algebra_simps)
qed

lemma be_nat_Cons [be_simps]: "be_nat (b # bs) = unat b * 256 ^ length bs + be_nat bs"
  using be_nat_foldl [of "unat b" bs] by (simp add: be_nat_def)

lemma be_nat_append: "be_nat (xs @ ys) = be_nat xs * 256 ^ length ys + be_nat ys"
  using be_nat_foldl [of "be_nat xs" ys] by (simp add: be_nat_def)

lemma be_nat_bound: "be_nat bs < 256 ^ length bs"
proof (induction bs rule: rev_induct)
  case (snoc b bs)
  have "unat b < 256" using unsigned_less [of b] by simp
  with snoc show ?case by (simp add: be_nat_snoc)
qed simp

text \<open>Reading back what was written gives the low bytes of the word.\<close>

lemma be_nat_be_bytes: "be_nat (be_bytes n w) = unat w mod 256 ^ n"
proof (induction n)
  case 0
  show ?case by simp
next
  case (Suc n)
  have "unat (ucast (drop_bit (8 * n) w) :: u8) = unat w div 256 ^ n mod 256"
    by (simp add: unsigned_ucast_eq take_bit_eq_mod unat_drop_bit_eq power_mult drop_bit_eq_div [where ?'a = nat])
  moreover have "unat w mod 256 ^ Suc n = 256 ^ n * (unat w div 256 ^ n mod 256) + unat w mod 256 ^ n"
    unfolding power_Suc2 by (rule mod_mult2_eq)
  ultimately show ?case
    using Suc by (simp add: be_bytes_Suc be_nat_Cons)
qed

lemma be_bytes_inj:
  fixes v w :: "'a::len word"
  assumes "LENGTH('a) \<le> 8 * n" and "be_bytes n v = be_bytes n w"
  shows "v = w"
proof -
  have b: "unat x < 256 ^ n" for x :: "'a word"
  proof -
    have "unat x < 2 ^ LENGTH('a)" by (rule unsigned_less)
    also have "\<dots> \<le> (2::nat) ^ (8 * n)" using assms(1) by (intro power_increasing) auto
    finally show ?thesis by (simp add: power_mult)
  qed
  from assms(2) have "be_nat (be_bytes n v) = be_nat (be_bytes n w)" by simp
  with b [of v] b [of w] show ?thesis by (simp add: be_nat_be_bytes word_unat_eq_iff)
qed

text \<open>
  \<open>bytes.Compare(a.Bytes(), b.Bytes())\<close> orders 32-byte hashes lexicographically; the order
  on byte lists comes from \<^theory_text>\<open>List_Lexorder\<close>, and makes \<open>bytes32\<close> a linear order.
\<close>

instantiation bytes32 :: linorder
begin

definition less_eq_bytes32 :: "bytes32 \<Rightarrow> bytes32 \<Rightarrow> bool" where
  "less_eq_bytes32 a b \<longleftrightarrow> bytes32_bytes a \<le> bytes32_bytes b"

definition less_bytes32 :: "bytes32 \<Rightarrow> bytes32 \<Rightarrow> bool" where
  "less_bytes32 a b \<longleftrightarrow> bytes32_bytes a < bytes32_bytes b"

instance
proof
  fix a b c :: bytes32
  show "(a < b) = (a \<le> b \<and> \<not> b \<le> a)"
    by (auto simp: less_eq_bytes32_def less_bytes32_def)
  show "a \<le> a" by (simp add: less_eq_bytes32_def)
  show "a \<le> b \<Longrightarrow> b \<le> c \<Longrightarrow> a \<le> c" by (auto simp: less_eq_bytes32_def)
  show "a \<le> b \<or> b \<le> a" by (auto simp: less_eq_bytes32_def)
  assume "a \<le> b" and "b \<le> a"
  then have "bytes32_bytes a = bytes32_bytes b" by (simp add: less_eq_bytes32_def)
  then have "b32_word a = b32_word b"
    unfolding bytes32_bytes_def by (rule be_bytes_inj [rotated]) simp
  then show "a = b" by (cases a, cases b) simp
qed

end

section \<open>Errors, panics and outcomes\<close>

text \<open>
  A Go error is a value; \<open>fmt.Errorf("...: %w", err)\<close> and \<open>errors.Wrap\<close> keep the cause,
  which \<open>errors.Is\<close> looks for. \<open>ErrNotFound\<close> is \<open>httpclient.ErrNotFound\<close>; any other
  error made outside this repository is an \<open>ErrOther\<close>.
\<close>

datatype gerror = ErrNotFound | ErrOther nat | ErrMsg string | ErrWrap string gerror

fun errors_Is :: "gerror \<Rightarrow> gerror \<Rightarrow> bool" where
  "errors_Is (ErrWrap m e) t = (ErrWrap m e = t \<or> errors_Is e t)"
| "errors_Is e t = (e = t)"

text \<open>
  A function that can also panic returns an outcome. The panics are the ones the Go runtime
  raises for this code.
\<close>

datatype gpanic = NilDereference | IndexOutOfRange | SendOnClosedChannel | DivideByZero
  | BadTypeAssertion | ExplicitPanic

datatype 'a outcome = Ok 'a | Err gerror | Panic gpanic

fun bind_outcome :: "'a outcome \<Rightarrow> ('a \<Rightarrow> 'b outcome) \<Rightarrow> 'b outcome" where
  "bind_outcome (Ok x) f = f x"
| "bind_outcome (Err e) f = Err e"
| "bind_outcome (Panic p) f = Panic p"

lemma bind_outcome_Ok_iff [outcome_simps]:
  "bind_outcome m f = Ok y \<longleftrightarrow> (\<exists>x. m = Ok x \<and> f x = Ok y)"
  by (cases m) auto

lemma bind_outcome_Ok_right [simp]: "bind_outcome m Ok = m"
  by (cases m) auto

lemma bind_outcome_assoc:
  "bind_outcome (bind_outcome m f) g = bind_outcome m (\<lambda>x. bind_outcome (f x) g)"
  by (cases m) auto

text \<open>An indexed read that panics out of range.\<close>

definition nth_or_panic :: "'a list \<Rightarrow> nat \<Rightarrow> 'a outcome" where
  "nth_or_panic xs i = (if i < length xs then Ok (xs ! i) else Panic IndexOutOfRange)"

section \<open>Maps\<close>

text \<open>
  A Go map built by assignments is an association list with one entry per key:
  \<open>m[k] = v\<close> is \<open>AList.update k v m\<close> and \<open>m[k]\<close> is \<open>map_of m k\<close>.
\<close>

type_synonym ('k, 'v) gomap = "('k \<times> 'v) list"

definition map_insert_all :: "('a \<Rightarrow> 'k) \<Rightarrow> 'a list \<Rightarrow> ('k, 'a) gomap \<Rightarrow> ('k, 'a) gomap" where
  "map_insert_all key xs m = foldl (\<lambda>m x. AList.update (key x) x m) m xs"

lemma map_insert_all_simps [simp]:
  "map_insert_all key [] m = m"
  "map_insert_all key (x # xs) m = map_insert_all key xs (AList.update (key x) x m)"
  by (simp_all add: map_insert_all_def)

lemma map_insert_all_keys:
  "set (map fst (map_insert_all key xs m)) = set (map fst m) \<union> key ` set xs"
proof (induction xs arbitrary: m)
  case Nil
  show ?case by simp
next
  case (Cons x xs)
  then show ?case by (auto simp: update_conv' simp flip: dom_map_of_conv_image_fst)
qed

lemma map_insert_all_distinct:
  "distinct (map fst m) \<Longrightarrow> distinct (map fst (map_insert_all key xs m))"
  by (induction xs arbitrary: m) (auto simp: distinct_update)

text \<open>The last element with a key wins.\<close>

lemma map_insert_all_lookup:
  "map_of (map_insert_all key xs m) k =
     (case filter (\<lambda>x. key x = k) (rev xs) of [] \<Rightarrow> map_of m k | x # _ \<Rightarrow> Some x)"
proof (induction xs arbitrary: m)
  case Nil
  show ?case by simp
next
  case (Cons x xs)
  show ?case
    by (simp add: Cons.IH update_conv' split: list.splits)
qed

lemma map_insert_all_unique:
  assumes "x \<in> set xs" and "inj_on key (set xs)"
  shows "map_of (map_insert_all key xs m) (key x) = Some x"
proof -
  let ?f = "filter (\<lambda>y. key y = key x) (rev xs)"
  have "set ?f = {x}" using assms by (auto dest: inj_onD)
  then obtain ys where "?f = x # ys" by (cases ?f) auto
  then show ?thesis by (simp add: map_insert_all_lookup)
qed

end
