(* ===== verification/VetUtil.thy ===== *)
theory VetUtil
  imports Prelude
begin

text \<open>
  \<^verbatim>\<open>vetutil/vet.go\<close>: scaling wei amounts (\<open>*big.Int\<close>) to whole VET in a
  \<open>uint64\<close>. \<open>big.Int.Div\<close> is Euclidean division, which for the positive divisor is
  HOL's \<open>div\<close>; \<open>big.Int.Uint64\<close> keeps the low 64 bits of the absolute value.
\<close>

definition VET :: int where
  "VET = 10 ^ 18"

definition big_Uint64 :: "int \<Rightarrow> u64" where
  "big_Uint64 x = word_of_int \<bar>x\<bar>"

definition ScaleToVET :: "int option \<Rightarrow> u64" where
  "ScaleToVET wei = (case wei of None \<Rightarrow> 0 | Some x \<Rightarrow> big_Uint64 (x div VET))"

definition ScaleToMillionVET :: "int option \<Rightarrow> u64" where
  "ScaleToMillionVET wei = ScaleToVET wei div 1000000"

lemma uint_big_Uint64: "0 \<le> x \<Longrightarrow> x < 2 ^ 64 \<Longrightarrow> uint (big_Uint64 x) = x"
  by (simp add: big_Uint64_def uint_word_of_int)

lemma ScaleToVET_None [simp]: "ScaleToVET None = 0"
  by (simp add: ScaleToVET_def)

lemma ScaleToVET_exact:
  assumes "0 \<le> x" and "x < 2 ^ 64 * VET"
  shows "uint (ScaleToVET (Some x)) = x div VET"
proof -
  have "x div VET < 2 ^ 64" using assms by (simp add: VET_def div_less_iff_less_mult)
  moreover have "0 \<le> x div VET" using assms by (simp add: VET_def pos_imp_zdiv_nonneg_iff)
  ultimately show ?thesis by (simp add: ScaleToVET_def uint_big_Uint64)
qed

end
