(* ===== verification/Float64.thy ===== *)
theory Float64
  imports Complex_Main "HOL-Library.Log_Nat" Prelude
begin

text \<open>
  Go's \<open>float64\<close>: IEEE-754 binary64 numbers as rationals, with the two infinities and one
  NaN (the sign of zero is not kept: no code here divides by a computed zero or prints one).
  Every arithmetic operation rounds the exact result to 53 significant bits, ties to even.
\<close>

datatype f64 = Fin rat | PInf | NInf | NaN

definition pow2 :: "int \<Rightarrow> rat" where
  "pow2 k = (if 0 \<le> k then 2 ^ nat k else 1 / 2 ^ nat (- k))"

text \<open>The exponent \<open>e\<close> with \<open>2 ^ e \<le> q < 2 ^ (e + 1)\<close>, for positive \<open>q\<close>.\<close>

definition ilog2 :: "rat \<Rightarrow> int" where
  "ilog2 q = (case quotient_of q of (a, b) \<Rightarrow>
     let k = bitlen a - bitlen b in if pow2 k \<le> q then k else k - 1)"

definition round_half_even :: "rat \<Rightarrow> int" where
  "round_half_even q = (let f = \<lfloor>q\<rfloor>; d = q - of_int f in
     if d < 1 / 2 then f else if 1 / 2 < d then f + 1 else if even f then f else f + 1)"

definition f64_round :: "rat \<Rightarrow> f64" where
  "f64_round q = (if q = 0 then Fin 0 else
     let e = max (ilog2 \<bar>q\<bar>) (- 1022); u = pow2 (e - 52);
         r = of_int (round_half_even (q / u)) * u
     in if pow2 1024 \<le> \<bar>r\<bar> then (if 0 < q then PInf else NInf) else Fin r)"

definition f64_of_int :: "int \<Rightarrow> f64" where
  "f64_of_int n = f64_round (of_int n)"

definition f64_of_u64 :: "u64 \<Rightarrow> f64" where
  "f64_of_u64 w = f64_of_int (uint w)"

fun f64_neg :: "f64 \<Rightarrow> f64" where
  "f64_neg (Fin a) = Fin (- a)"
| "f64_neg PInf = NInf"
| "f64_neg NInf = PInf"
| "f64_neg NaN = NaN"

fun f64_add :: "f64 \<Rightarrow> f64 \<Rightarrow> f64" where
  "f64_add (Fin a) (Fin b) = f64_round (a + b)"
| "f64_add NaN _ = NaN"
| "f64_add _ NaN = NaN"
| "f64_add PInf NInf = NaN"
| "f64_add NInf PInf = NaN"
| "f64_add PInf _ = PInf"
| "f64_add NInf _ = NInf"
| "f64_add _ b = b"

definition f64_sub :: "f64 \<Rightarrow> f64 \<Rightarrow> f64" where
  "f64_sub a b = f64_add a (f64_neg b)"

definition f64_inf :: "bool \<Rightarrow> f64" where
  "f64_inf pos = (if pos then PInf else NInf)"

fun f64_mul :: "f64 \<Rightarrow> f64 \<Rightarrow> f64" where
  "f64_mul (Fin a) (Fin b) = f64_round (a * b)"
| "f64_mul NaN _ = NaN"
| "f64_mul _ NaN = NaN"
| "f64_mul (Fin a) PInf = (if a = 0 then NaN else f64_inf (0 < a))"
| "f64_mul (Fin a) NInf = (if a = 0 then NaN else f64_inf (a < 0))"
| "f64_mul PInf (Fin b) = (if b = 0 then NaN else f64_inf (0 < b))"
| "f64_mul NInf (Fin b) = (if b = 0 then NaN else f64_inf (b < 0))"
| "f64_mul PInf PInf = PInf"
| "f64_mul NInf NInf = PInf"
| "f64_mul PInf NInf = NInf"
| "f64_mul NInf PInf = NInf"

text \<open>Division does not panic: \<open>x / 0\<close> is an infinity, \<open>0 / 0\<close> is NaN.\<close>

fun f64_div :: "f64 \<Rightarrow> f64 \<Rightarrow> f64" where
  "f64_div (Fin a) (Fin b) =
     (if b = 0 then (if a = 0 then NaN else f64_inf (0 < a)) else f64_round (a / b))"
| "f64_div NaN _ = NaN"
| "f64_div _ NaN = NaN"
| "f64_div (Fin a) _ = Fin 0"
| "f64_div PInf (Fin b) = f64_inf (0 \<le> b)"
| "f64_div NInf (Fin b) = f64_inf (b < 0)"
| "f64_div _ _ = NaN"

text \<open>Comparisons with NaN are false, so \<open>f64\<close> is an order only in the sense of \<open>ord\<close>.\<close>

instantiation f64 :: ord
begin

fun less_f64 :: "f64 \<Rightarrow> f64 \<Rightarrow> bool" where
  "less_f64 (Fin a) (Fin b) = (a < b)"
| "less_f64 NaN _ = False"
| "less_f64 _ NaN = False"
| "less_f64 (Fin a) PInf = True"
| "less_f64 NInf NInf = False"
| "less_f64 NInf _ = True"
| "less_f64 _ _ = False"

definition less_eq_f64 :: "f64 \<Rightarrow> f64 \<Rightarrow> bool" where
  "less_eq_f64 a b \<longleftrightarrow> a < b \<or> (a = b \<and> a \<noteq> NaN)"

instance ..

end

text \<open>
  \<open>big.Float\<close> rounds to a precision that belongs to the number, without bounds on the
  exponent. \<open>SetInt\<close> takes the precision from the integer; \<open>Add\<close> keeps the receiver's,
  and takes the larger one of the operands when the receiver has none yet (precision 0).
\<close>

record bigfloat =
  bg_prec :: nat
  bg_val :: rat

definition round_prec :: "nat \<Rightarrow> rat \<Rightarrow> rat" where
  "round_prec p q = (if q = 0 then 0 else
     let u = pow2 (ilog2 \<bar>q\<bar> - (int p - 1)) in of_int (round_half_even (q / u)) * u)"

definition big_SetInt :: "int \<Rightarrow> bigfloat" where
  "big_SetInt n = \<lparr>bg_prec = max 64 (nat (bitlen \<bar>n\<bar>)), bg_val = of_int n\<rparr>"

definition big_zero :: bigfloat where
  "big_zero = \<lparr>bg_prec = 0, bg_val = 0\<rparr>"

definition big_Add :: "bigfloat \<Rightarrow> bigfloat \<Rightarrow> bigfloat" where
  "big_Add x y =
     (let p = (if bg_prec x = 0 then bg_prec y else bg_prec x) in
      \<lparr>bg_prec = p, bg_val = round_prec p (bg_val x + bg_val y)\<rparr>)"

definition big_Quo :: "bigfloat \<Rightarrow> rat \<Rightarrow> bigfloat" where
  "big_Quo x q = x\<lparr>bg_val := round_prec (bg_prec x) (bg_val x / q)\<rparr>"

definition big_Float64 :: "bigfloat \<Rightarrow> f64" where
  "big_Float64 x = f64_round (bg_val x)"

section \<open>Exactness on small integers\<close>

lemma pow2_add: "pow2 (i + j) = pow2 i * pow2 j"
proof -
  have p: "pow2 k = 2 powi k" for k
    by (auto simp: pow2_def power_int_def divide_simps power_inverse)
  show ?thesis by (simp add: p power_int_add)
qed

lemma pow2_pos [simp]: "0 < pow2 k"
  by (simp add: pow2_def)

lemma pow2_nonzero [simp]: "pow2 k \<noteq> 0"
  by (simp add: pow2_def)

lemma pow2_nat [simp]: "pow2 (int n) = 2 ^ n"
  by (simp add: pow2_def)

lemma pow2_mono: "i \<le> j \<Longrightarrow> pow2 i \<le> pow2 j"
proof -
  assume "i \<le> j"
  then obtain n where j: "j = i + int n" using zle_iff_zadd by blast
  have "pow2 i * 1 \<le> pow2 i * 2 ^ n" by (intro mult_left_mono) (auto simp: less_imp_le)
  then show ?thesis by (simp add: j pow2_add)
qed

lemma round_half_even_int [simp]: "round_half_even (of_int n) = n"
  by (simp add: round_half_even_def)

lemma ilog2_of_int:
  assumes "0 < n"
  shows "ilog2 (of_int n) = bitlen n - 1"
proof -
  have b: "1 \<le> bitlen n" and "2 ^ nat (bitlen n - 1) \<le> n"
    using assms bitlen_bounds [of n] bitlen_nonneg [of n] bitlen_eq_zero_iff [of n] by linarith+
  then have "pow2 (bitlen n - 1) \<le> of_int n"
    by (simp add: pow2_def)
  moreover have "quotient_of (of_int n) = (n, 1)"
    by simp
  ultimately show ?thesis by (simp add: ilog2_def bitlen_def floorlog_def)
qed

lemma f64_of_int_exact_pos:
  assumes "0 < n" and "n < 2 ^ 53"
  shows "f64_of_int n = Fin (of_int n)"
proof -
  define k where "k = bitlen n - 1"
  have "bitlen n \<le> 53"
    using bitlen_le_iff_power [of n 53] assms by simp
  then have k: "0 \<le> k" "k \<le> 52" using bitlen_bounds [of n] assms bitlen_nonneg [of n]
      bitlen_eq_zero_iff [of n] by (auto simp: k_def)
  have e: "max (ilog2 (of_int n)) (- 1022) = k"
    using assms k by (simp add: ilog2_of_int k_def)
  obtain m where m: "52 - k = int m" using k by (metis diff_ge_0_iff_ge nonneg_int_cases)
  have "pow2 (k - 52) * 2 ^ m = pow2 ((k - 52) + int m)" by (simp only: pow2_add pow2_nat)
  also have "\<dots> = pow2 (int 0)" using m by (simp add: pow2_def)
  finally have u: "pow2 (k - 52) * 2 ^ m = 1" by (simp only: pow2_nat power_0)
  then have q: "of_int n / pow2 (k - 52) = of_int (n * 2 ^ m)"
    by (simp add: divide_eq_eq mult.assoc mult.commute [of "2 ^ m"])
  have "of_int (round_half_even (of_int n / pow2 (k - 52))) * pow2 (k - 52) = of_int n"
    unfolding q round_half_even_int using u by (simp add: mult.assoc mult.commute)
  moreover have "\<not> pow2 1024 \<le> \<bar>of_int n\<bar>"
  proof -
    have "of_int n < (of_int (2 ^ 53) :: rat)" using assms(2) by (simp only: of_int_less_iff)
    also have "\<dots> = pow2 (int 53)" by (simp add: pow2_def)
    also have "\<dots> \<le> pow2 1024" by (rule pow2_mono) simp
    finally show ?thesis using assms(1) by simp
  qed
  ultimately show ?thesis
    using assms by (simp add: f64_of_int_def f64_round_def e Let_def)
qed

lemma f64_of_int_exact: "0 \<le> n \<Longrightarrow> n < 2 ^ 53 \<Longrightarrow> f64_of_int n = Fin (of_int n)"
proof (cases "n = 0")
  case True
  then show ?thesis by (simp add: f64_of_int_def f64_round_def)
next
  case False
  assume "0 \<le> n" "n < 2 ^ 53"
  with False show ?thesis by (intro f64_of_int_exact_pos) auto
qed

section \<open>Numbers other than NaN are totally ordered\<close>

lemma f64_round_not_NaN: "f64_round q \<noteq> NaN"
  by (simp add: f64_round_def Let_def)

lemma f64_le_trans: "x \<le> y \<Longrightarrow> y \<le> z \<Longrightarrow> x \<le> (z :: f64)"
  by (cases x; cases y; cases z) (auto simp: less_eq_f64_def)

lemma f64_le_total: "x \<noteq> NaN \<Longrightarrow> y \<noteq> NaN \<Longrightarrow> x < y \<or> y \<le> (x :: f64)"
  by (cases x; cases y) (auto simp: less_eq_f64_def)

lemma f64_less_imp_le: "x < y \<Longrightarrow> x \<le> (y :: f64)"
  by (simp add: less_eq_f64_def)

lemma f64_le_refl: "x \<noteq> NaN \<Longrightarrow> x \<le> (x :: f64)"
  by (simp add: less_eq_f64_def)

section \<open>Positive numbers stay positive\<close>

lemma round_half_even_pos: "1 \<le> q \<Longrightarrow> 1 \<le> round_half_even q"
proof -
  assume "1 \<le> q"
  then have "1 \<le> \<lfloor>q\<rfloor>" by simp
  then show ?thesis by (simp add: round_half_even_def Let_def)
qed

lemma f64_of_int_pos:
  assumes "0 < n"
  shows "f64_of_int n = PInf \<or> (\<exists>r > 0. f64_of_int n = Fin r)"
proof -
  define e where "e = bitlen n - 1"
  have b: "1 \<le> bitlen n" "2 ^ nat (bitlen n - 1) \<le> n"
    using assms bitlen_bounds [of n] bitlen_nonneg [of n] bitlen_eq_zero_iff [of n] by linarith+
  have m: "max (ilog2 (of_int n)) (- 1022) = e" using assms b(1) by (simp add: ilog2_of_int e_def)
  let ?r = "of_int (round_half_even (of_int n / pow2 (e - 52))) * pow2 (e - 52)"
  have "pow2 (e - 52) \<le> pow2 e" by (rule pow2_mono) simp
  also have "pow2 e \<le> of_int n"
  proof -
    have "(of_int (2 ^ nat e) :: rat) \<le> of_int n" using b by (simp only: of_int_le_iff e_def)
    then show ?thesis using b(1) by (simp add: pow2_def e_def)
  qed
  finally have "1 \<le> of_int n / pow2 (e - 52)" by (simp add: pos_le_divide_eq)
  then have "1 \<le> round_half_even (of_int n / pow2 (e - 52))" by (rule round_half_even_pos)
  then have "0 < ?r" by simp
  then show ?thesis using assms by (auto simp: f64_of_int_def f64_round_def m Let_def)
qed

lemma f64_of_u64_pos: "w \<noteq> 0 \<Longrightarrow> f64_of_u64 w = PInf \<or> (\<exists>r > 0. f64_of_u64 w = Fin r)"
  unfolding f64_of_u64_def by (rule f64_of_int_pos) (simp add: less_le uint_0_iff [symmetric])

text \<open>The constant \<open>1e-10\<close> of the program.\<close>

lemma tiny_f64: "f64_round (1 / 10 ^ 10) = Fin (7737125245533627 / 77371252455336267181195264)"
proof -
  have "quotient_of (1 / 10000000000) = (1, 10000000000)" by code_simp
  moreover have "bitlen 10000000000 = 34"
  proof (rule antisym)
    show "bitlen 10000000000 \<le> 34" using bitlen_le_iff_power [of 10000000000 34] by simp
    show "34 \<le> bitlen 10000000000" using bitlen_ge_iff_power [of 34 10000000000] by simp
  qed
  moreover have "bitlen 1 = 1" by (simp add: bitlen_def floorlog_def)
  ultimately have "ilog2 (1 / 10000000000) = - 34" by (simp add: ilog2_def pow2_def)
  moreover have "\<lfloor>75557863725914323419136 / 9765625 :: rat\<rfloor> = 7737125245533626"
    by (rule floor_unique) simp_all
  ultimately show ?thesis by (simp add: f64_round_def Let_def pow2_def round_half_even_def)
qed

end
