(* ===== verification/Types.thy ===== *)
theory Types
  imports VetUtil Float64
begin

text \<open>
  The data the program moves: the blocks and transactions of the thor API (only the fields the
  program reads), \<^verbatim>\<open>types/types.go\<close>, \<^verbatim>\<open>types/authority_node.go\<close>, and the
  points written to InfluxDB.
\<close>

section \<open>The thor API's data\<close>

text \<open>A log entry (\<open>api.JSONEvent\<close>), a VET transfer, and one clause's output.\<close>

record JSONEvent =
  ev_Address :: address
  ev_Topics :: "bytes32 list"
  ev_Data :: string

record JSONTransfer =
  tr_Sender :: address
  tr_Recipient :: address
  tr_Amount :: int

record JSONOutput =
  out_Events :: "JSONEvent list"
  out_Transfers :: "JSONTransfer list"

datatype tx_type = TypeLegacy | TypeDynamicFee | TypeOther u8

text \<open>\<open>api.JSONEmbeddedTx\<close>; of the clauses only their number is read.\<close>

record JSONTx =
  tx_Type :: tx_type
  tx_GasPriceCoef :: "u8 option"
  tx_MaxPriorityFeePerGas :: "int option"
  tx_Reward :: "int option"
  tx_ClauseCount :: nat
  tx_Outputs :: "JSONOutput list"

record Block =
  blk_Number :: u32
  blk_ID :: bytes32
  blk_ParentID :: bytes32
  blk_Timestamp :: u64
  blk_Signer :: address
  blk_TotalScore :: u64
  blk_GasUsed :: u64
  blk_GasLimit :: u64
  blk_Size :: u32
  blk_BaseFeePerGas :: "int option"
  blk_COM :: bool
  blk_Transactions :: "JSONTx list"

text \<open>A revision a client can be asked for: a number, an identifier, or a keyword.\<close>

datatype revision = RevNumber u32 | RevID bytes32 | RevFinalized | RevJustified | RevBest

text \<open>\<open>time.Unix(int64(b.Timestamp), 0)\<close>, in nanoseconds.\<close>

definition unix_time :: "u64 \<Rightarrow> int" where
  "unix_time t = sec (sint t)"

section \<open>types/authority\_node.go\<close>

record AuthorityNode =
  an_Master :: address
  an_Endorsor :: address
  an_Active :: bool

type_synonym AuthorityNodeList = "AuthorityNode list"

definition SetNodes :: "AuthorityNodeList \<Rightarrow> AuthorityNode list \<Rightarrow> AuthorityNodeList" where
  "SetNodes al nodes = nodes"

fun GetActiveNodes :: "AuthorityNodeList \<Rightarrow> AuthorityNode list" where
  "GetActiveNodes [] = []"
| "GetActiveNodes (node # al) =
     (if an_Active node then node # GetActiveNodes al else GetActiveNodes al)"

definition GetActiveCount :: "AuthorityNodeList \<Rightarrow> nat" where
  "GetActiveCount al = foldl (\<lambda>count node. if an_Active node then count + 1 else count) 0 al"

lemma GetActiveNodes_filter: "GetActiveNodes al = filter an_Active al"
  by (induction al) auto

lemma GetActiveCount_eq: "GetActiveCount al = length (GetActiveNodes al)"
proof -
  have "foldl (\<lambda>count node. if an_Active node then count + 1 else count) c al
          = c + length (filter an_Active al)" for c :: nat
    by (induction al arbitrary: c) auto
  then show ?thesis by (simp add: GetActiveCount_def GetActiveNodes_filter)
qed

section \<open>types/types.go\<close>

text \<open>\<open>validation.Status\<close> of the thor library, by the names the program gives its values.\<close>

datatype status = StatusQueued | StatusActive | StatusExit | StatusOther u8

text \<open>
  A validation: the embedded \<open>validation.Validation\<close> and \<open>builtin.ValidationTotals\<close> first,
  then the fields of the struct. \<open>None\<close> is a nil pointer. (The struct's two authority node
  lists are never set or read.)
\<close>

record Validation =
  v_Endorser :: address
  v_Period :: u32
  v_CompletedPeriods :: u32
  v_Status :: status
  v_StartBlock :: u32
  v_ExitBlock :: "u32 option"
  v_OfflineBlock :: "u32 option"
  v_LockedVET :: u64
  v_PendingUnlockVET :: u64
  v_QueuedVET :: u64
  v_CooldownVET :: u64
  v_WithdrawableVET :: u64
  v_Weight :: u64
  v_TotalLockedStake :: "int option"
  v_TotalLockedWeight :: "int option"
  v_TotalQueuedStake :: "int option"
  v_TotalExitingStake :: "int option"
  v_NextPeriodWeight :: "int option"
  v_Address :: address
  v_Online :: bool
  v_DelegatorStake :: "int option"
  v_DelegatorWeight :: "int option"
  v_DelegatorQueuedStake :: "int option"
  v_DelegatorQueuedWeight :: "int option"

record VTHO =
  vtho_TotalSupply :: "int option"
  vtho_TotalBurned :: "int option"

record StakerInformation =
  si_Validations :: "Validation list"
  si_ContractBalance :: "int option"
  si_QueuedVET :: "int option"
  si_TotalVET :: "int option"
  si_TotalWeight :: "int option"
  si_VTHO :: VTHO
  si_CooldownVET :: u64
  si_WithdrawableVET :: u64

record HayabusaStatus =
  hs_Active :: bool
  hs_Forked :: bool

definition ValidationMap :: "StakerInformation \<Rightarrow> (address, Validation) gomap" where
  "ValidationMap s = map_insert_all v_Address (si_Validations s) []"

definition ActiveMap :: "StakerInformation \<Rightarrow> (address, Validation) gomap" where
  "ActiveMap s = foldl (\<lambda>m v. if v_Status v = StatusActive then AList.update (v_Address v) v m else m)
     [] (si_Validations s)"

lemma ActiveMap_filter:
  "ActiveMap s = map_insert_all v_Address (filter (\<lambda>v. v_Status v = StatusActive) (si_Validations s)) []"
proof -
  have "foldl (\<lambda>m v. if v_Status v = StatusActive then AList.update (v_Address v) v m else m) m vs
          = map_insert_all v_Address (filter (\<lambda>v. v_Status v = StatusActive) vs) m" for m vs
    by (induction vs arbitrary: m) auto
  then show ?thesis by (simp add: ActiveMap_def)
qed

lemma ValidationMap_lookup:
  assumes "v \<in> set (si_Validations s)" and "distinct (map v_Address (si_Validations s))"
  shows "map_of (ValidationMap s) (v_Address v) = Some v"
  unfolding ValidationMap_def using assms by (intro map_insert_all_unique) (simp_all add: distinct_map)

lemma dom_ValidationMap: "dom (map_of (ValidationMap s)) = v_Address ` set (si_Validations s)"
  by (simp add: dom_map_of_conv_image_fst ValidationMap_def map_insert_all_keys flip: set_map)

section \<open>Points\<close>

text \<open>
  A point of the InfluxDB client: measurement, tags, fields, time. Addresses and identifiers
  are kept as such where the code stores their \<open>String()\<close>, and so are big integers; a
  \<open>big.Float\<close> is kept as the rational it stands for. A number in a tag stands for its decimal text.
\<close>

datatype val = VU8 u8 | VU32 u32 | VU64 u64 | VInt int | VBig int | VBool bool | VStr string
  | VAddr address | VID bytes32 | VF64 f64 | VRat rat

datatype fkey = KStr string | KAddr address

text \<open>\<open>strconv.FormatBool\<close>.\<close>

definition FormatBool :: "bool \<Rightarrow> string" where
  "FormatBool b = (if b then ''true'' else ''false'')"

record point =
  pt_Measurement :: string
  pt_Tags :: "(string, val) gomap"
  pt_Fields :: "(fkey, val) gomap"
  pt_Time :: int

section \<open>The event handed to the handlers\<close>

record Event =
  e_DefaultTags :: "(string, val) gomap"
  e_Block :: Block
  e_Seed :: bytes
  e_HayabusaStatus :: HayabusaStatus
  e_Prev :: "Block option"
  e_Timestamp :: int
  e_Staker :: "StakerInformation option"
  e_ParentStaker :: "StakerInformation option"
  e_AuthNodes :: AuthorityNodeList
  e_ParentAuthNodes :: AuthorityNodeList
  e_FutureSeed :: bytes

text \<open>The value of a field of a point.\<close>

definition field :: "point \<Rightarrow> string \<Rightarrow> val option" where
  "field p k = map_of (pt_Fields p) (KStr k)"

end
