(* ===== verification/Retry.thy ===== *)
theory Retry
  imports Types
begin

text \<open>
  \<^verbatim>\<open>common/retry.go\<close>: calling a fallible function again until it succeeds or a deadline
  passes. Everything outside the program is a world of type \<open>'w\<close>: a call reads and advances
  it. The clock and the sleep of the \<open>time\<close> package are the record \<open>timer\<close>. A loop that
  never returns is \<open>None\<close>; both loops are shown to return under the clock's laws.
\<close>

record 'w timer =
  tm_now :: "'w \<Rightarrow> int"
  tm_sleep :: "int \<Rightarrow> 'w \<Rightarrow> 'w"

type_synonym ('w, 'a) attempt = "'w \<Rightarrow> 'a outcome \<times> 'w"

text \<open>Sleeping takes at least the given time; an attempt does not turn the clock back.\<close>

definition clock_laws :: "'w timer \<Rightarrow> ('w, 'a) attempt \<Rightarrow> bool" where
  "clock_laws tm fn \<longleftrightarrow>
     (\<forall>d w. 0 \<le> d \<longrightarrow> tm_now tm w + d \<le> tm_now tm (tm_sleep tm d w)) \<and>
     (\<forall>w. tm_now tm w \<le> tm_now tm (snd (fn w)))"

lemma clock_laws_sleep:
  "clock_laws tm fn \<Longrightarrow> 0 \<le> d \<Longrightarrow> tm_now tm w + d \<le> tm_now tm (tm_sleep tm d w)"
  by (simp add: clock_laws_def)

lemma clock_laws_attempt: "clock_laws tm fn \<Longrightarrow> fn w = (r, w') \<Longrightarrow> tm_now tm w \<le> tm_now tm w'"
  by (metis clock_laws_def snd_conv)

section \<open>Retry\<close>

partial_function (option) Retry_loop ::
  "'w timer \<Rightarrow> ('w, 'a) attempt \<Rightarrow> int \<Rightarrow> int \<Rightarrow> int \<Rightarrow> 'w \<Rightarrow> ('a outcome \<times> 'w) option" where
  "Retry_loop tm fn startTime retryPeriod maxWaitTime w =
     (case fn w of
        (Ok x, w1) \<Rightarrow> Some (Ok x, w1)
      | (Panic p, w1) \<Rightarrow> Some (Panic p, w1)
      | (Err e, w1) \<Rightarrow>
          if maxWaitTime < tm_now tm w1 - startTime
          then Some (Err (ErrWrap ''retry timeout, latest err'' e), w1)
          else Retry_loop tm fn startTime retryPeriod maxWaitTime (tm_sleep tm retryPeriod w1))"

definition Retry ::
  "'w timer \<Rightarrow> ('w, 'a) attempt \<Rightarrow> int \<Rightarrow> int \<Rightarrow> 'w \<Rightarrow> ('a outcome \<times> 'w) option" where
  "Retry tm fn retryPeriod maxWaitTime w =
     Retry_loop tm fn (tm_now tm w) retryPeriod maxWaitTime w"

section \<open>RetryIncreasing\<close>

text \<open>The delay of the next round: ten times as long, in an \<open>int64\<close>, capped at \<open>maxDelay\<close>.\<close>

definition next_delay :: "int \<Rightarrow> int \<Rightarrow> int" where
  "next_delay maxDelay delay =
     (let d = wrap_i64 (delay * 10) in if maxDelay < d then maxDelay else d)"

partial_function (option) RetryIncreasing_loop ::
  "'w timer \<Rightarrow> ('w, 'a) attempt \<Rightarrow> int \<Rightarrow> int \<Rightarrow> int \<Rightarrow> int \<Rightarrow> 'w \<Rightarrow> ('a outcome \<times> 'w) option" where
  "RetryIncreasing_loop tm fn startTime delay maxDelay maxWaitTime w =
     (case fn w of
        (Ok x, w1) \<Rightarrow> Some (Ok x, w1)
      | (Panic p, w1) \<Rightarrow> Some (Panic p, w1)
      | (Err e, w1) \<Rightarrow>
          if maxWaitTime < tm_now tm w1 - startTime
          then Some (Err (ErrWrap ''retry timeout, latest err'' e), w1)
          else RetryIncreasing_loop tm fn startTime (next_delay maxDelay delay) maxDelay maxWaitTime
                 (tm_sleep tm delay w1))"

definition RetryIncreasing ::
  "'w timer \<Rightarrow> ('w, 'a) attempt \<Rightarrow> int \<Rightarrow> int \<Rightarrow> int \<Rightarrow> 'w \<Rightarrow> ('a outcome \<times> 'w) option" where
  "RetryIncreasing tm fn initialDelay maxDelay maxWaitTime w =
     RetryIncreasing_loop tm fn (tm_now tm w) initialDelay maxDelay maxWaitTime w"

section \<open>Termination\<close>

lemma Retry_loop_returns:
  assumes "clock_laws tm fn" and "0 < retryPeriod"
  shows "\<exists>r. Retry_loop tm fn t0 retryPeriod maxWait w = Some r"
proof (induction "nat (t0 + maxWait + 1 - tm_now tm w)" arbitrary: w rule: less_induct)
  case less
  obtain r w1 where f: "fn w = (r, w1)" by (cases "fn w")
  show ?case
  proof (cases "\<exists>e. r = Err e \<and> \<not> maxWait < tm_now tm w1 - t0")
    case True
    have "tm_now tm w < tm_now tm (tm_sleep tm retryPeriod w1)"
      using clock_laws_attempt [OF assms(1) f] clock_laws_sleep [OF assms(1), of retryPeriod w1] assms(2)
      by linarith
    moreover have "tm_now tm w \<le> t0 + maxWait"
      using True clock_laws_attempt [OF assms(1) f] by auto
    ultimately obtain s where
      "Retry_loop tm fn t0 retryPeriod maxWait (tm_sleep tm retryPeriod w1) = Some s"
      using less.hyps by fastforce
    with True f show ?thesis by (auto simp: Retry_loop.simps [of _ _ _ _ _ w])
  next
    case False
    with f show ?thesis by (cases r) (auto simp: Retry_loop.simps [of _ _ _ _ _ w])
  qed
qed

text \<open>A delay in range stays in range: the multiplication does not overflow.\<close>

definition delay_ok :: "int \<Rightarrow> int \<Rightarrow> bool" where
  "delay_ok maxDelay delay \<longleftrightarrow> 0 < delay \<and> delay * 10 < 2 ^ 63 \<and> 0 < maxDelay \<and> maxDelay * 10 < 2 ^ 63"

lemma next_delay_min: "delay_ok maxDelay delay \<Longrightarrow> next_delay maxDelay delay = min (delay * 10) maxDelay"
  by (simp add: next_delay_def delay_ok_def wrap_i64_id Let_def min_def)

lemma delay_ok_next: "delay_ok maxDelay delay \<Longrightarrow> delay_ok maxDelay (next_delay maxDelay delay)"
  by (simp add: next_delay_min) (simp add: delay_ok_def min_def)

lemma RetryIncreasing_loop_returns:
  assumes "clock_laws tm fn" and "delay_ok maxDelay delay"
  shows "\<exists>r. RetryIncreasing_loop tm fn t0 delay maxDelay maxWait w = Some r"
  using assms(2)
proof (induction "nat (t0 + maxWait + 1 - tm_now tm w)" arbitrary: w delay rule: less_induct)
  case less
  obtain r w1 where f: "fn w = (r, w1)" by (cases "fn w")
  show ?case
  proof (cases "\<exists>e. r = Err e \<and> \<not> maxWait < tm_now tm w1 - t0")
    case True
    have "0 < delay" using less.prems by (simp add: delay_ok_def)
    then have "tm_now tm w < tm_now tm (tm_sleep tm delay w1)"
      using clock_laws_attempt [OF assms(1) f] clock_laws_sleep [OF assms(1), of delay w1] by linarith
    moreover have "tm_now tm w \<le> t0 + maxWait"
      using True clock_laws_attempt [OF assms(1) f] by auto
    ultimately obtain s where
      "RetryIncreasing_loop tm fn t0 (next_delay maxDelay delay) maxDelay maxWait (tm_sleep tm delay w1) = Some s"
      using less.hyps [OF _ delay_ok_next [OF less.prems]] by fastforce
    with True f show ?thesis by (auto simp: RetryIncreasing_loop.simps [of _ _ _ _ _ _ w])
  next
    case False
    with f show ?thesis by (cases r) (auto simp: RetryIncreasing_loop.simps [of _ _ _ _ _ _ w])
  qed
qed

section \<open>What a result means\<close>

text \<open>
  A result is the outcome of one attempt: a success or a panic as it is, a failure wrapped
  and only from an attempt that ended after the deadline.
\<close>

definition attempt_result :: "'w timer \<Rightarrow> ('w, 'a) attempt \<Rightarrow> int \<Rightarrow> 'a outcome \<times> 'w \<Rightarrow> bool" where
  "attempt_result tm fn deadline res \<longleftrightarrow>
     (\<exists>w r. fn w = (r, snd res) \<and>
        (case r of
           Err e \<Rightarrow> fst res = Err (ErrWrap ''retry timeout, latest err'' e) \<and> deadline < tm_now tm (snd res)
         | _ \<Rightarrow> fst res = r))"

lemma RetryIncreasing_loop_result:
  assumes ret: "RetryIncreasing_loop tm fn t0 delay maxDelay maxWait w = Some res"
  shows "attempt_result tm fn (t0 + maxWait) res"
proof (rule RetryIncreasing_loop.raw_induct
    [where P = "\<lambda>tm fn t0 delay maxDelay maxWait w res. attempt_result tm fn (t0 + maxWait) res", OF _ ret])
  fix f tm fn t0 delay maxDelay maxWait w res
  assume IH: "\<And>tm fn t0 delay maxDelay maxWait w res.
      f tm fn t0 delay maxDelay maxWait w = Some res \<Longrightarrow> attempt_result tm fn (t0 + maxWait) res"
    and eq: "(case fn w of
        (Ok x, w1) \<Rightarrow> Some (Ok x, w1)
      | (Err e, w1) \<Rightarrow>
          if maxWait < tm_now tm w1 - t0
          then Some (Err (ErrWrap ''retry timeout, latest err'' e), w1)
          else f tm fn t0 (next_delay maxDelay delay) maxDelay maxWait (tm_sleep tm delay w1)
      | (Panic p, w1) \<Rightarrow> Some (Panic p, w1)) = Some res"
  obtain r w1 where fw: "fn w = (r, w1)" by (cases "fn w")
  show "attempt_result tm fn (t0 + maxWait) res"
  proof (cases r)
    case (Err e)
    show ?thesis
    proof (cases "maxWait < tm_now tm w1 - t0")
      case True
      with eq fw Err have "res = (Err (ErrWrap ''retry timeout, latest err'' e), w1)" by simp
      with fw Err True show ?thesis
        unfolding attempt_result_def by (intro exI [of _ w] exI [of _ "Err e"]) auto
    next
      case False
      with eq fw Err have "f tm fn t0 (next_delay maxDelay delay) maxDelay maxWait (tm_sleep tm delay w1) = Some res"
        by simp
      then show ?thesis by (rule IH)
    qed
  next
    case (Ok x)
    with eq fw have "res = (Ok x, w1)" by simp
    with fw Ok show ?thesis unfolding attempt_result_def by (intro exI [of _ w] exI [of _ "Ok x"]) auto
  next
    case (Panic p)
    with eq fw have "res = (Panic p, w1)" by simp
    with fw Panic show ?thesis unfolding attempt_result_def by (intro exI [of _ w] exI [of _ "Panic p"]) auto
  qed
qed

lemma RetryIncreasing_Ok:
  assumes "RetryIncreasing tm fn d0 maxDelay maxWait w = Some (Ok x, w1)"
  shows "\<exists>w0. fn w0 = (Ok x, w1)"
proof -
  have "attempt_result tm fn (tm_now tm w + maxWait) (Ok x, w1)"
    using assms unfolding RetryIncreasing_def by (rule RetryIncreasing_loop_result)
  then obtain w0 r where "fn w0 = (r, w1)" and
    "case r of Err e \<Rightarrow> Ok x = Err (ErrWrap ''retry timeout, latest err'' e)
        \<and> tm_now tm w + maxWait < tm_now tm w1 | _ \<Rightarrow> Ok x = r"
    unfolding attempt_result_def fst_conv snd_conv by blast
  then show ?thesis by (cases r) auto
qed

section \<open>Properties\<close>

text \<open>With a clock that advances and delays in range, \<open>RetryIncreasing\<close> always returns, and what it
  returns is the outcome of an attempt: a success or panic as it is, a failure only from an attempt
  that ended after the deadline.\<close>

theorem RetryIncreasing_result:
  assumes "clock_laws tm fn" and "delay_ok maxDelay initialDelay"
  shows "\<exists>res. RetryIncreasing tm fn initialDelay maxDelay maxWaitTime w = Some res \<and>
    attempt_result tm fn (tm_now tm w + maxWaitTime) res"
proof -
  obtain res where "RetryIncreasing tm fn initialDelay maxDelay maxWaitTime w = Some res"
    using RetryIncreasing_loop_returns [OF assms] unfolding RetryIncreasing_def by blast
  then show ?thesis
    unfolding RetryIncreasing_def by (intro exI [of _ res] conjI) (auto intro: RetryIncreasing_loop_result)
qed

text \<open>The delay before the k-th retry is ten to the k times the initial one, capped at the maximum;
  the \<open>int64\<close> product never overflows.\<close>

theorem delay_schedule:
  assumes "delay_ok maxDelay d"
  shows "(next_delay maxDelay ^^ Suc k) d = min (d * 10 ^ Suc k) maxDelay"
proof (induction k)
  case 0
  show ?case using assms by (simp add: next_delay_min)
next
  case (Suc k)
  have ok: "delay_ok maxDelay ((next_delay maxDelay ^^ k) d)" for k
    by (induction k) (simp_all add: assms delay_ok_next)
  have M: "0 < maxDelay" using assms by (simp add: delay_ok_def)
  have "(next_delay maxDelay ^^ Suc (Suc k)) d = min ((next_delay maxDelay ^^ Suc k) d * 10) maxDelay"
    using next_delay_min [OF ok [of "Suc k"]] by simp
  also have "\<dots> = min (min (d * 10 ^ Suc k) maxDelay * 10) maxDelay" by (simp only: Suc)
  also have "\<dots> = min (d * 10 ^ Suc (Suc k)) maxDelay" using M by (simp add: min_def)
  finally show ?case .
qed

section \<open>Instances\<close>

text \<open>A clock that is the world, and an attempt that succeeds once 500 ns have passed.\<close>

definition late_success :: "(int, nat) attempt" where
  "late_success w = (if 500 \<le> w then Ok 7 else Err ErrNotFound, w + 1)"

lemma late_clock: "clock_laws \<lparr>tm_now = \<lambda>w. w, tm_sleep = \<lambda>d w. w + d\<rparr> late_success"
  by (simp add: clock_laws_def late_success_def)

theorem RetryIncreasing_result_witness:
  "\<exists>res. RetryIncreasing \<lparr>tm_now = \<lambda>w. w, tm_sleep = \<lambda>d w. w + d\<rparr> late_success 100 30000 120000 0 = Some res \<and>
    fst res = Ok 7"
proof -
  obtain res where 1: "RetryIncreasing \<lparr>tm_now = \<lambda>w. w, tm_sleep = \<lambda>d w. w + d\<rparr> late_success 100 30000 120000 0 = Some res"
    using RetryIncreasing_result [OF late_clock, of 30000 100 120000 0] by (auto simp: delay_ok_def)
  then have "fst res = Ok 7"
    by (simp add: RetryIncreasing_def RetryIncreasing_loop.simps late_success_def next_delay_def wrap_i64_def)
      auto
  with 1 show ?thesis by blast
qed

theorem delay_schedule_witness: "(next_delay (sec 30) ^^ 3) (ms 100) = sec 30"
  using delay_schedule [of "sec 30" "ms 100" 2]
  by (simp add: delay_ok_def sec_def ms_def numeral_eq_Suc)

end
