(* ===== verification/Hex.thy ===== *)
theory Hex
  imports Prelude
begin

text \<open>
  Hexadecimal text: \<^verbatim>\<open>encoding/hex\<close> and \<open>big.Int.SetString\<close> of Go's standard
  library, as the decoders of contract answers and raw blocks use them.
\<close>

section \<open>Hexadecimal text\<close>

definition hex_digit :: "char \<Rightarrow> nat option" where
  "hex_digit c =
     (let n = of_char c :: nat in
      if 48 \<le> n \<and> n \<le> 57 then Some (n - 48)
      else if 97 \<le> n \<and> n \<le> 102 then Some (n - 87)
      else if 65 \<le> n \<and> n \<le> 70 then Some (n - 55) else None)"

fun hex_number :: "nat \<Rightarrow> string \<Rightarrow> nat option" where
  "hex_number acc [] = Some acc"
| "hex_number acc (c # cs) = (case hex_digit c of None \<Rightarrow> None | Some d \<Rightarrow> hex_number (acc * 16 + d) cs)"

definition hex_digits :: "string \<Rightarrow> nat option" where
  "hex_digits s = (if s = [] then None else hex_number 0 s)"

text \<open>\<open>big.Int.SetString(s, 16)\<close>; \<open>None\<close> is the nil it returns on failure.\<close>

definition SetString16 :: "string \<Rightarrow> int option" where
  "SetString16 s =
     (case s of
        [] \<Rightarrow> None
      | c # cs \<Rightarrow>
          if c = CHR ''-'' then map_option (\<lambda>n. - int n) (hex_digits cs)
          else map_option int (hex_digits (if c = CHR ''+'' then cs else s)))"

text \<open>\<open>hex.DecodeString\<close> with its error ignored: the bytes before the first bad pair.\<close>

fun hex_bytes :: "string \<Rightarrow> bytes" where
  "hex_bytes (c1 # c2 # cs) =
     (case (hex_digit c1, hex_digit c2) of
        (Some d1, Some d2) \<Rightarrow> word_of_nat (d1 * 16 + d2) # hex_bytes cs
      | _ \<Rightarrow> [])"
| "hex_bytes cs = []"

text \<open>
  \<open>hex.DecodeString\<close>: the bytes, or an error at the first character that is no digit, or for an odd
  number of digits.
\<close>

fun hex_DecodeString :: "string \<Rightarrow> gerror + bytes" where
  "hex_DecodeString [] = Inr []"
| "hex_DecodeString [c] =
     Inl (ErrMsg (if hex_digit c = None then ''encoding/hex: invalid byte'' else ''encoding/hex: odd length hex string''))"
| "hex_DecodeString (c1 # c2 # cs) =
     (case (hex_digit c1, hex_digit c2) of
        (Some d1, Some d2) \<Rightarrow>
          (case hex_DecodeString cs of Inl e \<Rightarrow> Inl e | Inr bs \<Rightarrow> Inr (word_of_nat (d1 * 16 + d2) # bs))
      | _ \<Rightarrow> Inl (ErrMsg ''encoding/hex: invalid byte''))"

section \<open>Writing\<close>

text \<open>\<open>hex.EncodeToString\<close> is \<open>bytes_text\<close>; \<open>hex_text k\<close> writes a number with \<open>k\<close> digits.\<close>

definition hex_char :: "nat \<Rightarrow> char" where
  "hex_char d = char_of (if d < 10 then 48 + d else 87 + d)"

fun hex_text :: "nat \<Rightarrow> nat \<Rightarrow> string" where
  "hex_text 0 n = []"
| "hex_text (Suc k) n = hex_text k (n div 16) @ [hex_char (n mod 16)]"

definition bytes_text :: "bytes \<Rightarrow> string" where
  "bytes_text bs = concat (map (\<lambda>b. hex_text 2 (unat b)) bs)"

definition address_text :: "address \<Rightarrow> string" where
  "address_text a = hex_text 40 (unat (addr_word a))"

section \<open>Round trips\<close>

lemma length_hex_text [simp]: "length (hex_text k n) = k"
  by (induction k arbitrary: n) auto

lemma hex_digit_char: "d < 16 \<Longrightarrow> hex_digit (hex_char d) = Some d"
proof -
  assume "d < 16"
  then have "d = 0 \<or> d = 1 \<or> d = 2 \<or> d = 3 \<or> d = 4 \<or> d = 5 \<or> d = 6 \<or> d = 7 \<or> d = 8 \<or> d = 9 \<or>
      d = 10 \<or> d = 11 \<or> d = 12 \<or> d = 13 \<or> d = 14 \<or> d = 15" by presburger
  then show ?thesis by (elim disjE) (simp_all add: hex_char_def hex_digit_def Let_def)
qed

lemma hex_char_not_sign: "d < 16 \<Longrightarrow> hex_char d \<noteq> CHR ''-'' \<and> hex_char d \<noteq> CHR ''+''"
  using hex_digit_char [of d] by (auto simp: hex_digit_def Let_def)

lemma hex_number_append:
  "hex_number acc (xs @ ys) = (case hex_number acc xs of None \<Rightarrow> None | Some v \<Rightarrow> hex_number v ys)"
  by (induction xs arbitrary: acc) (auto split: option.split)

lemma hex_number_text: "hex_number acc (hex_text k n) = Some (acc * 16 ^ k + n mod 16 ^ k)"
proof (induction k arbitrary: n)
  case (Suc k)
  have "n mod 16 ^ Suc k = n div 16 mod 16 ^ k * 16 + n mod 16"
    by (simp add: mod_mult2_eq mult.commute)
  then show ?case by (simp add: hex_number_append Suc hex_digit_char algebra_simps)
qed simp

lemma hex_text_hd: "\<exists>d cs. hex_text (Suc k) n = hex_char d # cs \<and> d < 16"
proof (induction k arbitrary: n)
  case (Suc k)
  from Suc [of "n div 16"] show ?case by fastforce
qed auto

lemma SetString16_text: "SetString16 (hex_text (Suc k) n) = Some (int (n mod 16 ^ Suc k))"
proof -
  obtain d cs where "hex_text (Suc k) n = hex_char d # cs" "d < 16" using hex_text_hd by blast
  then show ?thesis
    using hex_number_text [of 0 "Suc k" n] hex_char_not_sign [of d]
    by (simp add: SetString16_def hex_digits_def del: hex_text.simps hex_number.simps)
qed

lemma hex_bytes_text: "hex_bytes (bytes_text bs) = bs"
proof (induction bs)
  case (Cons b bs)
  have "unat b < 256" using unsigned_less [of b, where ?'a = nat] by simp
  then have "unat b div 16 mod 16 * 16 + unat b mod 16 = unat b" by simp
  moreover have "hex_text 2 (unat b) = [hex_char (unat b div 16 mod 16), hex_char (unat b mod 16)]"
    by (simp add: numeral_2_eq_2)
  ultimately show ?case
    using Cons by (simp add: bytes_text_def hex_digit_char del: hex_text.simps)
qed (simp add: bytes_text_def)

lemma length_bytes_text: "length (bytes_text bs) = 2 * length bs"
  by (induction bs) (simp_all add: bytes_text_def)

lemma hex_text_byte: "hex_text 2 (unat (b :: u8)) = [hex_char (unat b div 16), hex_char (unat b mod 16)]"
proof -
  have "unat b < 256" using unsigned_less [of b, where ?'a = nat] by simp
  then show ?thesis by (simp add: numeral_2_eq_2)
qed

lemma hex_DecodeString_text: "hex_DecodeString (bytes_text bs) = Inr bs"
proof (induction bs)
  case (Cons b bs)
  have "unat b < 256" using unsigned_less [of b, where ?'a = nat] by simp
  then have "unat b div 16 < 16" by simp
  then have "hex_digit (hex_char (unat b div 16)) = Some (unat b div 16)" by (rule hex_digit_char)
  with Cons show ?case by (simp add: bytes_text_def hex_text_byte hex_digit_char del: hex_text.simps)
qed (simp add: bytes_text_def)

lemma hex_DecodeString_prefix: "hex_DecodeString s = Inr bs \<Longrightarrow> hex_bytes s = bs"
  by (induction s arbitrary: bs rule: hex_DecodeString.induct) (auto split: option.splits sum.splits)

end
