(* ===== verification/AuthorityABI.thy ===== *)
theory AuthorityABI
  imports Types Hex
begin

text \<open>
  \<^verbatim>\<open>stats/contracts/generated/listauthority\<close>: the part of the generated ABI codec that
  \<^verbatim>\<open>stats/slots/blockchain.go\<close> relies on, and the encoders of the same word types.
  Offsets are Go \<open>int\<close>s, so a conversion or a sum wraps at 64 bits, and a slice expression
  out of range panics.
\<close>

section \<open>Slices and allocation\<close>

text \<open>\<open>data[a:b]\<close>.\<close>

definition slice :: "'a list \<Rightarrow> int \<Rightarrow> int \<Rightarrow> 'a list outcome" where
  "slice data a b = (if 0 \<le> a \<and> a \<le> b \<and> b \<le> int (length data)
     then Ok (take (nat (b - a)) (drop (nat a) data)) else Panic IndexOutOfRange)"

text \<open>
  \<open>make([]Node, n)\<close> panics when \<open>n\<close> is negative or the array would not fit the address
  space the runtime hands out (\<open>2 ^ 48\<close> bytes; a \<open>Node\<close> is 41 bytes).
\<close>

definition make_nodes_ok :: "int \<Rightarrow> bool" where
  "make_nodes_ok n \<longleftrightarrow> 0 \<le> n \<and> n * 41 \<le> 2 ^ 48"

section \<open>Words\<close>

definition encodeUint256 :: "int \<Rightarrow> bytes outcome" where
  "encodeUint256 v =
     (if v < 0 then Err (ErrMsg ''negative values not supported for uint256'')
      else if 2 ^ 256 \<le> v then Err (ErrMsg ''value too large for uint256'')
      else Ok (be_bytes 32 (word_of_int v :: 256 word)))"

definition encodeAddress :: "address \<Rightarrow> bytes" where
  "encodeAddress a = replicate 12 0 @ address_bytes a"

definition encodeBool :: "bool \<Rightarrow> bytes" where
  "encodeBool b = replicate 31 0 @ [if b then 1 else 0]"

definition decodeUint256 :: "bytes \<Rightarrow> int outcome" where
  "decodeUint256 data =
     (if length data < 32 then Err (ErrMsg ''insufficient data for uint256'')
      else Ok (int (be_nat (take 32 data))))"

definition decodeAddress :: "bytes \<Rightarrow> address outcome" where
  "decodeAddress data =
     (if length data < 32 then Err (ErrMsg ''insufficient data for address'')
      else Ok (Address (of_nat (be_nat (take 20 (drop 12 data))))))"

definition decodeBool :: "bytes \<Rightarrow> bool outcome" where
  "decodeBool data =
     (if length data < 32 then Err (ErrMsg ''insufficient data for bool'')
      else Ok (data ! 31 \<noteq> 0))"

section \<open>The Node struct and the list method\<close>

text \<open>One field: the bounds check, the word at \<open>offset\<close>, its decoder.\<close>

definition wrap_err :: "string \<Rightarrow> 'a outcome \<Rightarrow> 'a outcome" where
  "wrap_err msg r = (case r of Err e \<Rightarrow> Err (ErrWrap msg e) | _ \<Rightarrow> r)"

definition decode_field :: "bytes \<Rightarrow> int \<Rightarrow> (bytes \<Rightarrow> 'a outcome) \<Rightarrow> string \<Rightarrow> 'a outcome" where
  "decode_field data offset dec name =
     (if int (length data) < offset + 32 then Err (ErrMsg (''insufficient data for '' @ name))
      else bind_outcome (slice data offset (offset + 32)) (\<lambda>w. wrap_err (''decoding '' @ name) (dec w)))"

definition decodeNode :: "bytes \<Rightarrow> int \<Rightarrow> (AuthorityNode \<times> int) outcome" where
  "decodeNode data offset =
     bind_outcome (decode_field data offset decodeAddress ''Node.NodeMaster'') (\<lambda>master.
     bind_outcome (decode_field data (offset + 32) decodeAddress ''Node.Endorsor'') (\<lambda>endorsor.
     bind_outcome (decode_field data (offset + 64) decodeBool ''Node.Active'') (\<lambda>active.
       Ok (\<lparr>an_Master = master, an_Endorsor = endorsor, an_Active = active\<rparr>, offset + 96))))"

text \<open>The loop over the array: \<open>n\<close> elements are left, the next is at \<open>offset\<close>.\<close>

fun decode_nodes :: "bytes \<Rightarrow> nat \<Rightarrow> int \<Rightarrow> AuthorityNode list outcome" where
  "decode_nodes data 0 offset = Ok []"
| "decode_nodes data (Suc n) offset =
     bind_outcome (wrap_err ''decoding array element'' (decodeNode data offset)) (\<lambda>(elem, nextOffset).
     bind_outcome (decode_nodes data n nextOffset) (\<lambda>rest. Ok (elem # rest)))"

definition ListMethod_decodeImpl :: "bytes \<Rightarrow> AuthorityNode list outcome" where
  "ListMethod_decodeImpl data =
     (if length data < 32 then Err (ErrMsg ''insufficient data for array offset pointer'') else
      bind_outcome (wrap_err ''decoding array offset pointer'' (decodeUint256 (take 32 data))) (\<lambda>arrayOffset.
      if 2 ^ 64 \<le> arrayOffset then Err (ErrMsg ''array offset too large'') else
      let arrayOffsetInt = wrap_i64 arrayOffset in
      if int (length data) < wrap_i64 (arrayOffsetInt + 32) then Err (ErrMsg ''insufficient data for array length'') else
      bind_outcome (slice data arrayOffsetInt (wrap_i64 (arrayOffsetInt + 32))) (\<lambda>w.
      bind_outcome (wrap_err ''decoding array length'' (decodeUint256 w)) (\<lambda>val.
      if 2 ^ 64 \<le> val then Err (ErrMsg ''array length too large'') else
      let length' = wrap_i64 val in
      if \<not> make_nodes_ok length' then Panic IndexOutOfRange else
      decode_nodes data (nat length') (arrayOffsetInt + 32)))))"

section \<open>Round trips\<close>

lemma length_encode [simp]:
  "length (encodeAddress a) = 32" "length (encodeBool b) = 32"
  by (simp_all add: encodeAddress_def encodeBool_def address_bytes_def)

lemma encodeUint256_Ok:
  "encodeUint256 v = Ok bs \<longleftrightarrow> 0 \<le> v \<and> v < 2 ^ 256 \<and> bs = be_bytes 32 (word_of_int v :: 256 word)"
  by (auto simp: encodeUint256_def)

lemma be_nat_uint256: "0 \<le> v \<Longrightarrow> v < 2 ^ 256 \<Longrightarrow> int (be_nat (be_bytes 32 (word_of_int v :: 256 word))) = v"
  by (simp add: be_nat_be_bytes uint_word_of_int flip: nat_uint_eq)

lemma decodeUint256_encode: "encodeUint256 v = Ok bs \<Longrightarrow> decodeUint256 (bs @ rest) = Ok v"
  by (auto simp: encodeUint256_Ok decodeUint256_def be_nat_uint256)

lemma decodeAddress_encode [simp]: "decodeAddress (encodeAddress a @ rest) = Ok a"
proof -
  have "be_nat (address_bytes a) = unat (addr_word a)"
  proof -
    have "unat (addr_word a) < 256 ^ 20" using unsigned_less [of "addr_word a"] by simp
    then show ?thesis by (simp add: address_bytes_def be_nat_be_bytes)
  qed
  then show ?thesis
    by (simp add: decodeAddress_def encodeAddress_def) (simp add: address_bytes_def)
qed

lemma decodeBool_encode [simp]: "decodeBool (encodeBool b @ rest) = Ok b"
  by (simp add: decodeBool_def encodeBool_def nth_append)

text \<open>The standard ABI encoding of an array of nodes: offset word, length word, elements.\<close>

definition encode_node :: "AuthorityNode \<Rightarrow> bytes" where
  "encode_node n = encodeAddress (an_Master n) @ encodeAddress (an_Endorsor n) @ encodeBool (an_Active n)"

definition encode_node_list :: "AuthorityNode list \<Rightarrow> bytes outcome" where
  "encode_node_list ns =
     bind_outcome (encodeUint256 32) (\<lambda>off.
     bind_outcome (encodeUint256 (int (length ns))) (\<lambda>len.
       Ok (off @ len @ concat (map encode_node ns))))"

lemma length_encode_node [simp]: "length (encode_node n) = 96"
  by (simp add: encode_node_def)

lemma slice_mid: "length w = n \<Longrightarrow> slice (pre @ w @ post) (int (length pre)) (int (length pre) + int n) = Ok w"
  by (simp add: slice_def)

lemma decode_field_mid:
  assumes "length w = 32" and "dec w = Ok x"
  shows "decode_field (pre @ w @ post) (int (length pre)) dec name = Ok x"
  using assms slice_mid [OF assms(1), of pre post] by (simp add: decode_field_def wrap_err_def)

lemma decodeNode_encode:
  "decodeNode (pre @ encode_node n @ post) (int (length pre)) = Ok (n, int (length pre) + 96)"
proof -
  have 1: "decode_field (pre @ encode_node n @ post) (int (length pre)) decodeAddress name = Ok (an_Master n)"
    for name
    using decode_field_mid [of "encodeAddress (an_Master n)" decodeAddress _ pre
        "encodeAddress (an_Endorsor n) @ encodeBool (an_Active n) @ post" name]
      decodeAddress_encode [of _ "[]"] by (simp add: encode_node_def)
  have 2: "decode_field (pre @ encode_node n @ post) (int (length pre) + 32) decodeAddress name = Ok (an_Endorsor n)"
    for name
    using decode_field_mid [of "encodeAddress (an_Endorsor n)" decodeAddress _
        "pre @ encodeAddress (an_Master n)" "encodeBool (an_Active n) @ post" name]
      decodeAddress_encode [of _ "[]"] by (simp add: encode_node_def)
  have 3: "decode_field (pre @ encode_node n @ post) (int (length pre) + 64) decodeBool name = Ok (an_Active n)"
    for name
    using decode_field_mid [of "encodeBool (an_Active n)" decodeBool _
        "pre @ encodeAddress (an_Master n) @ encodeAddress (an_Endorsor n)" post name]
      decodeBool_encode [of _ "[]"] by (simp add: encode_node_def)
  show ?thesis by (simp add: decodeNode_def 1 2 3)
qed

lemma decode_nodes_encode:
  "decode_nodes (pre @ concat (map encode_node ns) @ post) (length ns) (int (length pre)) = Ok ns"
proof (induction ns arbitrary: pre)
  case Nil
  show ?case by simp
next
  case (Cons n ns)
  have "decode_nodes ((pre @ encode_node n) @ concat (map encode_node ns) @ post) (length ns)
          (int (length (pre @ encode_node n))) = Ok ns"
    by (rule Cons.IH)
  then show ?case
    using decodeNode_encode [of pre n "concat (map encode_node ns) @ post"] by (simp add: wrap_err_def)
qed

lemma decode_encoded:
  assumes "encode_node_list ns = Ok bs" and "int (length ns) * 41 \<le> 2 ^ 48"
  shows "ListMethod_decodeImpl bs = Ok ns"
proof -
  from assms(1) obtain off len where
    off: "encodeUint256 32 = Ok off" and len: "encodeUint256 (int (length ns)) = Ok len"
    and bs: "bs = off @ len @ concat (map encode_node ns)"
    by (auto simp: encode_node_list_def outcome_simps)
  from off len have [simp]: "length off = 32" "length len = 32" by (auto simp: encodeUint256_Ok)
  have "decodeUint256 off = Ok 32" "decodeUint256 len = Ok (int (length ns))"
    using decodeUint256_encode [OF off, of "[]"] decodeUint256_encode [OF len, of "[]"] by simp_all
  moreover have "slice bs 32 64 = Ok len"
    using slice_mid [of len 32 off "concat (map encode_node ns)"] by (simp add: bs)
  moreover have "decode_nodes bs (length ns) 64 = Ok ns"
    using decode_nodes_encode [of "off @ len" ns "[]"] by (simp add: bs)
  ultimately show ?thesis
    using assms(2) by (simp add: ListMethod_decodeImpl_def bs wrap_err_def wrap_i64_id make_nodes_ok_def Let_def)
qed

section \<open>Bounds\<close>

lemma decode_field_Ok_bound: "decode_field data off dec name = Ok x \<Longrightarrow> off + 32 \<le> int (length data)"
  by (auto simp: decode_field_def split: if_splits)

lemma decodeNode_Ok: "decodeNode data off = Ok (n, off') \<Longrightarrow> off' = off + 96 \<and> off' \<le> int (length data)"
  by (auto simp: decodeNode_def outcome_simps dest!: decode_field_Ok_bound)

lemma wrap_err_Ok [simp]: "wrap_err m r = Ok x \<longleftrightarrow> r = Ok x"
  by (cases r) (auto simp: wrap_err_def)

lemma wrap_err_Panic [simp]: "wrap_err m r = Panic p \<longleftrightarrow> r = Panic p"
  by (cases r) (auto simp: wrap_err_def)

lemma decode_nodes_Ok_bound:
  "decode_nodes data n off = Ok ns \<Longrightarrow> length ns = n \<and> (0 < n \<longrightarrow> off + 96 * int n \<le> int (length data))"
proof (induction data n off arbitrary: ns rule: decode_nodes.induct)
  case (2 data n off)
  then obtain x off' rest where *: "decodeNode data off = Ok (x, off')"
    "decode_nodes data n off' = Ok rest" "ns = x # rest"
    by (auto simp: outcome_simps)
  then have "length rest = n \<and> (0 < n \<longrightarrow> off' + 96 * int n \<le> int (length data))"
    using "2.IH" by (metis (no_types, lifting))
  with * decodeNode_Ok [OF *(1)] show ?case by (cases n) auto
qed simp

section \<open>Properties\<close>

text \<open>C28: Decoding the standard ABI encoding of a list of nodes gives the list back (as long as the
  array can be allocated).\<close>

theorem decode_encode_node_list:
  assumes "encode_node_list ns = Ok bs" and "int (length ns) * 41 \<le> 2 ^ 48"
  shows "ListMethod_decodeImpl bs = Ok ns"
  using assms by (rule decode_encoded)

theorem decode_encode_node_list_witness:
  "\<exists>bs. encode_node_list [\<lparr>an_Master = Address 1, an_Endorsor = Address 2, an_Active = True\<rparr>] = Ok bs \<and>
     ListMethod_decodeImpl bs = Ok [\<lparr>an_Master = Address 1, an_Endorsor = Address 2, an_Active = True\<rparr>]"
proof -
  obtain bs where "encode_node_list [\<lparr>an_Master = Address 1, an_Endorsor = Address 2, an_Active = True\<rparr>] = Ok bs"
    by (simp add: encode_node_list_def encodeUint256_def)
  then show ?thesis using decode_encode_node_list [of _ bs] by simp
qed

text \<open>A decoded list never reaches past the data: every node takes 96 bytes of it.\<close>

theorem decoded_nodes_fit:
  assumes "ListMethod_decodeImpl data = Ok ns"
  shows "32 + 96 * length ns \<le> length data"
proof -
  have 32: "32 \<le> length data" using assms by (auto simp: ListMethod_decodeImpl_def split: if_splits)
  from assms obtain a len w where w: "slice data (wrap_i64 a) (wrap_i64 (wrap_i64 a + 32)) = Ok w"
    and dec: "decode_nodes data len (wrap_i64 a + 32) = Ok ns"
    by (auto simp: ListMethod_decodeImpl_def outcome_simps Let_def split: if_splits)
  from w have a: "0 \<le> wrap_i64 a" by (auto simp: slice_def split: if_splits)
  show ?thesis using decode_nodes_Ok_bound [OF dec] a 32 by (cases "ns = []") auto
qed

theorem decoded_nodes_fit_witness:
  "\<exists>bs. encode_node_list [\<lparr>an_Master = Address 3, an_Endorsor = Address 4, an_Active = False\<rparr>] = Ok bs \<and>
     32 + 96 * 1 \<le> length bs"
proof -
  obtain bs where "encode_node_list [\<lparr>an_Master = Address 3, an_Endorsor = Address 4, an_Active = False\<rparr>] = Ok bs"
    by (simp add: encode_node_list_def encodeUint256_def)
  then show ?thesis using decode_encoded [of _ bs] decoded_nodes_fit [of bs] by fastforce
qed

end
