(* ===== verification/Client.thy ===== *)
theory Client
  imports AuthorityABI
begin

text \<open>
  What the program calls outside the repository: a thor node through \<open>thorclient\<close>, and the
  pure codecs of go-ethereum and the thor library. Node calls read and advance a world
  \<open>'w\<close>; both records are parameters of every definition that uses them.
\<close>

section \<open>The node\<close>

datatype calldata = CallBytecode string | CallMethod string | CallStorage bytes

record clause =
  cls_To :: "address option"
  cls_Data :: calldata

record CallResult =
  cr_Data :: string
  cr_Reverted :: bool
  cr_VMError :: string

text \<open>
  \<open>ExpandedBlock\<close>, \<open>Block\<close> (of which only the header fields are read), the raw block
  summary over HTTP (body and status), and the simulation of clauses at a block.
\<close>

record 'w client =
  cl_ExpandedBlock :: "revision \<Rightarrow> 'w \<Rightarrow> (gerror + Block) \<times> 'w"
  cl_Block :: "revision \<Rightarrow> 'w \<Rightarrow> (gerror + Block) \<times> 'w"
  cl_RawBlock :: "bytes32 \<Rightarrow> 'w \<Rightarrow> (gerror + (string \<times> nat)) \<times> 'w"
  cl_InspectClauses :: "clause list \<Rightarrow> revision \<Rightarrow> 'w \<Rightarrow> (gerror + CallResult list) \<times> 'w"

section \<open>Codecs\<close>

text \<open>One output of an ABI-decoded call, as the \<open>interface{}\<close> the decoder returns.\<close>

datatype abi_value = AbiAddresses "address list" | AbiUint8s "u8 list" | AbiBools "bool list"
  | AbiUint32s "u32 list" | AbiBigs "int list"
  | AbiAddress address | AbiThorAddress address | AbiUint8 u8 | AbiUint32 u32 | AbiBig int | AbiOther nat

text \<open>
  \<open>hexutil.Decode\<close>; \<open>getValidatorsABI.Outputs.UnpackValues\<close>;
  \<open>stakerStorageABI.Inputs.Pack\<close> of the slot named by a string; the thor constants of
  \<open>validation.Status\<close>; \<open>json.Unmarshal\<close> of a raw block summary (its \<open>Raw\<close> string), and the
  RLP decoding of a header (a handle) and its \<open>Beta\<close>.
\<close>

record codec =
  cd_hexutil_Decode :: "string \<Rightarrow> gerror + bytes"
  cd_UnpackValidators :: "bytes \<Rightarrow> gerror + abi_value list"
  cd_PackStorageSlot :: "string \<Rightarrow> gerror + bytes"
  cd_Status :: "u8 \<Rightarrow> status"
  cd_RawOf :: "string \<Rightarrow> gerror + string"
  cd_RLPHeader :: "bytes \<Rightarrow> gerror + nat"
  cd_HeaderBeta :: "nat \<Rightarrow> gerror + bytes"

text \<open>A library call that returns an error, as an outcome.\<close>

fun of_sum :: "gerror + 'a \<Rightarrow> 'a outcome" where
  "of_sum (Inl e) = Err e"
| "of_sum (Inr x) = Ok x"

text \<open>\<open>hexutil.MustDecode\<close> panics where \<open>Decode\<close> fails.\<close>

definition MustDecode :: "codec \<Rightarrow> string \<Rightarrow> bytes outcome" where
  "MustDecode cd s = (case cd_hexutil_Decode cd s of Inl e \<Rightarrow> Panic ExplicitPanic | Inr b \<Rightarrow> Ok b)"

lemma of_sum_Ok [simp]: "of_sum r = Ok x \<longleftrightarrow> r = Inr x"
  by (cases r) auto

lemma of_sum_Err [simp]: "of_sum r = Err e \<longleftrightarrow> r = Inl e"
  by (cases r) auto

lemma of_sum_not_Panic [simp]: "of_sum r \<noteq> Panic p"
  by (cases r) auto

text \<open>Sequencing on outcomes that advance a world, and wrapping their error.\<close>

definition bindW :: "'a outcome \<times> 'w \<Rightarrow> ('a \<Rightarrow> 'w \<Rightarrow> 'b outcome \<times> 'w) \<Rightarrow> 'b outcome \<times> 'w" where
  "bindW m f = (case m of (Ok x, w) \<Rightarrow> f x w | (Err e, w) \<Rightarrow> (Err e, w) | (Panic p, w) \<Rightarrow> (Panic p, w))"

definition wrapW :: "string \<Rightarrow> 'a outcome \<times> 'w \<Rightarrow> 'a outcome \<times> 'w" where
  "wrapW msg m = (wrap_err msg (fst m), snd m)"

definition callW :: "(gerror + 'a) \<times> 'w \<Rightarrow> 'a outcome \<times> 'w" where
  "callW m = (of_sum (fst m), snd m)"

lemma bindW_Ok_iff [outcome_simps]:
  "bindW m f = (Ok y, w') \<longleftrightarrow> (\<exists>x w. m = (Ok x, w) \<and> f x w = (Ok y, w'))"
  by (auto simp: bindW_def split: prod.splits outcome.splits)

lemma wrapW_Ok_iff [outcome_simps]: "wrapW msg m = (Ok y, w') \<longleftrightarrow> m = (Ok y, w')"
  by (cases m) (simp add: wrapW_def)

lemma callW_Ok_iff [outcome_simps]: "callW m = (Ok y, w') \<longleftrightarrow> m = (Inr y, w')"
  by (cases m) (simp add: callW_def)

lemma wrapW_simps [simp]: "wrapW msg (Ok x, w) = (Ok x, w)"
  by (simp add: wrapW_def wrap_err_def)

lemma callW_simps [simp]: "callW (Inr x, w) = (Ok x, w)" "callW (Inl e, w) = (Err e, w)"
  by (simp_all add: callW_def)

lemma bindW_simps [simp]:
  "bindW (Ok x, w) f = f x w" "bindW (Err e, w) f = (Err e, w)" "bindW (Panic p, w) f = (Panic p, w)"
  by (simp_all add: bindW_def)

section \<open>FetchAuthorityNodes\<close>

text \<open>
  \<^verbatim>\<open>stats/slots/blockchain.go\<close>: simulate the listing contract's deployment and a call of
  its \<open>list\<close> method at a block, and decode the second answer.
\<close>

definition authority_clauses :: "clause list" where
  "authority_clauses =
     [\<lparr>cls_To = None, cls_Data = CallBytecode ''listauthority''\<rparr>,
      \<lparr>cls_To = Some (Address 0x841a6556c524d47030762eb14dc4af897e605d9b),
       cls_Data = CallMethod ''list''\<rparr>]"

definition FetchAuthorityNodes ::
  "codec \<Rightarrow> 'w client \<Rightarrow> bytes32 \<Rightarrow> 'w \<Rightarrow> AuthorityNodeList outcome \<times> 'w" where
  "FetchAuthorityNodes cd cl blockID w =
     (case cl_InspectClauses cl authority_clauses (RevID blockID) w of
        (Inl e, w1) \<Rightarrow> (Err e, w1)
      | (Inr response, w1) \<Rightarrow>
          (if length response < 2
           then Err (ErrMsg ''insufficient response clauses from contract call'')
           else bind_outcome (MustDecode cd (cr_Data (response ! 1))) ListMethod_decodeImpl, w1))"

lemma FetchAuthorityNodes_Ok:
  assumes "FetchAuthorityNodes cd cl blockID w = (Ok nodes, w1)"
  obtains response bs where "cl_InspectClauses cl authority_clauses (RevID blockID) w = (Inr response, w1)"
    and "2 \<le> length response" and "cd_hexutil_Decode cd (cr_Data (response ! 1)) = Inr bs"
    and "ListMethod_decodeImpl bs = Ok nodes"
  using assms that
  by (auto simp: FetchAuthorityNodes_def MustDecode_def outcome_simps split: prod.splits sum.splits if_splits)

end
