(* ===== verification/StakerFetch.thy ===== *)
theory StakerFetch
  imports Client
begin

text \<open>
  \<^verbatim>\<open>stats/pos/staker.go\<close>, the fetching half: simulate the \<open>GetValidators\<close> contract at a
  block, check every answer, and unpack them into a \<open>StakerInformation\<close>.
\<close>

section \<open>The simulated calls\<close>

definition GetValidators_address :: address where
  "GetValidators_address = Address 0x841a6556c524d47030762eb14dc4af897e605d9b"

definition staker_clauses :: "bytes \<Rightarrow> bytes \<Rightarrow> clause list" where
  "staker_clauses withdrawable cooldown =
     \<lparr>cls_To = None, cls_Data = CallBytecode ''GetValidators''\<rparr> #
     map (\<lambda>d. \<lparr>cls_To = Some GetValidators_address, cls_Data = d\<rparr>)
       [CallMethod ''getValidators'', CallMethod ''stakerBalance'', CallMethod ''totalStake'',
        CallMethod ''queuedStake'', CallMethod ''totalSupply'', CallMethod ''totalBurned'',
        CallStorage withdrawable, CallStorage cooldown]"

definition fetchStakerInfo ::
  "codec \<Rightarrow> 'w client \<Rightarrow> bytes32 \<Rightarrow> 'w \<Rightarrow> CallResult list outcome \<times> 'w" where
  "fetchStakerInfo cd cl blockID w =
     (case cd_PackStorageSlot cd ''withdrawable-stake'' of
        Inl e \<Rightarrow> (Err (ErrWrap ''failed to pack withdrawable stake call data'' e), w)
      | Inr withdrawable \<Rightarrow>
     (case cd_PackStorageSlot cd ''cooldown-stake'' of
        Inl e \<Rightarrow> (Err (ErrWrap ''failed to pack cooldown stake call data'' e), w)
      | Inr cooldown \<Rightarrow>
     (let clauses = staker_clauses withdrawable cooldown in
      case cl_InspectClauses cl clauses (RevID blockID) w of
        (Inl e, w1) \<Rightarrow> (Err (ErrWrap ''failed to fetch staker info'' e), w1)
      | (Inr res, w1) \<Rightarrow>
          (if length res \<noteq> length clauses then Err (ErrMsg ''unexpected number of results'')
           else if \<exists>r \<in> set res. cr_Reverted r \<or> cr_VMError r \<noteq> []
             then Err (ErrMsg ''call reverted or had VM error'')
           else Ok res, w1))))"

section \<open>Unpacking the validators\<close>

text \<open>A type assertion \<open>next().([]T)\<close> on the next output.\<close>

fun as_addresses :: "abi_value \<Rightarrow> address list outcome" where
  "as_addresses (AbiAddresses xs) = Ok xs"
| "as_addresses _ = Panic BadTypeAssertion"

fun as_uint8s :: "abi_value \<Rightarrow> u8 list outcome" where
  "as_uint8s (AbiUint8s xs) = Ok xs"
| "as_uint8s _ = Panic BadTypeAssertion"

fun as_bools :: "abi_value \<Rightarrow> bool list outcome" where
  "as_bools (AbiBools xs) = Ok xs"
| "as_bools _ = Panic BadTypeAssertion"

fun as_uint32s :: "abi_value \<Rightarrow> u32 list outcome" where
  "as_uint32s (AbiUint32s xs) = Ok xs"
| "as_uint32s _ = Panic BadTypeAssertion"

fun as_bigs :: "abi_value \<Rightarrow> int list outcome" where
  "as_bigs (AbiBigs xs) = Ok xs"
| "as_bigs _ = Panic BadTypeAssertion"

definition next_as :: "abi_value list \<Rightarrow> nat \<Rightarrow> (abi_value \<Rightarrow> 'a outcome) \<Rightarrow> 'a outcome" where
  "next_as out current f = bind_outcome (nth_or_panic out current) f"

text \<open>The sixteen columns of \<open>getValidators()\<close>, in the order the code reads them.\<close>

record ValidatorColumns =
  vc_masters :: "address list"
  vc_endorsors :: "address list"
  vc_statuses :: "u8 list"
  vc_onlines :: "bool list"
  vc_offlineBlocks :: "u32 list"
  vc_stakingPeriodLengths :: "u32 list"
  vc_startBlocks :: "u32 list"
  vc_exitBlocks :: "u32 list"
  vc_completedPeriods :: "u32 list"
  vc_validatorLockedVETs :: "int list"
  vc_validatorLockedWeights :: "int list"
  vc_delegatorsStakes :: "int list"
  vc_validatorQueuedStakes :: "int list"
  vc_totalQueuedStakes :: "int list"
  vc_exitingStakes :: "int list"
  vc_nextPeriodWeight :: "int list"

definition read_columns :: "abi_value list \<Rightarrow> ValidatorColumns outcome" where
  "read_columns out =
     bind_outcome (next_as out 0 as_addresses) (\<lambda>masters.
     bind_outcome (next_as out 1 as_addresses) (\<lambda>endorsors.
     bind_outcome (next_as out 2 as_uint8s) (\<lambda>statuses.
     bind_outcome (next_as out 3 as_bools) (\<lambda>onlines.
     bind_outcome (next_as out 4 as_uint32s) (\<lambda>offlineBlocks.
     bind_outcome (next_as out 5 as_uint32s) (\<lambda>stakingPeriodLengths.
     bind_outcome (next_as out 6 as_uint32s) (\<lambda>startBlocks.
     bind_outcome (next_as out 7 as_uint32s) (\<lambda>exitBlocks.
     bind_outcome (next_as out 8 as_uint32s) (\<lambda>completedPeriods.
     bind_outcome (next_as out 9 as_bigs) (\<lambda>validatorLockedVETs.
     bind_outcome (next_as out 10 as_bigs) (\<lambda>validatorLockedWeights.
     bind_outcome (next_as out 11 as_bigs) (\<lambda>delegatorsStakes.
     bind_outcome (next_as out 12 as_bigs) (\<lambda>validatorQueuedStakes.
     bind_outcome (next_as out 13 as_bigs) (\<lambda>totalQueuedStakes.
     bind_outcome (next_as out 14 as_bigs) (\<lambda>exitingStakes.
     bind_outcome (next_as out 15 as_bigs) (\<lambda>nextPeriodWeight.
       Ok \<lparr>vc_masters = masters, vc_endorsors = endorsors, vc_statuses = statuses,
           vc_onlines = onlines, vc_offlineBlocks = offlineBlocks,
           vc_stakingPeriodLengths = stakingPeriodLengths, vc_startBlocks = startBlocks,
           vc_exitBlocks = exitBlocks, vc_completedPeriods = completedPeriods,
           vc_validatorLockedVETs = validatorLockedVETs,
           vc_validatorLockedWeights = validatorLockedWeights,
           vc_delegatorsStakes = delegatorsStakes,
           vc_validatorQueuedStakes = validatorQueuedStakes,
           vc_totalQueuedStakes = totalQueuedStakes, vc_exitingStakes = exitingStakes,
           vc_nextPeriodWeight = nextPeriodWeight\<rparr>))))))))))))))))"

text \<open>Row \<open>i\<close>; reading any column past its end panics.\<close>

definition columns_cover :: "ValidatorColumns \<Rightarrow> nat \<Rightarrow> bool" where
  "columns_cover c i \<longleftrightarrow>
     i < length (vc_endorsors c) \<and> i < length (vc_statuses c) \<and> i < length (vc_onlines c) \<and>
     i < length (vc_offlineBlocks c) \<and> i < length (vc_stakingPeriodLengths c) \<and>
     i < length (vc_startBlocks c) \<and> i < length (vc_exitBlocks c) \<and>
     i < length (vc_completedPeriods c) \<and> i < length (vc_validatorLockedVETs c) \<and>
     i < length (vc_validatorLockedWeights c) \<and> i < length (vc_delegatorsStakes c) \<and>
     i < length (vc_validatorQueuedStakes c) \<and> i < length (vc_totalQueuedStakes c) \<and>
     i < length (vc_exitingStakes c) \<and> i < length (vc_nextPeriodWeight c)"

definition max_uint32 :: u32 where
  "max_uint32 = - 1"

definition unpack_row :: "codec \<Rightarrow> ValidatorColumns \<Rightarrow> nat \<Rightarrow> Validation" where
  "unpack_row cd c i =
     (let locked = vc_validatorLockedVETs c ! i; weight = vc_validatorLockedWeights c ! i;
          delegators = vc_delegatorsStakes c ! i; queued = vc_validatorQueuedStakes c ! i;
          totalQueued = vc_totalQueuedStakes c ! i; nextWeight = vc_nextPeriodWeight c ! i;
          exitBlock = vc_exitBlocks c ! i; offlineBlock = vc_offlineBlocks c ! i in
      \<lparr>v_Endorser = vc_endorsors c ! i,
       v_Period = vc_stakingPeriodLengths c ! i,
       v_CompletedPeriods = vc_completedPeriods c ! i,
       v_Status = cd_Status cd (vc_statuses c ! i),
       v_StartBlock = vc_startBlocks c ! i,
       v_ExitBlock = (if exitBlock \<noteq> max_uint32 then Some exitBlock else None),
       v_OfflineBlock = (if offlineBlock \<noteq> max_uint32 then Some offlineBlock else None),
       v_LockedVET = ScaleToVET (Some locked),
       v_PendingUnlockVET = 0,
       v_QueuedVET = ScaleToVET (Some queued),
       v_CooldownVET = 0,
       v_WithdrawableVET = 0,
       v_Weight = ScaleToVET (Some weight),
       v_TotalLockedStake = Some (locked + delegators),
       v_TotalLockedWeight = Some weight,
       v_TotalQueuedStake = Some totalQueued,
       v_TotalExitingStake = Some (vc_exitingStakes c ! i),
       v_NextPeriodWeight = Some nextWeight,
       v_Address = vc_masters c ! i,
       v_Online = vc_onlines c ! i,
       v_DelegatorStake = Some delegators,
       v_DelegatorWeight = Some (weight - locked * 2),
       v_DelegatorQueuedStake = Some (totalQueued - queued),
       v_DelegatorQueuedWeight = Some ((nextWeight - weight) - queued * 2)\<rparr>)"

fun unpack_rows :: "codec \<Rightarrow> ValidatorColumns \<Rightarrow> nat list \<Rightarrow> Validation list outcome" where
  "unpack_rows cd c [] = Ok []"
| "unpack_rows cd c (i # is) =
     (if \<not> columns_cover c i then Panic IndexOutOfRange
      else bind_outcome (unpack_rows cd c is) (\<lambda>vs. Ok (unpack_row cd c i # vs)))"

definition unpackValidators :: "codec \<Rightarrow> CallResult \<Rightarrow> Validation list outcome" where
  "unpackValidators cd result =
     bind_outcome (wrap_err ''failed to decode result data'' (of_sum (cd_hexutil_Decode cd (cr_Data result)))) (\<lambda>bs.
     bind_outcome (of_sum (cd_UnpackValidators cd bs)) (\<lambda>out.
     bind_outcome (read_columns out) (\<lambda>c. unpack_rows cd c [0..<length (vc_masters c)])))"

section \<open>Unpacking the totals\<close>

definition decode_call :: "codec \<Rightarrow> string \<Rightarrow> CallResult \<Rightarrow> bytes outcome" where
  "decode_call cd msg r = wrap_err msg (of_sum (cd_hexutil_Decode cd (cr_Data r)))"

definition big_of_bytes :: "bytes \<Rightarrow> int" where
  "big_of_bytes bs = int (be_nat bs)"

definition unpackInfo :: "codec \<Rightarrow> CallResult list \<Rightarrow> StakerInformation outcome" where
  "unpackInfo cd result =
     bind_outcome (nth_or_panic result 1) (\<lambda>validatorsCall.
     bind_outcome (nth_or_panic result 2) (\<lambda>stakerBalanceCall.
     bind_outcome (nth_or_panic result 3) (\<lambda>totalStakeCall.
     bind_outcome (nth_or_panic result 4) (\<lambda>queuedStakeCall.
     bind_outcome (wrap_err ''failed to unpack validators'' (unpackValidators cd validatorsCall)) (\<lambda>validators.
     bind_outcome (decode_call cd ''failed to decode total stake data'' totalStakeCall) (\<lambda>totalStakeBytes.
     bind_outcome (slice totalStakeBytes 0 32) (\<lambda>vet.
     bind_outcome (slice totalStakeBytes 32 64) (\<lambda>weight.
     bind_outcome (decode_call cd ''failed to decode queued stake data'' queuedStakeCall) (\<lambda>queuedStakeBytes.
     bind_outcome (slice queuedStakeBytes 0 32) (\<lambda>queued.
     bind_outcome (decode_call cd ''failed to decode staker balance data'' stakerBalanceCall) (\<lambda>balance.
     bind_outcome (nth_or_panic result 5) (\<lambda>r5.
     bind_outcome (decode_call cd ''failed to decode total supply data'' r5) (\<lambda>supply.
     bind_outcome (nth_or_panic result 6) (\<lambda>r6.
     bind_outcome (decode_call cd ''failed to decode total burned data'' r6) (\<lambda>burned.
     bind_outcome (nth_or_panic result 7) (\<lambda>r7.
     bind_outcome (decode_call cd ''failed to decode withdrawable stake data'' r7) (\<lambda>withdrawable.
     bind_outcome (nth_or_panic result 8) (\<lambda>r8.
     bind_outcome (decode_call cd ''failed to decode cooldown stake data'' r8) (\<lambda>cooldown.
       Ok \<lparr>si_Validations = validators,
           si_ContractBalance = Some (big_of_bytes balance),
           si_QueuedVET = Some (big_of_bytes queued),
           si_TotalVET = Some (big_of_bytes vet),
           si_TotalWeight = Some (big_of_bytes weight),
           si_VTHO = \<lparr>vtho_TotalSupply = Some (big_of_bytes supply),
                      vtho_TotalBurned = Some (big_of_bytes burned)\<rparr>,
           si_CooldownVET = big_Uint64 (big_of_bytes cooldown),
           si_WithdrawableVET = big_Uint64 (big_of_bytes withdrawable)\<rparr>)))))))))))))))))))"

definition FetchValidations ::
  "codec \<Rightarrow> 'w client \<Rightarrow> bytes32 \<Rightarrow> 'w \<Rightarrow> StakerInformation outcome \<times> 'w" where
  "FetchValidations cd cl blockID w =
     (case fetchStakerInfo cd cl blockID w of
        (r, w1) \<Rightarrow>
          (bind_outcome (wrap_err ''failed to fetch staker info'' r) (\<lambda>rawResult.
             wrap_err ''failed to unpack staker info'' (unpackInfo cd rawResult)), w1))"

section \<open>What an unpacked validator satisfies\<close>

lemma unpack_rows_Ok_iff:
  "unpack_rows cd c is = Ok vs \<longleftrightarrow> (\<forall>i \<in> set is. columns_cover c i) \<and> vs = map (unpack_row cd c) is"
  by (induction "is" arbitrary: vs) (auto simp: outcome_simps)

lemma unpack_rows_not_Err: "unpack_rows cd c is \<noteq> Err e"
proof (induction "is")
  case (Cons i "is")
  then show ?case by (cases "unpack_rows cd c is") auto
qed simp

lemma unpackValidators_Ok:
  assumes "unpackValidators cd r = Ok vs"
  obtains c where "\<forall>i < length (vc_masters c). columns_cover c i"
    and "vs = map (unpack_row cd c) [0..<length (vc_masters c)]"
proof -
  from assms obtain c where "unpack_rows cd c [0..<length (vc_masters c)] = Ok vs"
    by (auto simp: unpackValidators_def outcome_simps)
  then show thesis by (intro that [of c]) (simp_all add: unpack_rows_Ok_iff)
qed

text \<open>
  The accounting between a validator's totals: the validator's own stake is what is left of the
  total without the delegators' part; own stake counts twice in the weight, and the rest of the
  weight is the delegators'; likewise for the queued amounts of the next period.
\<close>

definition accounted :: "Validation \<Rightarrow> bool" where
  "accounted v \<longleftrightarrow>
     (\<exists>total delegators weight totalQueued delegatorQueued nextWeight exiting.
        v_TotalLockedStake v = Some total \<and> v_DelegatorStake v = Some delegators \<and>
        v_TotalLockedWeight v = Some weight \<and> v_TotalQueuedStake v = Some totalQueued \<and>
        v_DelegatorQueuedStake v = Some delegatorQueued \<and> v_NextPeriodWeight v = Some nextWeight \<and>
        v_TotalExitingStake v = Some exiting \<and>
        v_LockedVET v = ScaleToVET (Some (total - delegators)) \<and>
        v_QueuedVET v = ScaleToVET (Some (totalQueued - delegatorQueued)) \<and>
        v_Weight v = ScaleToVET (Some weight) \<and>
        v_DelegatorWeight v = Some (weight - 2 * (total - delegators)) \<and>
        v_DelegatorQueuedWeight v = Some (nextWeight - weight - 2 * (totalQueued - delegatorQueued)))"

lemma accounted_unpack_row: "accounted (unpack_row cd c i)"
  by (simp add: accounted_def unpack_row_def Let_def)

lemma unpackValidators_accounted: "unpackValidators cd r = Ok vs \<Longrightarrow> v \<in> set vs \<Longrightarrow> accounted v"
  by (elim unpackValidators_Ok) (auto simp: accounted_unpack_row)

lemma unpackInfo_Ok_validators:
  "unpackInfo cd res = Ok si \<Longrightarrow> 1 < length res \<and> unpackValidators cd (res ! 1) = Ok (si_Validations si)"
  by (auto simp: unpackInfo_def outcome_simps nth_or_panic_def split: if_splits)

lemma fetchStakerInfo_Ok:
  assumes "fetchStakerInfo cd cl blockID w = (Ok res, w1)"
  shows "length res = 9" and "\<forall>r \<in> set res. \<not> cr_Reverted r \<and> cr_VMError r = []"
  using assms
  by (auto simp: fetchStakerInfo_def staker_clauses_def Let_def split: sum.splits prod.splits if_splits)

lemma FetchValidations_Ok:
  assumes "FetchValidations cd cl blockID w = (Ok si, w1)"
  obtains res where "fetchStakerInfo cd cl blockID w = (Ok res, w1)" and "unpackInfo cd res = Ok si"
  using assms by (auto simp: FetchValidations_def outcome_simps split: prod.splits)

end
