(* ===== verification/BlockFetcher.thy ===== *)
theory BlockFetcher
  imports Retry StakerFetch
begin

text \<open>
  \<^verbatim>\<open>pubsub/block_fetcher.go\<close>: fetching one block with its seed, staker information and
  authority nodes, with retries, behind an LRU cache keyed by block number. The cache and
  the chain's intervals come from libraries and are parameters. \<open>singleflight.Do\<close> runs its
  function for the first caller and shares the result; here a call is one step, and SharedFetch lets many
  callers interleave.
\<close>

section \<open>Environment\<close>

record chain_config =
  cfg_SeederInterval :: u32
  cfg_EpochLength :: u32
  cfg_BlockInterval :: u64

record FetchResult =
  fr_Block :: Block
  fr_Seed :: bytes
  fr_Staker :: "StakerInformation option"
  fr_AuthNodes :: AuthorityNodeList
  fr_FutureSeed :: bytes

text \<open>\<open>lru.Cache\<close>: \<open>Get\<close> also refreshes the entry, \<open>Add\<close> may evict another one.\<close>

record 'c lru =
  lru_Get :: "'c \<Rightarrow> u32 \<Rightarrow> FetchResult option \<times> 'c"
  lru_Add :: "'c \<Rightarrow> u32 \<Rightarrow> FetchResult \<Rightarrow> 'c"

definition lru_laws :: "'c lru \<Rightarrow> bool" where
  "lru_laws l \<longleftrightarrow>
     (\<forall>c n r. fst (lru_Get l (lru_Add l c n r) n) = Some r) \<and>
     (\<forall>c n r m r'. fst (lru_Get l (lru_Add l c n r) m) = Some r' \<longrightarrow>
        (m = n \<and> r' = r) \<or> fst (lru_Get l c m) = Some r') \<and>
     (\<forall>c n m. fst (lru_Get l (snd (lru_Get l c n)) m) = fst (lru_Get l c m))"

record ('w, 'c) fetcher =
  bf_cfg :: chain_config
  bf_codec :: codec
  bf_timer :: "'w timer"
  bf_client :: "'w client"
  bf_lru :: "'c lru"
  bf_hayabusaForkedBlock :: u32
  bf_hayabusaActiveBlock :: u32

section \<open>fetchSeed\<close>

text \<open>The number of the block whose beta is the seed for the child of \<open>parentID\<close>.\<close>

definition seed_number :: "chain_config \<Rightarrow> bytes32 \<Rightarrow> u32 option" where
  "seed_number cfg parentID =
     (let blockNum = id_uint32 parentID + 1;
          epoch = blockNum div cfg_SeederInterval cfg
      in if epoch \<le> 1 then None else Some ((epoch - 1) * cfg_SeederInterval cfg))"

definition decode_seed :: "codec \<Rightarrow> string \<Rightarrow> nat \<Rightarrow> bytes outcome" where
  "decode_seed cd res status =
     (if status \<noteq> 200 then Err (ErrMsg ''failed to fetch raw block'')
      else bind_outcome (wrap_err ''failed to unmarshal raw block'' (of_sum (cd_RawOf cd res))) (\<lambda>raw.
           bind_outcome (slice raw 2 (int (length raw))) (\<lambda>digits.
           bind_outcome (wrap_err ''failed to decode raw block data'' (of_sum (hex_DecodeString digits))) (\<lambda>data.
           bind_outcome (wrap_err ''failed to decode block header'' (of_sum (cd_RLPHeader cd data))) (\<lambda>header.
             of_sum (cd_HeaderBeta cd header))))))"

definition fetchSeed ::
  "chain_config \<Rightarrow> codec \<Rightarrow> 'w client \<Rightarrow> bytes32 \<Rightarrow> 'w \<Rightarrow> bytes outcome \<times> 'w" where
  "fetchSeed cfg cd cl parentID w =
     (case seed_number cfg parentID of
        None \<Rightarrow> (Ok [], w)
      | Some seedNum \<Rightarrow>
          bindW (wrapW ''failed to fetch seed block'' (callW (cl_Block cl (RevNumber seedNum) w))) (\<lambda>seedBlock w1.
          bindW (wrapW ''failed to fetch raw block'' (callW (cl_RawBlock cl (blk_ID seedBlock) w1))) (\<lambda>(res, status) w2.
            (decode_seed cd res status, w2))))"

section \<open>FetchBlock\<close>

text \<open>One attempt: the function that \<open>FetchBlock\<close> retries.\<close>

definition fetch_attempt :: "('w, 'c) fetcher \<Rightarrow> u32 \<Rightarrow> ('w, FetchResult) attempt" where
  "fetch_attempt b blockNum w =
     bindW (wrapW ''failed to fetch block'' (callW (cl_ExpandedBlock (bf_client b) (RevNumber blockNum) w))) (\<lambda>block w1.
     bindW (wrapW ''failed to fetch seed'' (fetchSeed (bf_cfg b) (bf_codec b) (bf_client b) (blk_ParentID block) w1)) (\<lambda>seed w2.
     bindW (if (blockNum + 1) mod cfg_SeederInterval (bf_cfg b) = 0
            then wrapW ''failed to fetch future seed'' (fetchSeed (bf_cfg b) (bf_codec b) (bf_client b) (blk_ID block) w2)
            else (Ok seed, w2)) (\<lambda>futureSeed w3.
     bindW (if bf_hayabusaForkedBlock b \<le> blockNum
            then bindW (wrapW ''failed to fetch staker info'' (FetchValidations (bf_codec b) (bf_client b) (blk_ID block) w3))
                   (\<lambda>s w. (Ok (Some s), w))
            else (Ok None, w3)) (\<lambda>stakerInfo w4.
     bindW (if blockNum \<le> bf_hayabusaActiveBlock b
            then wrapW ''failed to fetch auth nodes info'' (FetchAuthorityNodes (bf_codec b) (bf_client b) (blk_ID block) w4)
            else (Ok [], w4)) (\<lambda>authNodes w5.
       (Ok \<lparr>fr_Block = block, fr_Seed = seed, fr_Staker = stakerInfo, fr_AuthNodes = authNodes,
            fr_FutureSeed = futureSeed\<rparr>, w5))))))"

text \<open>Cache first; otherwise retry (100 ms, at most 30 s apart, for 2 minutes) and store a success.\<close>

definition FetchBlock ::
  "('w, 'c) fetcher \<Rightarrow> u32 \<Rightarrow> 'c \<times> 'w \<Rightarrow> (FetchResult outcome \<times> ('c \<times> 'w)) option" where
  "FetchBlock b blockNum s =
     (case s of (c, w) \<Rightarrow>
      case lru_Get (bf_lru b) c blockNum of
        (Some cached, c1) \<Rightarrow> Some (Ok cached, (c1, w))
      | (None, c1) \<Rightarrow>
          (case RetryIncreasing (bf_timer b) (fetch_attempt b blockNum) (ms 100) (sec 30) (sec 120) w of
             None \<Rightarrow> None
           | Some (Ok r, w1) \<Rightarrow> Some (Ok r, (lru_Add (bf_lru b) c1 blockNum r, w1))
           | Some (Err e, w1) \<Rightarrow> Some (Err e, (c1, w1))
           | Some (Panic p, w1) \<Rightarrow> Some (Panic p, (c1, w1))))"

section \<open>What a fetched block holds\<close>

definition good_result :: "('w, 'c) fetcher \<Rightarrow> u32 \<Rightarrow> FetchResult \<Rightarrow> bool" where
  "good_result b n r \<longleftrightarrow>
     blk_Number (fr_Block r) = n \<and>
     (fr_Staker r \<noteq> None \<longleftrightarrow> bf_hayabusaForkedBlock b \<le> n) \<and>
     (bf_hayabusaActiveBlock b < n \<longrightarrow> fr_AuthNodes r = [])"

text \<open>A node answers a request for a number with a block of that number.\<close>

definition node_numbers :: "'w client \<Rightarrow> bool" where
  "node_numbers cl \<longleftrightarrow>
     (\<forall>n w bl w'. cl_ExpandedBlock cl (RevNumber n) w = (Inr bl, w') \<longrightarrow> blk_Number bl = n)"

lemma fetch_attempt_Ok:
  assumes "fetch_attempt b n w = (Ok r, w')"
  obtains w1 w2 w3 where
    "cl_ExpandedBlock (bf_client b) (RevNumber n) w = (Inr (fr_Block r), w1)"
    and "fetchSeed (bf_cfg b) (bf_codec b) (bf_client b) (blk_ParentID (fr_Block r)) w1 = (Ok (fr_Seed r), w2)"
    and "(n + 1) mod cfg_SeederInterval (bf_cfg b) = 0 \<Longrightarrow>
      fetchSeed (bf_cfg b) (bf_codec b) (bf_client b) (blk_ID (fr_Block r)) w2 = (Ok (fr_FutureSeed r), w3)"
    and "(n + 1) mod cfg_SeederInterval (bf_cfg b) \<noteq> 0 \<Longrightarrow> fr_FutureSeed r = fr_Seed r"
    and "fr_Staker r \<noteq> None \<longleftrightarrow> bf_hayabusaForkedBlock b \<le> n"
    and "\<not> n \<le> bf_hayabusaActiveBlock b \<Longrightarrow> fr_AuthNodes r = []"
proof -
  from assms obtain block w1 seed w2 futureSeed w3 st w4 auth where
    1: "cl_ExpandedBlock (bf_client b) (RevNumber n) w = (Inr block, w1)" and
    2: "fetchSeed (bf_cfg b) (bf_codec b) (bf_client b) (blk_ParentID block) w1 = (Ok seed, w2)" and
    3: "(if (n + 1) mod cfg_SeederInterval (bf_cfg b) = 0
         then wrapW ''failed to fetch future seed'' (fetchSeed (bf_cfg b) (bf_codec b) (bf_client b) (blk_ID block) w2)
         else (Ok seed, w2)) = (Ok futureSeed, w3)" and
    4: "(if bf_hayabusaForkedBlock b \<le> n
         then bindW (wrapW ''failed to fetch staker info'' (FetchValidations (bf_codec b) (bf_client b) (blk_ID block) w3))
                (\<lambda>s w. (Ok (Some s), w))
         else (Ok None, w3)) = (Ok st, w4)" and
    5: "(if n \<le> bf_hayabusaActiveBlock b
         then wrapW ''failed to fetch auth nodes info'' (FetchAuthorityNodes (bf_codec b) (bf_client b) (blk_ID block) w4)
         else (Ok [], w4)) = (Ok auth, w')" and
    r: "r = \<lparr>fr_Block = block, fr_Seed = seed, fr_Staker = st, fr_AuthNodes = auth, fr_FutureSeed = futureSeed\<rparr>"
    unfolding fetch_attempt_def bindW_Ok_iff wrapW_Ok_iff callW_Ok_iff by blast
  show thesis
  proof (rule that)
    show "cl_ExpandedBlock (bf_client b) (RevNumber n) w = (Inr (fr_Block r), w1)" using 1 r by simp
    show "fetchSeed (bf_cfg b) (bf_codec b) (bf_client b) (blk_ParentID (fr_Block r)) w1 = (Ok (fr_Seed r), w2)"
      using 2 r by simp
    show "fetchSeed (bf_cfg b) (bf_codec b) (bf_client b) (blk_ID (fr_Block r)) w2 = (Ok (fr_FutureSeed r), w3)"
      if "(n + 1) mod cfg_SeederInterval (bf_cfg b) = 0" using 3 r that by (simp add: outcome_simps)
    show "fr_FutureSeed r = fr_Seed r" if "(n + 1) mod cfg_SeederInterval (bf_cfg b) \<noteq> 0"
      using 3 r that by simp
    show "fr_Staker r \<noteq> None \<longleftrightarrow> bf_hayabusaForkedBlock b \<le> n"
      using 4 r by (auto simp: outcome_simps split: if_splits)
    show "fr_AuthNodes r = []" if "\<not> n \<le> bf_hayabusaActiveBlock b" using 5 r that by simp
  qed
qed

lemma fetch_attempt_good:
  assumes "node_numbers (bf_client b)" and "fetch_attempt b n w = (Ok r, w')"
  shows "good_result b n r"
  using assms(2)
proof (rule fetch_attempt_Ok)
  fix w1
  assume "cl_ExpandedBlock (bf_client b) (RevNumber n) w = (Inr (fr_Block r), w1)"
    and *: "fr_Staker r \<noteq> None \<longleftrightarrow> bf_hayabusaForkedBlock b \<le> n"
    "\<not> n \<le> bf_hayabusaActiveBlock b \<Longrightarrow> fr_AuthNodes r = []"
  then have "blk_Number (fr_Block r) = n" using assms(1) unfolding node_numbers_def by blast
  with * show ?thesis by (auto simp: good_result_def)
qed

definition cache_inv :: "('w, 'c) fetcher \<Rightarrow> 'c \<times> 'w \<Rightarrow> bool" where
  "cache_inv b s \<longleftrightarrow> lru_laws (bf_lru b) \<and> node_numbers (bf_client b) \<and>
     (\<forall>n r. fst (lru_Get (bf_lru b) (fst s) n) = Some r \<longrightarrow> good_result b n r)"

lemma FetchBlock_cases:
  assumes "FetchBlock b n (c, w) = Some (r, s')"
  obtains (hit) x c1 where "lru_Get (bf_lru b) c n = (Some x, c1)" and "r = Ok x" and "s' = (c1, w)"
  | (fetched) x c1 w1 where "lru_Get (bf_lru b) c n = (None, c1)"
      and "RetryIncreasing (bf_timer b) (fetch_attempt b n) (ms 100) (sec 30) (sec 120) w = Some (Ok x, w1)"
      and "r = Ok x" and "s' = (lru_Add (bf_lru b) c1 n x, w1)"
  | (failed) c1 w1 where "lru_Get (bf_lru b) c n = (None, c1)" and "\<forall>x. r \<noteq> Ok x" and "s' = (c1, w1)"
  using assms
  by (auto simp: FetchBlock_def split: prod.splits option.splits outcome.splits)

lemma FetchBlock_good:
  assumes inv: "cache_inv b s" and ret: "FetchBlock b n s = Some (Ok r, s')"
  shows "good_result b n r"
proof -
  obtain c w where s: "s = (c, w)" by (cases s)
  from ret [unfolded s] show ?thesis
  proof (cases rule: FetchBlock_cases)
    case (hit x c1)
    with inv s show ?thesis by (auto simp: cache_inv_def)
  next
    case (fetched x c1 w1)
    then obtain w0 where "fetch_attempt b n w0 = (Ok x, w1)" by (blast dest: RetryIncreasing_Ok)
    with inv fetched(3) show ?thesis by (auto simp: cache_inv_def intro: fetch_attempt_good)
  next
    case (failed c1 w1)
    then show ?thesis by simp
  qed
qed

lemma cache_inv_world: "cache_inv b (c, w) \<Longrightarrow> cache_inv b (c, w')"
  by (simp add: cache_inv_def)

lemma cache_inv_Get: "cache_inv b (c, w) \<Longrightarrow> lru_Get (bf_lru b) c n = (x, c1) \<Longrightarrow> cache_inv b (c1, w1)"
  unfolding cache_inv_def lru_laws_def fst_conv by (metis snd_conv)

lemma cache_inv_Add: "cache_inv b (c, w) \<Longrightarrow> good_result b n r \<Longrightarrow> cache_inv b (lru_Add (bf_lru b) c n r, w1)"
  unfolding cache_inv_def lru_laws_def fst_conv by metis

lemma FetchBlock_inv:
  assumes inv: "cache_inv b s" and ret: "FetchBlock b n s = Some (r, s')"
  shows "cache_inv b s'"
proof -
  obtain c w where s: "s = (c, w)" by (cases s)
  from ret [unfolded s] show ?thesis
  proof (cases rule: FetchBlock_cases)
    case (hit x c1)
    with inv s show ?thesis by (auto intro: cache_inv_Get)
  next
    case (fetched x c1 w1)
    with inv ret have "good_result b n x" by (auto intro: FetchBlock_good)
    with inv s fetched show ?thesis by (auto intro!: cache_inv_Add dest: cache_inv_Get)
  next
    case (failed c1 w1)
    with inv s show ?thesis by (auto intro: cache_inv_Get)
  qed
qed

text \<open>The delays of \<open>FetchBlock\<close> are in range, so it always returns.\<close>

lemma FetchBlock_returns:
  assumes "clock_laws (bf_timer b) (fetch_attempt b n)"
  shows "\<exists>r. FetchBlock b n s = Some r"
proof -
  obtain c w where s: "s = (c, w)" by fastforce
  have "delay_ok (sec 30) (ms 100)" by (simp add: delay_ok_def sec_def ms_def)
  then obtain r w1 where
    "RetryIncreasing (bf_timer b) (fetch_attempt b n) (ms 100) (sec 30) (sec 120) w = Some (r, w1)"
    using RetryIncreasing_loop_returns [OF assms] unfolding RetryIncreasing_def by fastforce
  then show ?thesis by (cases r) (auto simp: FetchBlock_def s split: prod.split option.split)
qed

section \<open>Which seed\<close>

lemma word_nat_cancel: "of_nat (unat w) = (w :: 'a::len word)"
  by simp

lemma seed_number_nat:
  assumes "0 < cfg_SeederInterval cfg" and "unat (id_uint32 h) + 1 < 2 ^ 32"
  defines "B \<equiv> unat (id_uint32 h) + 1" and "S \<equiv> unat (cfg_SeederInterval cfg)"
  shows "seed_number cfg h = (if B div S \<le> 1 then None else Some (of_nat ((B div S - 1) * S)))"
proof -
  let ?e = "(id_uint32 h + 1) div cfg_SeederInterval cfg"
  have e: "unat ?e = B div S"
    using assms(2) by (simp add: unat_div_distrib unat_Suc_small B_def S_def)
  then have le: "?e \<le> 1 \<longleftrightarrow> B div S \<le> 1" by (simp add: word_le_nat_alt)
  have "(?e - 1) * cfg_SeederInterval cfg = of_nat ((B div S - 1) * S)" if "\<not> B div S \<le> 1"
  proof -
    have "1 \<le> ?e" using that e by (simp add: word_le_nat_alt)
    then have "unat (?e - 1) = B div S - 1" using e by (simp add: unat_sub)
    moreover have "of_nat (unat (?e - 1)) = ?e - 1" by (rule word_nat_cancel)
    ultimately have "?e - 1 = of_nat (B div S - 1)" by simp
    then show ?thesis by (simp add: S_def)
  qed
  with le show ?thesis by (simp add: seed_number_def Let_def)
qed

text \<open>Two identifiers whose numbers' successors lie in the same epoch share a seed block.\<close>

lemma seed_number_same_epoch:
  assumes "0 < cfg_SeederInterval cfg" and "unat (id_uint32 h) + 1 < 2 ^ 32"
    and "id_uint32 h = id_uint32 p + 1" and "(id_uint32 h + 1) mod cfg_SeederInterval cfg \<noteq> 0"
    and "unat (id_uint32 p) + 1 < 2 ^ 32"
  shows "seed_number cfg h = seed_number cfg p"
proof -
  let ?S = "unat (cfg_SeederInterval cfg)"
  have hp: "unat (id_uint32 h) = unat (id_uint32 p) + 1" using assms(3,5) by (simp add: unat_Suc_small)
  have "unat ((id_uint32 h + 1) mod cfg_SeederInterval cfg) \<noteq> 0" using assms(4) by (simp add: unat_eq_zero)
  then have "(unat (id_uint32 h) + 1) mod ?S \<noteq> 0" using assms(2) by (simp add: unat_mod_distrib unat_Suc_small)
  then have "(unat (id_uint32 h) + 1) div ?S = unat (id_uint32 h) div ?S"
    by (simp add: div_Suc split: if_splits)
  then show ?thesis using assms(1,2,5) hp by (simp add: seed_number_nat)
qed

end
