(* ===== verification/EventBlock.thy ===== *)
theory EventBlock
  imports BlockFetcher
begin

text \<open>
  \<^verbatim>\<open>pubsub/event_block.go\<close> and the event type of \<^verbatim>\<open>pubsub/publisher.go\<close>: the
  event of block \<open>N\<close>, made of the fetched blocks \<open>N\<close> and \<open>N - 1\<close>. The service only needs
  a source of fetched blocks, which is the locale \<open>block_source\<close>; the block fetcher is one.
\<close>

section \<open>Events\<close>

record ForkEvent =
  fk_Occurred :: bool
  fk_Best :: "Block option"
  fk_Finalized :: "Block option"
  fk_SideChain :: "Block option"

definition no_fork :: ForkEvent where
  "no_fork = \<lparr>fk_Occurred = False, fk_Best = None, fk_Finalized = None, fk_SideChain = None\<rparr>"

record BlockEvent =
  be_Fork :: ForkEvent
  be_Block :: Block
  be_Prev :: "Block option"
  be_HayabusaStatus :: HayabusaStatus
  be_Staker :: "StakerInformation option"
  be_ParentStaker :: "StakerInformation option"
  be_Seed :: bytes
  be_AuthNodes :: AuthorityNodeList
  be_ParentAuthNodes :: AuthorityNodeList
  be_FutureSeed :: bytes

section \<open>ProcessBlock\<close>

type_synonym 's fetch = "u32 \<Rightarrow> 's \<Rightarrow> (FetchResult outcome \<times> 's) option"

definition block_event :: "u32 \<Rightarrow> u32 \<Rightarrow> u32 \<Rightarrow> FetchResult \<Rightarrow> FetchResult option \<Rightarrow> BlockEvent" where
  "block_event forked active blockNum cur prev =
     \<lparr>be_Fork = no_fork,
      be_Block = fr_Block cur,
      be_Prev = map_option fr_Block prev,
      be_HayabusaStatus = \<lparr>hs_Active = active \<le> blockNum, hs_Forked = forked \<le> blockNum\<rparr>,
      be_Staker = fr_Staker cur,
      be_ParentStaker = Option.bind prev fr_Staker,
      be_Seed = fr_Seed cur,
      be_AuthNodes = fr_AuthNodes cur,
      be_ParentAuthNodes = (case prev of None \<Rightarrow> [] | Some p \<Rightarrow> fr_AuthNodes p),
      be_FutureSeed = fr_FutureSeed cur\<rparr>"

definition ProcessBlock ::
  "'s fetch \<Rightarrow> u32 \<Rightarrow> u32 \<Rightarrow> u32 \<Rightarrow> 's \<Rightarrow> (BlockEvent outcome \<times> 's) option" where
  "ProcessBlock fetch forked active blockNum s =
     (case fetch blockNum s of
        None \<Rightarrow> None
      | Some (Panic p, s1) \<Rightarrow> Some (Panic p, s1)
      | Some (Err e, s1) \<Rightarrow> Some (Err (ErrWrap ''failed to fetch block'' e), s1)
      | Some (Ok cur, s1) \<Rightarrow>
          if 1 < blockNum then
            (case fetch (blockNum - 1) s1 of
               None \<Rightarrow> None
             | Some (Panic p, s2) \<Rightarrow> Some (Panic p, s2)
             | Some (Err e, s2) \<Rightarrow> Some (Err (ErrWrap ''failed to fetch previous block'' e), s2)
             | Some (Ok prev, s2) \<Rightarrow> Some (Ok (block_event forked active blockNum cur (Some prev)), s2))
          else Some (Ok (block_event forked active blockNum cur None), s1))"

text \<open>What the rest of the program relies on in an event of block \<open>n\<close>.\<close>

definition event_ok :: "u32 \<Rightarrow> u32 \<Rightarrow> u32 \<Rightarrow> BlockEvent \<Rightarrow> bool" where
  "event_ok forked active n e \<longleftrightarrow>
     \<not> fk_Occurred (be_Fork e) \<and>
     blk_Number (be_Block e) = n \<and>
     (case be_Prev e of None \<Rightarrow> n \<le> 1 | Some p \<Rightarrow> 1 < n \<and> blk_Number p = n - 1) \<and>
     (hs_Active (be_HayabusaStatus e) \<longleftrightarrow> active \<le> n) \<and>
     (hs_Forked (be_HayabusaStatus e) \<longleftrightarrow> forked \<le> n) \<and>
     (be_Staker e \<noteq> None \<longleftrightarrow> forked \<le> n) \<and>
     (be_ParentStaker e \<noteq> None \<longleftrightarrow> 1 < n \<and> forked \<le> n - 1) \<and>
     (active < n \<longrightarrow> be_AuthNodes e = [])"

section \<open>The interface\<close>

locale block_source =
  fixes fetch :: "'s fetch"
    and forked active :: u32
    and inv :: "'s \<Rightarrow> bool"
  assumes fetch_inv: "inv s \<Longrightarrow> fetch n s = Some (r, s') \<Longrightarrow> inv s'"
    and fetch_number: "inv s \<Longrightarrow> fetch n s = Some (Ok x, s') \<Longrightarrow> blk_Number (fr_Block x) = n"
    and fetch_staker: "inv s \<Longrightarrow> fetch n s = Some (Ok x, s') \<Longrightarrow> fr_Staker x \<noteq> None \<longleftrightarrow> forked \<le> n"
    and fetch_auth: "inv s \<Longrightarrow> fetch n s = Some (Ok x, s') \<Longrightarrow> active < n \<Longrightarrow> fr_AuthNodes x = []"
begin

lemma ProcessBlock_inv:
  "inv s \<Longrightarrow> ProcessBlock fetch forked active n s = Some (r, s') \<Longrightarrow> inv s'"
  by (auto simp: ProcessBlock_def split: option.splits prod.splits outcome.splits if_splits
      dest: fetch_inv)

lemma ProcessBlock_Ok_cases:
  assumes "ProcessBlock fetch forked active n s = Some (Ok e, s')"
  obtains (first) cur where "\<not> 1 < n" and "fetch n s = Some (Ok cur, s')"
      and "e = block_event forked active n cur None"
  | (later) cur s1 prev where "1 < n" and "fetch n s = Some (Ok cur, s1)"
      and "fetch (n - 1) s1 = Some (Ok prev, s')" and "e = block_event forked active n cur (Some prev)"
  using assms
  by (auto simp: ProcessBlock_def split: option.splits prod.splits outcome.splits if_splits)

lemma ProcessBlock_event_ok:
  assumes inv: "inv s" and ret: "ProcessBlock fetch forked active n s = Some (Ok e, s')"
  shows "event_ok forked active n e"
  using ret
proof (cases rule: ProcessBlock_Ok_cases)
  case (first cur)
  with inv show ?thesis
    using fetch_number [OF inv first(2)] fetch_staker [OF inv first(2)] fetch_auth [OF inv first(2)]
    by (auto simp: event_ok_def block_event_def no_fork_def not_less)
next
  case (later cur s1 prev)
  have inv1: "inv s1" using inv later(2) by (rule fetch_inv)
  from later show ?thesis
    using fetch_number [OF inv later(2)] fetch_staker [OF inv later(2)] fetch_auth [OF inv later(2)]
      fetch_number [OF inv1 later(3)] fetch_staker [OF inv1 later(3)]
    by (auto simp: event_ok_def block_event_def no_fork_def)
qed

text \<open>A source that always answers makes a service that always answers.\<close>

lemma ProcessBlock_returns:
  assumes "\<And>n s. \<exists>r. fetch n s = Some r"
  shows "\<exists>r. ProcessBlock fetch forked active n s = Some r"
proof -
  obtain r s1 where 1: "fetch n s = Some (r, s1)" using assms [of n s] by auto
  obtain r' s2 where 2: "fetch (n - 1) s1 = Some (r', s2)" using assms [of "n - 1" s1] by auto
  show ?thesis by (cases r; cases r') (simp_all add: ProcessBlock_def 1 2)
qed

end

interpretation fetcher: block_source "FetchBlock b" "bf_hayabusaForkedBlock b"
  "bf_hayabusaActiveBlock b" "cache_inv b" for b :: "('w, 'c) fetcher"
proof
  fix s s' :: "'c \<times> 'w" and n r
  show "cache_inv b s \<Longrightarrow> FetchBlock b n s = Some (r, s') \<Longrightarrow> cache_inv b s'" by (rule FetchBlock_inv)
next
  fix s s' :: "'c \<times> 'w" and n x
  assume "cache_inv b s" and "FetchBlock b n s = Some (Ok x, s')"
  then have "good_result b n x" by (rule FetchBlock_good)
  then show "blk_Number (fr_Block x) = n" and "fr_Staker x \<noteq> None \<longleftrightarrow> bf_hayabusaForkedBlock b \<le> n"
    and "bf_hayabusaActiveBlock b < n \<Longrightarrow> fr_AuthNodes x = []"
    by (auto simp: good_result_def)
qed

section \<open>A source of events\<close>

text \<open>
  What the syncers rely on: any event the service may return for \<open>n\<close> is a proper event of
  block \<open>n\<close>. For the fetcher-backed service this holds whatever state the cache is in.
\<close>

locale event_source =
  fixes may :: "u32 \<Rightarrow> BlockEvent outcome \<Rightarrow> bool"
    and forked active :: u32
  assumes may_ok: "may n (Ok e) \<Longrightarrow> event_ok forked active n e"
begin

lemma may_number: "may n (Ok e) \<Longrightarrow> blk_Number (be_Block e) = n"
  using may_ok by (simp add: event_ok_def)

lemma may_not_fork: "may n (Ok e) \<Longrightarrow> \<not> fk_Occurred (be_Fork e)"
  using may_ok by (simp add: event_ok_def)

end

definition service_may :: "('w, 'c) fetcher \<Rightarrow> u32 \<Rightarrow> BlockEvent outcome \<Rightarrow> bool" where
  "service_may b n r \<longleftrightarrow>
     (\<exists>s s'. cache_inv b s \<and>
        ProcessBlock (FetchBlock b) (bf_hayabusaForkedBlock b) (bf_hayabusaActiveBlock b) n s = Some (r, s'))"

interpretation service: event_source "service_may b" "bf_hayabusaForkedBlock b"
  "bf_hayabusaActiveBlock b" for b :: "('w, 'c) fetcher"
  by unfold_locales (auto simp: service_may_def dest: fetcher.ProcessBlock_event_ok)

end
