(* ===== verification/Influx.thy ===== *)
theory Influx
  imports Client
begin

text \<open>
  \<^verbatim>\<open>influxdb/influxdb.go\<close>. The client library and the server behind it are parameters: a state
  \<open>'d\<close>, the two calls the program makes on it, and what the library and the server do in between on
  their own. \<open>WriteAPI\<close> is asynchronous: \<open>WritePoint\<close> hands a point over to the library, which sends
  batches from goroutines of its own, retries them and gives them up when the callback that \<open>New\<close>
  installs says so (after five attempts); the server merges points of equal measurement, tags and time.
  What is known of this is \<open>db_laws\<close>; it does not say that a point ever arrives.
\<close>

section \<open>The database\<close>

text \<open>A delete predicate: a conjunction of comparisons of the measurement's name.\<close>

datatype cond = MeasurementEq string | MeasurementNeq string

fun cond_holds :: "point \<Rightarrow> cond \<Rightarrow> bool" where
  "cond_holds p (MeasurementEq m) = (pt_Measurement p = m)"
| "cond_holds p (MeasurementNeq m) = (pt_Measurement p \<noteq> m)"

text \<open>
  \<open>db_handed\<close> lists the points handed to the library so far, \<open>db_points\<close> the points that the server has;
  \<open>db_background\<close> relates the states before and after the library and the server did something on their own.
\<close>

record 'd database =
  db_Delete :: "int \<Rightarrow> int \<Rightarrow> cond list \<Rightarrow> 'd \<Rightarrow> gerror option \<times> 'd"
  db_WritePoint :: "point \<Rightarrow> 'd \<Rightarrow> 'd"
  db_background :: "'d \<Rightarrow> 'd \<Rightarrow> bool"
  db_handed :: "'d \<Rightarrow> point list"
  db_points :: "'d \<Rightarrow> point set"

definition deleted_by :: "int \<Rightarrow> int \<Rightarrow> cond list \<Rightarrow> point \<Rightarrow> bool" where
  "deleted_by start stop cs p \<longleftrightarrow> start \<le> pt_Time p \<and> pt_Time p \<le> stop \<and> (\<forall>c \<in> set cs. cond_holds p c)"

text \<open>
  The points and, of each measurement, the fields in a list or set of points. The server may drop, split or
  merge points, but a field it has for a measurement came from a point of that measurement.
\<close>

definition fields_in :: "point set \<Rightarrow> (string \<times> fkey \<times> val) set" where
  "fields_in ps = {(pt_Measurement p, k, v) | p k v. p \<in> ps \<and> (k, v) \<in> set (pt_Fields p)}"

text \<open>
  A write is only handed over. A delete is a request of its own, answered before it returns: it adds nothing,
  spares what does not meet the predicate, and removes what meets it when it succeeds. In the background
  points arrive late, more than once, merged with others, or never.
\<close>

definition db_laws :: "'d database \<Rightarrow> bool" where
  "db_laws db \<longleftrightarrow>
     (\<forall>p d. db_handed db (db_WritePoint db p d) = db_handed db d @ [p] \<and>
        db_points db (db_WritePoint db p d) = db_points db d) \<and>
     (\<forall>start stop cs d e d'. db_Delete db start stop cs d = (e, d') \<longrightarrow>
        db_handed db d' = db_handed db d \<and> db_points db d' \<subseteq> db_points db d \<and>
        {p \<in> db_points db d. \<not> deleted_by start stop cs p} \<subseteq> db_points db d' \<and>
        (e = None \<longrightarrow> db_points db d' = {p \<in> db_points db d. \<not> deleted_by start stop cs p})) \<and>
     (\<forall>d d'. db_background db d d' \<longrightarrow> db_handed db d' = db_handed db d \<and>
        fields_in (db_points db d') \<subseteq> fields_in (db_points db d \<union> set (db_handed db d)))"

lemma db_law_write:
  "db_laws db \<Longrightarrow> db_handed db (db_WritePoint db p d) = db_handed db d @ [p]"
  "db_laws db \<Longrightarrow> db_points db (db_WritePoint db p d) = db_points db d"
  unfolding db_laws_def by blast+

lemma db_law_delete:
  assumes "db_laws db" and "db_Delete db start stop cs d = (e, d')"
  shows "db_handed db d' = db_handed db d" and "db_points db d' \<subseteq> db_points db d"
    and "e = None \<Longrightarrow> db_points db d' = {p \<in> db_points db d. \<not> deleted_by start stop cs p}"
  using assms unfolding db_laws_def by blast+

lemma db_law_background:
  assumes "db_laws db" and "db_background db d d'"
  shows "db_handed db d' = db_handed db d"
    and "fields_in (db_points db d') \<subseteq> fields_in (db_points db d \<union> set (db_handed db d))"
  using assms unfolding db_laws_def by blast+

lemma fields_in_iff: "(m, k, v) \<in> fields_in A \<longleftrightarrow> (\<exists>p \<in> A. pt_Measurement p = m \<and> (k, v) \<in> set (pt_Fields p))"
  unfolding fields_in_def by blast

lemma fields_in_mono: "A \<subseteq> B \<Longrightarrow> fields_in A \<subseteq> fields_in B"
  by (auto simp: fields_in_def)

lemma fields_in_Un: "fields_in (A \<union> B) = fields_in A \<union> fields_in B"
  by (auto simp: fields_in_def)

text \<open>All fields that there are, stored or on their way.\<close>

definition db_fields :: "'d database \<Rightarrow> 'd \<Rightarrow> (string \<times> fkey \<times> val) set" where
  "db_fields db d = fields_in (db_points db d \<union> set (db_handed db d))"

lemma db_fields_background: "db_laws db \<Longrightarrow> db_background db d d' \<Longrightarrow> db_fields db d' \<subseteq> db_fields db d"
  using db_law_background [of db d d'] by (auto simp: db_fields_def fields_in_Un)

lemma db_fields_delete: "db_laws db \<Longrightarrow> db_Delete db start stop cs d = (e, d') \<Longrightarrow> db_fields db d' \<subseteq> db_fields db d"
  using db_law_delete [of db start stop cs d e d'] fields_in_mono [of "db_points db d'" "db_points db d"]
  by (auto simp: db_fields_def fields_in_Un)

section \<open>WritePoints\<close>

definition WritePoints :: "'d database \<Rightarrow> point list \<Rightarrow> 'd \<Rightarrow> 'd" where
  "WritePoints db points d = fold (db_WritePoint db) points d"

lemma WritePoints_handed:
  "db_laws db \<Longrightarrow> db_handed db (WritePoints db ps d) = db_handed db d @ ps"
  by (induction ps arbitrary: d) (simp_all add: WritePoints_def db_law_write)

lemma WritePoints_points:
  "db_laws db \<Longrightarrow> db_points db (WritePoints db ps d) = db_points db d"
  by (induction ps arbitrary: d) (simp_all add: WritePoints_def db_law_write)

lemma db_fields_write:
  "db_laws db \<Longrightarrow> db_fields db (WritePoints db ps d) = db_fields db d \<union> fields_in (set ps)"
  by (simp add: db_fields_def WritePoints_handed WritePoints_points fields_in_Un Un_assoc)

section \<open>Latest\<close>

text \<open>
  The outcome of the query for the last best block number: failure to query, failure in the
  result, no record, or a record whose value is nil, a \<open>uint64\<close> or of another type.
\<close>

datatype query_value = QNil | QUint64 u64 | QOther

datatype query_result = QueryError gerror | ResultError gerror | NoRecord | Record query_value

fun Latest :: "query_result \<Rightarrow> gerror + u32" where
  "Latest (QueryError e) = Inl e"
| "Latest (ResultError e) = Inl e"
| "Latest NoRecord = Inr 0"
| "Latest (Record QNil) = Inr 0"
| "Latest (Record (QUint64 num)) = Inr (ucast num)"
| "Latest (Record QOther) = Inl (ErrMsg ''unexpected type for block number'')"

end
