(* ===== verification/Samples.thy ===== *)
theory Samples
  imports EventBlock Influx
begin

text \<open>
  A small concrete environment at which theorems with hypotheses are applied: a clock that is
  the world, a node that knows a chain of three blocks and a side chain of two, an unbounded
  cache, and a database client that stores any of the points it was handed.
\<close>

lemma find_Some_set: "find P xs = Some x \<Longrightarrow> P x \<and> x \<in> set xs"
  by (induction xs) (auto split: if_splits)

section \<open>The chain\<close>

definition sample_block :: "u32 \<Rightarrow> 256 word \<Rightarrow> 256 word \<Rightarrow> Block" where
  "sample_block n i p =
     \<lparr>blk_Number = n, blk_ID = Bytes32 i, blk_ParentID = Bytes32 p, blk_Timestamp = ucast n * 10,
      blk_Signer = Address 7, blk_TotalScore = ucast n, blk_GasUsed = 0, blk_GasLimit = 40000000,
      blk_Size = 300, blk_BaseFeePerGas = None, blk_COM = False, blk_Transactions = []\<rparr>"

definition genesis_block :: Block where "genesis_block = sample_block 0 160 0"
definition main1 :: Block where "main1 = sample_block 1 161 160"
definition main2 :: Block where "main2 = sample_block 2 162 161"
definition side1 :: Block where "side1 = sample_block 1 177 160"
definition side2 :: Block where "side2 = sample_block 2 178 177"

lemmas sample_blocks = genesis_block_def main1_def main2_def side1_def side2_def sample_block_def

definition sample_tree :: "bytes32 \<Rightarrow> Block option" where
  "sample_tree i = find (\<lambda>b. blk_ID b = i) [genesis_block, main1, main2, side1, side2]"

definition best_chain :: "u32 \<Rightarrow> Block option" where
  "best_chain n = find (\<lambda>b. blk_Number b = n) [genesis_block, main1, main2]"

definition found :: "Block option \<Rightarrow> gerror + Block" where
  "found r = (case r of None \<Rightarrow> Inl ErrNotFound | Some b \<Rightarrow> Inr b)"

definition sample_answer :: "revision \<Rightarrow> gerror + Block" where
  "sample_answer r = (case r of
      RevNumber n \<Rightarrow> found (best_chain n) | RevID i \<Rightarrow> found (sample_tree i)
    | RevFinalized \<Rightarrow> Inr genesis_block | RevJustified \<Rightarrow> Inr genesis_block | RevBest \<Rightarrow> Inr main2)"

definition sample_client :: "int client" where
  "sample_client = \<lparr>cl_ExpandedBlock = \<lambda>r w. (sample_answer r, w), cl_Block = \<lambda>r w. (sample_answer r, w),
     cl_RawBlock = \<lambda>i w. (Inr (''0x00'', 200), w),
     cl_InspectClauses = \<lambda>cs r w. (Inr (replicate (length cs) \<lparr>cr_Data = ''0x'', cr_Reverted = False, cr_VMError = []\<rparr>), w)\<rparr>"

definition sample_input :: "Block \<Rightarrow> Block option \<Rightarrow> Event" where
  "sample_input b prev = \<lparr>e_DefaultTags = [(''signer'', VAddr (blk_Signer b))], e_Block = b, e_Seed = [],
     e_HayabusaStatus = \<lparr>hs_Active = False, hs_Forked = False\<rparr>, e_Prev = prev,
     e_Timestamp = unix_time (blk_Timestamp b), e_Staker = None, e_ParentStaker = None, e_AuthNodes = [],
     e_ParentAuthNodes = [], e_FutureSeed = []\<rparr>"

section \<open>Codec, clock, cache, database\<close>

definition sample_columns :: "abi_value list" where
  "sample_columns = [AbiAddresses [Address 1], AbiAddresses [Address 2], AbiUint8s [2], AbiBools [True],
     AbiUint32s [- 1], AbiUint32s [180], AbiUint32s [0], AbiUint32s [- 1], AbiUint32s [3],
     AbiBigs [30 * VET], AbiBigs [75 * VET], AbiBigs [10 * VET], AbiBigs [0], AbiBigs [5 * VET], AbiBigs [0],
     AbiBigs [80 * VET]]"

definition sample_codec :: codec where
  "sample_codec = \<lparr>cd_hexutil_Decode = \<lambda>s. Inr (replicate 64 0),
     cd_UnpackValidators = \<lambda>bs. Inr sample_columns, cd_PackStorageSlot = \<lambda>s. Inr [],
     cd_Status = \<lambda>x. if x = 2 then StatusActive else StatusOther x,
     cd_RawOf = \<lambda>s. Inr s, cd_RLPHeader = \<lambda>bs. Inr 0, cd_HeaderBeta = \<lambda>h. Inr [1, 2, 3]\<rparr>"

definition sample_timer :: "int timer" where
  "sample_timer = \<lparr>tm_now = \<lambda>w. w, tm_sleep = \<lambda>d w. w + d\<rparr>"

definition sample_lru :: "(u32 \<times> FetchResult) list lru" where
  "sample_lru = \<lparr>lru_Get = \<lambda>c n. (map_of c n, c), lru_Add = \<lambda>c n r. (n, r) # c\<rparr>"

definition sample_cfg :: chain_config where
  "sample_cfg = \<lparr>cfg_SeederInterval = 8640, cfg_EpochLength = 180, cfg_BlockInterval = 10\<rparr>"

text \<open>A fetcher for a chain where Hayabusa forks and is active at the given blocks.\<close>

definition sample_fetcher :: "u32 \<Rightarrow> u32 \<Rightarrow> (int, (u32 \<times> FetchResult) list) fetcher" where
  "sample_fetcher forked active = \<lparr>bf_cfg = sample_cfg, bf_codec = sample_codec, bf_timer = sample_timer,
     bf_client = sample_client, bf_lru = sample_lru, bf_hayabusaForkedBlock = forked, bf_hayabusaActiveBlock = active\<rparr>"

text \<open>
  A database: the points handed over and the points stored. In the background any of the points handed over
  arrive, in any order and any number of times; one of the same measurement, tags and time as a stored point
  replaces those of its fields that it has itself.
\<close>

type_synonym sample_store = "point list \<times> point list"

definition same_series :: "point \<Rightarrow> point \<Rightarrow> bool" where
  "same_series p q \<longleftrightarrow> pt_Measurement p = pt_Measurement q \<and> pt_Tags p = pt_Tags q \<and> pt_Time p = pt_Time q"

definition arrive :: "point \<Rightarrow> point list \<Rightarrow> point list" where
  "arrive p ps =
     p\<lparr>pt_Fields := pt_Fields p @ filter (\<lambda>(k, v). k \<notin> fst ` set (pt_Fields p)) (concat (map pt_Fields (filter (same_series p) ps)))\<rparr> #
     filter (\<lambda>q. \<not> same_series p q) ps"

definition sample_db :: "sample_store database" where
  "sample_db = \<lparr>db_Delete = \<lambda>start stop cs d. (None, (fst d, filter (\<lambda>p. \<not> deleted_by start stop cs p) (snd d))),
     db_WritePoint = \<lambda>p d. (fst d @ [p], snd d),
     db_background = \<lambda>d d'. fst d' = fst d \<and> (\<exists>batch. set batch \<subseteq> set (fst d) \<and> snd d' = fold arrive batch (snd d)),
     db_handed = fst, db_points = \<lambda>d. set (snd d)\<rparr>"

section \<open>The laws hold of it\<close>

lemma sample_lru_laws: "lru_laws sample_lru"
  by (auto simp: lru_laws_def sample_lru_def)

lemma fields_arrive: "fields_in (set (arrive p ps)) \<subseteq> fields_in (insert p (set ps))"
proof -
  have "(m, k, v) \<in> fields_in (insert p (set ps))" if x: "(m, k, v) \<in> fields_in (set (arrive p ps))" for m k v
  proof -
    obtain q where q: "q \<in> set (arrive p ps)" "pt_Measurement q = m" "(k, v) \<in> set (pt_Fields q)"
      using x unfolding fields_in_iff by blast
    show ?thesis
    proof (cases "q \<in> set ps")
      case True
      with q show ?thesis unfolding fields_in_iff by blast
    next
      case False
      with q(1,3) have "(k, v) \<in> set (pt_Fields p) \<or> (\<exists>r \<in> set ps. same_series p r \<and> (k, v) \<in> set (pt_Fields r))"
        and "pt_Measurement q = pt_Measurement p"
        by (auto simp: arrive_def)
      then show ?thesis unfolding fields_in_iff same_series_def q(2) [symmetric] by (metis insertCI)
    qed
  qed
  then show ?thesis by (intro subsetI) (metis prod_cases3)
qed

lemma fields_arrive_all: "fields_in (set (fold arrive batch ps)) \<subseteq> fields_in (set ps \<union> set batch)"
proof (induction batch arbitrary: ps)
  case (Cons p batch)
  have "fields_in (set (fold arrive batch (arrive p ps))) \<subseteq> fields_in (insert p (set ps)) \<union> fields_in (set batch)"
    using Cons.IH [of "arrive p ps"] fields_arrive [of p ps] unfolding fields_in_Un by blast
  also have "\<dots> = fields_in (set ps \<union> set (p # batch))"
    by (simp flip: fields_in_Un)
  finally show ?case by simp
qed simp

lemma sample_db_laws: "db_laws sample_db"
proof -
  have "fields_in (set (fold arrive batch ps)) \<subseteq> fields_in (set ps \<union> H)" if "set batch \<subseteq> H" for batch ps H
    using fields_arrive_all [of batch ps] fields_in_mono [OF that] by (auto simp: fields_in_Un)
  then show ?thesis by (auto simp: db_laws_def sample_db_def)
qed

lemma sample_db_simps [simp]:
  "db_handed sample_db d = fst d" "db_points sample_db d = set (snd d)"
  "WritePoints sample_db ps d = (fst d @ ps, snd d)"
proof -
  show "WritePoints sample_db ps d = (fst d @ ps, snd d)"
    by (induction ps arbitrary: d) (simp_all add: WritePoints_def sample_db_def)
qed (simp_all add: sample_db_def)

lemma sample_fetcher_simps [simp]:
  "bf_cfg (sample_fetcher f a) = sample_cfg" "bf_codec (sample_fetcher f a) = sample_codec"
  "bf_timer (sample_fetcher f a) = sample_timer" "bf_client (sample_fetcher f a) = sample_client"
  "bf_lru (sample_fetcher f a) = sample_lru"
  "bf_hayabusaForkedBlock (sample_fetcher f a) = f" "bf_hayabusaActiveBlock (sample_fetcher f a) = a"
  by (simp_all add: sample_fetcher_def)

lemma sample_Get_empty [simp]: "lru_Get sample_lru [] n = (None, [])"
  by (simp add: sample_lru_def)

lemma best_chain_Number: "best_chain n = Some b \<Longrightarrow> blk_Number b = n"
  unfolding best_chain_def by (drule find_Some_set) simp

lemma sample_node_numbers: "node_numbers sample_client"
  by (auto simp: node_numbers_def sample_client_def sample_answer_def found_def best_chain_Number
      split: option.splits)

lemma sample_cache_inv: "cache_inv (sample_fetcher f a) ([], w)"
  by (simp add: cache_inv_def sample_lru_laws sample_node_numbers)

lemma sample_seed:
  "id_uint32 (Bytes32 i) = 0 \<Longrightarrow> fetchSeed sample_cfg cd cl (Bytes32 i) w = (Ok [], w)"
  by (simp add: fetchSeed_def seed_number_def sample_cfg_def)

text \<open>Before Hayabusa and past the last authority block, only the block itself is fetched.\<close>

lemma sample_attempt:
  assumes "best_chain n = Some b" and "id_uint32 (blk_ParentID b) = 0" and "n < f" and "a < n"
    and "(n + 1) mod 8640 \<noteq> 0"
  shows "fetch_attempt (sample_fetcher f a) n w =
    (Ok \<lparr>fr_Block = b, fr_Seed = [], fr_Staker = None, fr_AuthNodes = [], fr_FutureSeed = []\<rparr>, w)"
proof -
  have e: "cl_ExpandedBlock sample_client (RevNumber n) w = (Inr b, w)"
    using assms(1) by (simp add: sample_client_def sample_answer_def found_def)
  have s: "fetchSeed sample_cfg sample_codec sample_client (blk_ParentID b) w = (Ok [], w)"
    using assms(2) by (cases "blk_ParentID b") (simp add: sample_seed)
  have m: "(n + 1) mod cfg_SeederInterval sample_cfg \<noteq> 0" using assms(5) by (simp add: sample_cfg_def)
  show ?thesis
    unfolding fetch_attempt_def sample_fetcher_simps e
    using assms(3,4) m by (simp add: s callW_def wrapW_def wrap_err_def linorder_not_le [THEN iffD2])
qed

lemma sample_FetchBlock:
  assumes "best_chain n = Some b" and "id_uint32 (blk_ParentID b) = 0" and "n < f" and "a < n"
    and "(n + 1) mod 8640 \<noteq> 0" and "map_of c n = None"
  shows "FetchBlock (sample_fetcher f a) n (c, w) =
    (let r = \<lparr>fr_Block = b, fr_Seed = [], fr_Staker = None, fr_AuthNodes = [], fr_FutureSeed = []\<rparr> in
     Some (Ok r, ((n, r) # c, w)))"
  using assms(6)
  by (simp add: FetchBlock_def RetryIncreasing_def RetryIncreasing_loop.simps sample_attempt [OF assms(1-5)]
      sample_lru_def Let_def)

lemma sample_cached:
  "map_of c n = Some r \<Longrightarrow> FetchBlock (sample_fetcher f a) n (c, w) = Some (Ok r, (c, w))"
  by (simp add: FetchBlock_def sample_lru_def)

lemma bindW_world: "snd m = w \<Longrightarrow> (\<And>x. snd (f x w) = w) \<Longrightarrow> snd (bindW m f) = w"
  by (cases m; cases "fst m") auto

lemma sample_world:
  "snd (cl_ExpandedBlock sample_client r w) = w"
  "snd (fetchSeed cfg cd sample_client h w) = w"
  "snd (FetchValidations cd sample_client h w) = w"
  "snd (FetchAuthorityNodes cd sample_client h w) = w"
proof -
  show "snd (cl_ExpandedBlock sample_client r w) = w" by (simp add: sample_client_def)
  show "snd (fetchSeed cfg cd sample_client h w) = w"
    by (auto simp: fetchSeed_def callW_def wrapW_def sample_client_def split: option.split intro!: bindW_world)
  show "snd (FetchValidations cd sample_client h w) = w"
    by (simp add: FetchValidations_def fetchStakerInfo_def sample_client_def Let_def split: sum.split)
  show "snd (FetchAuthorityNodes cd sample_client h w) = w"
    by (simp add: FetchAuthorityNodes_def sample_client_def)
qed

lemma sample_clock: "clock_laws sample_timer (fetch_attempt (sample_fetcher f a) n)"
proof -
  have "snd (fetch_attempt (sample_fetcher f a) n w) = w" for w
    unfolding fetch_attempt_def
    by (intro bindW_world) (auto simp: callW_def wrapW_def sample_world intro!: bindW_world)
  then show ?thesis by (simp add: clock_laws_def sample_timer_def)
qed

end
