(* ===== verification/Channel.thy ===== *)
theory Channel
  imports Prelude
begin

text \<open>
  Buffered Go channels: a FIFO buffer with a capacity that can be closed once. Sending blocks
  while the buffer is full and panics once the channel is closed; receiving blocks while it is
  empty and reports a closed channel only after the buffer was drained.
\<close>

record 'a chan =
  ch_cap :: nat
  ch_buf :: "'a list"
  ch_closed :: bool

definition make_chan :: "nat \<Rightarrow> 'a chan" where
  "make_chan n = \<lparr>ch_cap = n, ch_buf = [], ch_closed = False\<rparr>"

text \<open>The send and the receive that can happen now, if any.\<close>

definition can_send :: "'a chan \<Rightarrow> bool" where
  "can_send c \<longleftrightarrow> \<not> ch_closed c \<and> length (ch_buf c) < ch_cap c"

definition chan_send :: "'a chan \<Rightarrow> 'a \<Rightarrow> 'a chan option" where
  "chan_send c x = (if can_send c then Some (c\<lparr>ch_buf := ch_buf c @ [x]\<rparr>) else None)"

definition chan_recv :: "'a chan \<Rightarrow> ('a \<times> 'a chan) option" where
  "chan_recv c = (case ch_buf c of [] \<Rightarrow> None | x # xs \<Rightarrow> Some (x, c\<lparr>ch_buf := xs\<rparr>))"

text \<open>The receive \<open>x, ok := <-c\<close> yields \<open>ok = false\<close>.\<close>

definition chan_drained :: "'a chan \<Rightarrow> bool" where
  "chan_drained c \<longleftrightarrow> ch_closed c \<and> ch_buf c = []"

definition chan_close :: "'a chan \<Rightarrow> 'a chan" where
  "chan_close c = c\<lparr>ch_closed := True\<rparr>"

text \<open>What senders and receivers rely on.\<close>

locale fifo =
  fixes send :: "'c \<Rightarrow> 'a \<Rightarrow> 'c option"
    and recv :: "'c \<Rightarrow> ('a \<times> 'c) option"
    and contents :: "'c \<Rightarrow> 'a list"
    and bound :: "'c \<Rightarrow> nat"
  assumes send_contents: "send c x = Some c' \<Longrightarrow> contents c' = contents c @ [x]"
    and send_bound: "send c x = Some c' \<Longrightarrow> bound c' = bound c \<and> length (contents c') \<le> bound c"
    and recv_contents: "recv c = Some (x, c') \<Longrightarrow> contents c = x # contents c'"
    and recv_bound: "recv c = Some (x, c') \<Longrightarrow> bound c' = bound c"
    and recv_blocked: "recv c = None \<longleftrightarrow> contents c = []"
begin

lemma send_mset: "send c x = Some c' \<Longrightarrow> mset (contents c') = add_mset x (mset (contents c))"
  by (simp add: send_contents)

lemma recv_mset: "recv c = Some (x, c') \<Longrightarrow> mset (contents c) = add_mset x (mset (contents c'))"
  by (simp add: recv_contents)

lemma recv_Some_bound:
  "recv c = Some (x, c') \<Longrightarrow> length (contents c) \<le> bound c \<Longrightarrow> length (contents c') \<le> bound c'"
  by (simp add: recv_contents recv_bound)

end

interpretation chan: fifo chan_send chan_recv ch_buf ch_cap
proof
  fix c c' :: "'a chan" and x
  show "chan_send c x = Some c' \<Longrightarrow> ch_buf c' = ch_buf c @ [x]"
    by (auto simp: chan_send_def split: if_splits)
  show "chan_send c x = Some c' \<Longrightarrow> ch_cap c' = ch_cap c \<and> length (ch_buf c') \<le> ch_cap c"
    by (auto simp: chan_send_def can_send_def split: if_splits)
  show "chan_recv c = Some (x, c') \<Longrightarrow> ch_buf c = x # ch_buf c'"
    by (auto simp: chan_recv_def split: list.splits)
  show "chan_recv c = Some (x, c') \<Longrightarrow> ch_cap c' = ch_cap c"
    by (auto simp: chan_recv_def split: list.splits)
  show "chan_recv c = None \<longleftrightarrow> ch_buf c = []"
    by (auto simp: chan_recv_def split: list.splits)
qed

lemma chan_send_closed: "chan_send c x = Some c' \<Longrightarrow> \<not> ch_closed c \<and> \<not> ch_closed c'"
  by (auto simp: chan_send_def can_send_def split: if_splits)

lemma chan_recv_closed: "chan_recv c = Some (x, c') \<Longrightarrow> ch_closed c' = ch_closed c"
  by (auto simp: chan_recv_def split: list.splits)

lemma chan_close_simps [simp]:
  "ch_buf (chan_close c) = ch_buf c" "ch_cap (chan_close c) = ch_cap c" "ch_closed (chan_close c)"
  by (simp_all add: chan_close_def)

section \<open>Workers in a list\<close>

text \<open>Replacing one worker changes what the workers hold by that worker's part.\<close>

lemma sum_mset_update:
  fixes f :: "'a \<Rightarrow> 'b multiset"
  assumes "i < length ws"
  shows "sum_list (map f (ws[i := w])) + f (ws ! i) = sum_list (map f ws) + f w"
  using assms
proof (induction ws arbitrary: i)
  case Nil
  then show ?case by simp
next
  case (Cons x xs)
  show ?case
  proof (cases i)
    case 0
    then show ?thesis by (simp add: ac_simps)
  next
    case (Suc j)
    with Cons have "sum_list (map f (xs[j := w])) + f (xs ! j) = sum_list (map f xs) + f w" by simp
    with Suc show ?thesis by (simp add: add.assoc)
  qed
qed

lemma sum_nat_update:
  fixes f :: "'a \<Rightarrow> nat"
  assumes "i < length ws"
  shows "sum_list (map f (ws[i := w])) + f (ws ! i) = sum_list (map f ws) + f w"
  using assms
proof (induction ws arbitrary: i)
  case (Cons x xs)
  then show ?case by (cases i) (auto simp: ac_simps)
qed simp

end
