(* ===== verification/BackwardSyncer.thy ===== *)
theory BackwardSyncer
  imports Samples Channel
begin

text \<open>
  \<^verbatim>\<open>pubsub/backward_syncer.go\<close>: a producer counts down from the head, a hundred workers
  take block numbers from a channel, process them and send the events. The goroutines are a
  step relation: in every state any of them may move. What a worker's \<open>ProcessBlock\<close> may
  return is the relation \<open>may\<close>, which hides the state of the shared source.
\<close>

definition backwardWorkers :: nat where
  "backwardWorkers = 100"

section \<open>NewBackwardSyncer\<close>

definition backward_minBlock :: "u32 \<Rightarrow> u32 \<Rightarrow> u32" where
  "backward_minBlock head backSyncBlocks = (if backSyncBlocks < head then head - backSyncBlocks else 0)"

text \<open>
  A worker waits for a number, processes one, or waits to send the event it made; it is done
  once it returned. The log keeps the events sent to \<open>blockChan\<close> with the number they were
  made for, and the numbers whose processing failed.
\<close>

datatype bworker = BWaiting | BProcessing u32 | BSending u32 BlockEvent | BDone

record bsync =
  bs_minBlock :: u32
  bs_blockNum :: u32
  bs_producing :: bool
  bs_workChan :: "u32 chan"
  bs_workers :: "bworker list"
  bs_cancelled :: bool
  bs_sent :: "(u32 \<times> BlockEvent) list"
  bs_failed :: "u32 list"
  bs_crashed :: bool

definition NewBackwardSyncer :: "u32 \<Rightarrow> u32 \<Rightarrow> bsync" where
  "NewBackwardSyncer head backSyncBlocks =
     \<lparr>bs_minBlock = backward_minBlock head backSyncBlocks, bs_blockNum = head, bs_producing = True,
      bs_workChan = make_chan (backwardWorkers * 2), bs_workers = replicate backwardWorkers BWaiting,
      bs_cancelled = False, bs_sent = [], bs_failed = [], bs_crashed = False\<rparr>"

section \<open>Start and worker\<close>

text \<open>The guard of the producer's loop.\<close>

definition more_work :: "bsync \<Rightarrow> bool" where
  "more_work s \<longleftrightarrow> bs_minBlock s < bs_blockNum s \<and> 0 < bs_blockNum s"

definition set_worker :: "nat \<Rightarrow> bworker \<Rightarrow> bsync \<Rightarrow> bsync" where
  "set_worker i v s = s\<lparr>bs_workers := (bs_workers s)[i := v]\<rparr>"

definition worker_at :: "bsync \<Rightarrow> nat \<Rightarrow> bworker \<Rightarrow> bool" where
  "worker_at s i v \<longleftrightarrow> i < length (bs_workers s) \<and> bs_workers s ! i = v"

text \<open>
  \<open>sent\<close> hands the event to \<open>blockChan\<close>, which is bounded and shared with the forward syncer: whether it has
  room, or a receiver, is not a matter of this relation (\<open>Syncing\<close> takes the step only when there is room). A
  property that something can move therefore says when this may be the step.
\<close>

inductive bstep :: "(u32 \<Rightarrow> BlockEvent outcome \<Rightarrow> bool) \<Rightarrow> bsync \<Rightarrow> bsync \<Rightarrow> bool" for may where
  produce: "\<lbrakk>\<not> bs_crashed s; bs_producing s; more_work s; chan_send (bs_workChan s) (bs_blockNum s) = Some c\<rbrakk>
    \<Longrightarrow> bstep may s (s\<lparr>bs_workChan := c, bs_blockNum := bs_blockNum s - 1\<rparr>)"
| produce_end: "\<lbrakk>\<not> bs_crashed s; bs_producing s; \<not> more_work s\<rbrakk>
    \<Longrightarrow> bstep may s (s\<lparr>bs_producing := False, bs_workChan := chan_close (bs_workChan s)\<rparr>)"
| produce_cancelled: "\<lbrakk>\<not> bs_crashed s; bs_producing s; more_work s; bs_cancelled s\<rbrakk>
    \<Longrightarrow> bstep may s (s\<lparr>bs_producing := False, bs_workChan := chan_close (bs_workChan s)\<rparr>)"
| cancel: "\<lbrakk>\<not> bs_crashed s; \<not> bs_cancelled s\<rbrakk> \<Longrightarrow> bstep may s (s\<lparr>bs_cancelled := True\<rparr>)"
| take: "\<lbrakk>\<not> bs_crashed s; worker_at s i BWaiting; chan_recv (bs_workChan s) = Some (n, c)\<rbrakk>
    \<Longrightarrow> bstep may s (set_worker i (BProcessing n) (s\<lparr>bs_workChan := c\<rparr>))"
| finish: "\<lbrakk>\<not> bs_crashed s; worker_at s i BWaiting; chan_drained (bs_workChan s)\<rbrakk>
    \<Longrightarrow> bstep may s (set_worker i BDone s)"
| quit: "\<lbrakk>\<not> bs_crashed s; worker_at s i BWaiting; bs_cancelled s\<rbrakk>
    \<Longrightarrow> bstep may s (set_worker i BDone s)"
| processed: "\<lbrakk>\<not> bs_crashed s; worker_at s i (BProcessing n); may n (Ok e)\<rbrakk>
    \<Longrightarrow> bstep may s (set_worker i (BSending n e) s)"
| failed: "\<lbrakk>\<not> bs_crashed s; worker_at s i (BProcessing n); may n (Err err)\<rbrakk>
    \<Longrightarrow> bstep may s (set_worker i BWaiting (s\<lparr>bs_failed := bs_failed s @ [n]\<rparr>))"
| panicked: "\<lbrakk>\<not> bs_crashed s; worker_at s i (BProcessing n); may n (Panic p)\<rbrakk>
    \<Longrightarrow> bstep may s (s\<lparr>bs_crashed := True\<rparr>)"
| sent: "\<lbrakk>\<not> bs_crashed s; worker_at s i (BSending n e)\<rbrakk>
    \<Longrightarrow> bstep may s (set_worker i BWaiting (s\<lparr>bs_sent := bs_sent s @ [(n, e)]\<rparr>))"
| send_cancelled: "\<lbrakk>\<not> bs_crashed s; worker_at s i (BSending n e); bs_cancelled s\<rbrakk>
    \<Longrightarrow> bstep may s (set_worker i BDone s)"

inductive breach :: "(u32 \<Rightarrow> BlockEvent outcome \<Rightarrow> bool) \<Rightarrow> u32 \<Rightarrow> u32 \<Rightarrow> bsync \<Rightarrow> bool"
  for may head backSyncBlocks where
  start: "breach may head backSyncBlocks (NewBackwardSyncer head backSyncBlocks)"
| step: "breach may head backSyncBlocks s \<Longrightarrow> bstep may s t \<Longrightarrow> breach may head backSyncBlocks t"

text \<open>\<open>Start\<close> returns when the producer closed the channel and every worker returned.\<close>

definition bfinished :: "bsync \<Rightarrow> bool" where
  "bfinished s \<longleftrightarrow> \<not> bs_producing s \<and> (\<forall>v \<in> set (bs_workers s). v = BDone)"

section \<open>Accounting of block numbers\<close>

text \<open>The numbers above \<open>lo\<close> up to \<open>hi\<close>.\<close>

definition span :: "u32 \<Rightarrow> u32 \<Rightarrow> u32 multiset" where
  "span lo hi = mset (map of_nat [unat lo + 1..<unat hi + 1])"

lemma span_empty: "hi \<le> lo \<Longrightarrow> span lo hi = {#}"
  by (simp add: span_def word_le_nat_alt)

lemma span_step:
  assumes "lo < hi"
  shows "span lo hi = add_mset hi (span lo (hi - 1))"
proof -
  have "unat lo < unat hi" using assms by (simp add: word_less_nat_alt)
  moreover from this have "unat (hi - 1) + 1 = unat hi" by (simp add: unat_sub_if_size)
  ultimately show ?thesis by (simp add: span_def)
qed

lemma count_span: "count (span lo hi) n = (if lo < n \<and> n \<le> hi then 1 else 0)"
proof -
  have "distinct (map (of_nat :: nat \<Rightarrow> u32) [unat lo + 1..<unat hi + 1])"
  proof -
    have "inj_on (of_nat :: nat \<Rightarrow> u32) {unat lo + 1..<unat hi + 1}"
    proof (rule inj_onI)
      fix x y
      assume xy: "x \<in> {unat lo + 1..<unat hi + 1}" "y \<in> {unat lo + 1..<unat hi + 1}"
        and eq: "(of_nat x :: u32) = of_nat y"
      have "x < 2 ^ 32" "y < 2 ^ 32" using xy unsigned_less [of hi, where ?'a = nat] by auto
      with eq show "x = y" by (simp add: of_nat_inverse word_of_nat_eq_iff take_bit_nat_eq_self)
    qed
    then show ?thesis by (simp add: distinct_map del: upt_Suc)
  qed
  moreover have "n \<in> set (map of_nat [unat lo + 1..<unat hi + 1]) \<longleftrightarrow> lo < n \<and> n \<le> hi"
  proof
    assume "n \<in> set (map of_nat [unat lo + 1..<unat hi + 1])"
    then obtain k where k: "n = of_nat k" "unat lo < k" "k \<le> unat hi"
      by (auto simp del: upt_Suc)
    then have "unat n = k" using unsigned_less [of hi, where ?'a = nat]
      by (simp add: unat_of_nat take_bit_nat_eq_self)
    with k show "lo < n \<and> n \<le> hi" by (simp add: word_less_nat_alt word_le_nat_alt)
  next
    assume "lo < n \<and> n \<le> hi"
    then show "n \<in> set (map of_nat [unat lo + 1..<unat hi + 1])"
      by (auto simp: word_less_nat_alt word_le_nat_alt simp del: upt_Suc intro!: image_eqI [of _ _ "unat n"])
  qed
  ultimately show ?thesis unfolding span_def by (metis count_eq_zero_iff distinct_count_atmost_1 set_mset_mset)
qed

fun holds :: "bworker \<Rightarrow> u32 multiset" where
  "holds (BProcessing n) = {#n#}"
| "holds (BSending n e) = {#n#}"
| "holds _ = {#}"

definition held :: "bsync \<Rightarrow> u32 multiset" where
  "held s = sum_list (map holds (bs_workers s))"

definition accounted_numbers :: "bsync \<Rightarrow> u32 multiset" where
  "accounted_numbers s = span (bs_minBlock s) (bs_blockNum s) + mset (ch_buf (bs_workChan s)) + held s
     + mset (map fst (bs_sent s)) + mset (bs_failed s)"

lemma held_set_worker:
  "worker_at s i v \<Longrightarrow> held (set_worker i v' s) + holds v = held s + holds v'"
  unfolding worker_at_def held_def set_worker_def by (auto dest!: sum_mset_update [where f = holds and w = v'])

lemma set_worker_simps [simp]:
  "bs_minBlock (set_worker i v s) = bs_minBlock s"
  "bs_blockNum (set_worker i v s) = bs_blockNum s"
  "bs_producing (set_worker i v s) = bs_producing s"
  "bs_workChan (set_worker i v s) = bs_workChan s"
  "bs_cancelled (set_worker i v s) = bs_cancelled s"
  "bs_sent (set_worker i v s) = bs_sent s"
  "bs_failed (set_worker i v s) = bs_failed s"
  "bs_crashed (set_worker i v s) = bs_crashed s"
  "bs_workers (set_worker i v s) = (bs_workers s)[i := v]"
  by (simp_all add: set_worker_def)

section \<open>Invariants\<close>

text \<open>
  Numbers are neither made up nor duplicated; as long as nobody cancels, none is lost. The
  channel is closed exactly when the producer stopped; a worker has returned only after a
  cancellation or once the channel was drained.
\<close>

definition bs_inv :: "u32 \<Rightarrow> u32 \<Rightarrow> bsync \<Rightarrow> bool" where
  "bs_inv head backSyncBlocks s \<longleftrightarrow>
     bs_minBlock s = backward_minBlock head backSyncBlocks \<and>
     accounted_numbers s \<subseteq># span (bs_minBlock s) head \<and>
     (\<not> bs_cancelled s \<longrightarrow> accounted_numbers s = span (bs_minBlock s) head) \<and>
     (ch_closed (bs_workChan s) \<longleftrightarrow> \<not> bs_producing s) \<and>
     ch_cap (bs_workChan s) = backwardWorkers * 2 \<and>
     length (bs_workers s) = backwardWorkers \<and>
     (\<not> bs_producing s \<longrightarrow> \<not> bs_cancelled s \<longrightarrow> \<not> more_work s) \<and>
     (BDone \<in> set (bs_workers s) \<longrightarrow> bs_cancelled s \<or> chan_drained (bs_workChan s))"

definition events_from :: "(u32 \<Rightarrow> BlockEvent outcome \<Rightarrow> bool) \<Rightarrow> bsync \<Rightarrow> bool" where
  "events_from may s \<longleftrightarrow> (\<forall>(n, e) \<in> set (bs_sent s). may n (Ok e)) \<and>
     (\<forall>n e. BSending n e \<in> set (bs_workers s) \<longrightarrow> may n (Ok e))"

lemma worker_at_set: "worker_at s i v \<Longrightarrow> v \<in> set (bs_workers s)"
  by (auto simp: worker_at_def)

lemma set_worker_subset: "set ((bs_workers s)[i := v]) \<subseteq> insert v (set (bs_workers s))"
  by (rule set_update_subset_insert)

lemma bstep_events_from: "bstep may s t \<Longrightarrow> events_from may s \<Longrightarrow> events_from may t"
  by (induction rule: bstep.induct)
    (fastforce simp: events_from_def dest: worker_at_set set_worker_subset [THEN subsetD])+

lemma accounted_produce:
  assumes "more_work s" and "chan_send (bs_workChan s) (bs_blockNum s) = Some c"
  shows "accounted_numbers (s\<lparr>bs_workChan := c, bs_blockNum := bs_blockNum s - 1\<rparr>) = accounted_numbers s"
  using assms chan.send_mset [OF assms(2)]
  by (simp add: accounted_numbers_def held_def more_work_def span_step)

lemma accounted_take:
  assumes "worker_at s i BWaiting" and "chan_recv (bs_workChan s) = Some (n, c)"
  shows "accounted_numbers (set_worker i (BProcessing n) (s\<lparr>bs_workChan := c\<rparr>)) = accounted_numbers s"
proof -
  have "worker_at (s\<lparr>bs_workChan := c\<rparr>) i BWaiting" using assms(1) by (simp add: worker_at_def)
  from held_set_worker [OF this, of "BProcessing n"] show ?thesis
    using chan.recv_mset [OF assms(2)] by (simp add: accounted_numbers_def held_def)
qed

lemma accounted_worker:
  assumes "worker_at s i v"
  shows "accounted_numbers (set_worker i v' s) + holds v = accounted_numbers s + holds v'"
  using held_set_worker [OF assms, of v'] by (simp add: accounted_numbers_def ac_simps)

lemma accounted_failed:
  assumes "worker_at s i (BProcessing n)"
  shows "accounted_numbers (set_worker i BWaiting (s\<lparr>bs_failed := bs_failed s @ [n]\<rparr>)) = accounted_numbers s"
proof -
  let ?s = "s\<lparr>bs_failed := bs_failed s @ [n]\<rparr>"
  have "worker_at ?s i (BProcessing n)" using assms by (simp add: worker_at_def)
  from accounted_worker [OF this, of BWaiting]
  have "accounted_numbers (set_worker i BWaiting ?s) + {#n#} = accounted_numbers s + {#n#}"
    by (simp add: accounted_numbers_def held_def ac_simps)
  then show ?thesis by simp
qed

lemma accounted_sent:
  assumes "worker_at s i (BSending n e)"
  shows "accounted_numbers (set_worker i BWaiting (s\<lparr>bs_sent := bs_sent s @ [(n, e)]\<rparr>)) = accounted_numbers s"
proof -
  let ?s = "s\<lparr>bs_sent := bs_sent s @ [(n, e)]\<rparr>"
  have "worker_at ?s i (BSending n e)" using assms by (simp add: worker_at_def)
  from accounted_worker [OF this, of BWaiting]
  have "accounted_numbers (set_worker i BWaiting ?s) + {#n#} = accounted_numbers s + {#n#}"
    by (simp add: accounted_numbers_def held_def ac_simps)
  then show ?thesis by simp
qed

lemma accounted_other [simp]:
  "accounted_numbers (s\<lparr>bs_producing := False, bs_workChan := chan_close (bs_workChan s)\<rparr>) = accounted_numbers s"
  "accounted_numbers (s\<lparr>bs_cancelled := x\<rparr>) = accounted_numbers s"
  "accounted_numbers (s\<lparr>bs_crashed := y\<rparr>) = accounted_numbers s"
  by (simp_all add: accounted_numbers_def held_def)

lemma BDone_update:
  "BDone \<in> set ((bs_workers s)[i := v]) \<Longrightarrow> v \<noteq> BDone \<Longrightarrow> BDone \<in> set (bs_workers s)"
  using set_worker_subset [of s i v] by auto

lemma bs_inv_init: "bs_inv head backSyncBlocks (NewBackwardSyncer head backSyncBlocks)"
proof -
  have "sum_list (map holds (replicate k BWaiting)) = {#}" for k
    by (induction k) auto
  then show ?thesis
    by (simp add: bs_inv_def NewBackwardSyncer_def accounted_numbers_def held_def make_chan_def
        backwardWorkers_def)
qed

lemma drained_produce: "chan_recv c = Some (n, c') \<Longrightarrow> \<not> chan_drained c"
  by (auto simp: chan_recv_def chan_drained_def)

lemma bs_inv_step: "bstep may s t \<Longrightarrow> bs_inv head backSyncBlocks s \<Longrightarrow> bs_inv head backSyncBlocks t"
proof (induction rule: bstep.induct)
  case (produce s c)
  then have "accounted_numbers (s\<lparr>bs_workChan := c, bs_blockNum := bs_blockNum s - 1\<rparr>) = accounted_numbers s"
    by (intro accounted_produce)
  with produce chan_send_closed [OF produce(4)] chan.send_bound [OF produce(4)] show ?case
    by (auto simp: bs_inv_def chan_drained_def)
next
  case (produce_end s)
  then show ?case by (auto simp: bs_inv_def more_work_def chan_drained_def)
next
  case (produce_cancelled s)
  then show ?case by (auto simp: bs_inv_def)
next
  case (cancel s)
  then show ?case by (auto simp: bs_inv_def)
next
  case (take s i n c)
  have "accounted_numbers (set_worker i (BProcessing n) (s\<lparr>bs_workChan := c\<rparr>)) = accounted_numbers s"
    using take(2,3) by (rule accounted_take)
  with take chan_recv_closed [OF take(3)] chan.recv_bound [OF take(3)] drained_produce [OF take(3)]
  show ?case by (auto simp: bs_inv_def more_work_def dest!: BDone_update)
next
  case (finish s i)
  have "accounted_numbers (set_worker i BDone s) = accounted_numbers s"
    using accounted_worker [OF finish(2), of BDone] by simp
  with finish show ?case by (auto simp: bs_inv_def more_work_def)
next
  case (quit s i)
  have "accounted_numbers (set_worker i BDone s) = accounted_numbers s"
    using accounted_worker [OF quit(2), of BDone] by simp
  with quit show ?case by (auto simp: bs_inv_def more_work_def)
next
  case (processed s i n e)
  have "accounted_numbers (set_worker i (BSending n e) s) = accounted_numbers s"
    using accounted_worker [OF processed(2), of "BSending n e"] by simp
  with processed show ?case by (auto simp: bs_inv_def more_work_def dest!: BDone_update)
next
  case (failed s i n err)
  note eq = accounted_failed [OF failed(2)]
  from failed show ?case by (auto simp: bs_inv_def more_work_def eq dest!: BDone_update)
next
  case (panicked s i n p)
  then show ?case by (auto simp: bs_inv_def more_work_def)
next
  case (sent s i n e)
  note eq = accounted_sent [OF sent(2)]
  from sent show ?case by (auto simp: bs_inv_def more_work_def eq dest!: BDone_update)
next
  case (send_cancelled s i n e)
  have "accounted_numbers (set_worker i BDone s) + {#n#} = accounted_numbers s"
    using accounted_worker [OF send_cancelled(2), of BDone] by simp
  then have "accounted_numbers (set_worker i BDone s) \<subseteq># accounted_numbers s"
    by (metis mset_subset_eq_add_left)
  with send_cancelled show ?case by (auto simp: bs_inv_def more_work_def)
qed

lemma breach_inv: "breach may head backSyncBlocks s \<Longrightarrow> bs_inv head backSyncBlocks s"
  by (induction rule: breach.induct) (auto intro: bs_inv_init bs_inv_step)

lemma breach_events: "breach may head backSyncBlocks s \<Longrightarrow> events_from may s"
proof (induction rule: breach.induct)
  case start
  show ?case by (simp add: events_from_def NewBackwardSyncer_def)
next
  case (step s t)
  then show ?case by (blast intro: bstep_events_from)
qed

section \<open>Every run ends\<close>

fun worker_weight :: "bworker \<Rightarrow> nat" where
  "worker_weight BDone = 0"
| "worker_weight BWaiting = 1"
| "worker_weight (BSending n e) = 2"
| "worker_weight (BProcessing n) = 3"

definition bmeasure :: "bsync \<Rightarrow> nat" where
  "bmeasure s = (if bs_producing s then 4 * (unat (bs_blockNum s) - unat (bs_minBlock s)) + 1 else 0)
     + 3 * length (ch_buf (bs_workChan s)) + sum_list (map worker_weight (bs_workers s))
     + (if bs_cancelled s then 0 else 1) + (if bs_crashed s then 0 else 1)"

lemma weight_set_worker:
  "worker_at s i v \<Longrightarrow> sum_list (map worker_weight ((bs_workers s)[i := v'])) + worker_weight v
     = sum_list (map worker_weight (bs_workers s)) + worker_weight v'"
  by (auto simp: worker_at_def dest!: sum_nat_update [where f = worker_weight and w = v'])

lemma bstep_measure: "bstep may s t \<Longrightarrow> bmeasure t < bmeasure s"
proof (induction rule: bstep.induct)
  case (produce s c)
  have "unat (bs_blockNum s - 1) = unat (bs_blockNum s) - 1" and "unat (bs_minBlock s) < unat (bs_blockNum s)"
    using produce(3) by (auto simp: more_work_def word_less_nat_alt unat_sub_if_size)
  with produce chan.send_contents [OF produce(4)] show ?case by (simp add: bmeasure_def)
next
  case (take s i n c)
  then show ?case using weight_set_worker [OF take(2), of "BProcessing n"] chan.recv_contents [OF take(3)]
    by (simp add: bmeasure_def)
next
  case (finish s i)
  then show ?case using weight_set_worker [OF finish(2), of BDone] by (simp add: bmeasure_def)
next
  case (quit s i)
  then show ?case using weight_set_worker [OF quit(2), of BDone] by (simp add: bmeasure_def)
next
  case (processed s i n e)
  then show ?case using weight_set_worker [OF processed(2), of "BSending n e"] by (simp add: bmeasure_def)
next
  case (failed s i n err)
  then show ?case using weight_set_worker [OF failed(2), of BWaiting] by (simp add: bmeasure_def)
next
  case (sent s i n e)
  then show ?case using weight_set_worker [OF sent(2), of BWaiting] by (simp add: bmeasure_def)
next
  case (send_cancelled s i n e)
  then show ?case using weight_set_worker [OF send_cancelled(2), of BDone] by (simp add: bmeasure_def)
qed (auto simp: bmeasure_def)

text \<open>A move that nobody's cancelling brings about, and that needs no receiver of events once the context is done.\<close>

definition bmoves :: "(u32 \<Rightarrow> BlockEvent outcome \<Rightarrow> bool) \<Rightarrow> bsync \<Rightarrow> bsync \<Rightarrow> bool" where
  "bmoves may s t \<longleftrightarrow> bstep may s t \<and> bs_cancelled t = bs_cancelled s \<and> (bs_sent t = bs_sent s \<or> \<not> bs_cancelled s)"

lemma bmovesI:
  "bstep may s t \<Longrightarrow> bs_cancelled t = bs_cancelled s \<Longrightarrow> bs_sent t = bs_sent s \<or> \<not> bs_cancelled s \<Longrightarrow> \<exists>t. bmoves may s t"
  unfolding bmoves_def by blast

lemma bmoves_intros:
  "\<lbrakk>\<not> bs_crashed s; bs_producing s; more_work s; chan_send (bs_workChan s) (bs_blockNum s) = Some c\<rbrakk> \<Longrightarrow> \<exists>t. bmoves may s t"
  "\<lbrakk>\<not> bs_crashed s; bs_producing s; \<not> more_work s\<rbrakk> \<Longrightarrow> \<exists>t. bmoves may s t"
  "\<lbrakk>\<not> bs_crashed s; bs_producing s; more_work s; bs_cancelled s\<rbrakk> \<Longrightarrow> \<exists>t. bmoves may s t"
  "\<lbrakk>\<not> bs_crashed s; worker_at s i BWaiting; chan_recv (bs_workChan s) = Some (n, c)\<rbrakk> \<Longrightarrow> \<exists>t. bmoves may s t"
  "\<lbrakk>\<not> bs_crashed s; worker_at s i BWaiting; chan_drained (bs_workChan s)\<rbrakk> \<Longrightarrow> \<exists>t. bmoves may s t"
proof -
  show "\<exists>t. bmoves may s t" if m: "\<not> bs_crashed s" "bs_producing s" "more_work s" "chan_send (bs_workChan s) (bs_blockNum s) = Some c"
    by (rule bmovesI [OF bstep.produce [OF m]]) simp_all
  show "\<exists>t. bmoves may s t" if m: "\<not> bs_crashed s" "bs_producing s" "\<not> more_work s"
    by (rule bmovesI [OF bstep.produce_end [OF m]]) simp_all
  show "\<exists>t. bmoves may s t" if m: "\<not> bs_crashed s" "bs_producing s" "more_work s" "bs_cancelled s"
    by (rule bmovesI [OF bstep.produce_cancelled [OF m]]) simp_all
  show "\<exists>t. bmoves may s t" if m: "\<not> bs_crashed s" "worker_at s i BWaiting" "chan_recv (bs_workChan s) = Some (n, c)"
    by (rule bmovesI [OF bstep.take [OF m]]) simp_all
  show "\<exists>t. bmoves may s t" if m: "\<not> bs_crashed s" "worker_at s i BWaiting" "chan_drained (bs_workChan s)"
    by (rule bmovesI [OF bstep.finish [OF m]]) simp_all
qed

lemma bmoves_processing:
  assumes "\<not> bs_crashed s" and "worker_at s i (BProcessing n)" and "may n r"
  shows "\<exists>t. bmoves may s t"
proof (cases r)
  case (Ok e)
  with assms show ?thesis by (intro bmovesI [OF bstep.processed [OF assms(1,2), of may e]]) simp_all
next
  case (Err e)
  with assms show ?thesis by (intro bmovesI [OF bstep.failed [OF assms(1,2), of may e]]) simp_all
next
  case (Panic p)
  with assms show ?thesis by (intro bmovesI [OF bstep.panicked [OF assms(1,2), of may p]]) simp_all
qed

text \<open>An event that is to be sent is sent to a receiver, or given up at a cancellation.\<close>

lemma bmoves_sending:
  assumes "\<not> bs_crashed s" and "worker_at s i (BSending n e)"
  shows "\<exists>t. bmoves may s t"
proof (cases "bs_cancelled s")
  case True
  then show ?thesis by (intro bmovesI [OF bstep.send_cancelled [OF assms True]]) simp_all
next
  case False
  then show ?thesis by (intro bmovesI [OF bstep.sent [OF assms]]) simp_all
qed

text \<open>A worker that has not returned can move, unless it waits on an open, empty channel.\<close>

lemma worker_moves:
  assumes "\<not> bs_crashed s" and "v \<in> set (bs_workers s)" and "v \<noteq> BDone" and "\<And>n. \<exists>r. may n r"
    and "ch_buf (bs_workChan s) \<noteq> [] \<or> ch_closed (bs_workChan s)"
  shows "\<exists>t. bmoves may s t"
proof -
  obtain i where i: "worker_at s i v" using assms(2) by (auto simp: worker_at_def in_set_conv_nth)
  show ?thesis
  proof (cases v)
    case BWaiting
    show ?thesis
    proof (cases "chan_recv (bs_workChan s)")
      case None
      then have "chan_drained (bs_workChan s)"
        using assms(5) by (simp add: chan.recv_blocked chan_drained_def)
      then show ?thesis using assms(1) i BWaiting by (auto intro: bmoves_intros(5))
    next
      case (Some x)
      then show ?thesis using assms(1) i BWaiting by (cases x) (auto intro: bmoves_intros(4))
    qed
  next
    case (BProcessing n)
    obtain r where "may n r" using assms(4) by blast
    then show ?thesis using assms(1) i BProcessing by (auto intro: bmoves_processing)
  next
    case (BSending n e)
    then show ?thesis using assms(1) i by (auto intro: bmoves_sending)
  qed (use assms(3) in simp)
qed

lemma bstep_progress:
  assumes "bs_inv head backSyncBlocks s" and "\<not> bs_crashed s" and "\<not> bfinished s" and "\<And>n. \<exists>r. may n r"
  shows "\<exists>t. bmoves may s t"
proof (cases "bs_producing s")
  case False
  then obtain v where "v \<in> set (bs_workers s)" "v \<noteq> BDone" using assms(3) by (auto simp: bfinished_def)
  then show ?thesis using assms False by (intro worker_moves) (auto simp: bs_inv_def)
next
  case producing: True
  show ?thesis
  proof (cases "more_work s")
    case False
    then show ?thesis using assms(2) producing by (auto intro: bmoves_intros(2))
  next
    case more: True
    show ?thesis
    proof (cases "chan_send (bs_workChan s) (bs_blockNum s)")
      case (Some c)
      then show ?thesis using assms(2) producing more by (auto intro: bmoves_intros(1))
    next
      case None
      then have full: "ch_buf (bs_workChan s) \<noteq> []"
        using assms(1) producing
        by (auto simp: chan_send_def can_send_def bs_inv_def backwardWorkers_def split: if_splits)
      show ?thesis
      proof (cases "bs_cancelled s")
        case True
        then show ?thesis using assms(2) producing more by (auto intro: bmoves_intros(3))
      next
        case False
        have "bs_workers s ! 0 \<in> set (bs_workers s)"
          using assms(1) by (simp add: bs_inv_def backwardWorkers_def)
        moreover have "BDone \<notin> set (bs_workers s)"
          using assms(1) False full by (auto simp: bs_inv_def chan_drained_def)
        ultimately show ?thesis using assms(2,4) full by (intro worker_moves) auto
      qed
    qed
  qed
qed

lemma held_finished: "bfinished s \<Longrightarrow> held s = {#}"
proof -
  have "\<forall>v \<in> set ws. v = BDone \<Longrightarrow> sum_list (map holds ws) = {#}" for ws
    by (induction ws) auto
  then show "bfinished s \<Longrightarrow> held s = {#}" by (simp add: bfinished_def held_def)
qed

lemma finished_remaining:
  assumes inv: "bs_inv head backSyncBlocks s" and fin: "bfinished s" and "\<not> bs_cancelled s"
  shows "mset (map fst (bs_sent s)) + mset (bs_failed s) = span (backward_minBlock head backSyncBlocks) head"
proof -
  have "bs_workers s ! 0 \<in> set (bs_workers s)" using inv by (simp add: bs_inv_def backwardWorkers_def)
  then have "BDone \<in> set (bs_workers s)" using fin by (auto simp: bfinished_def)
  then have "ch_buf (bs_workChan s) = []" using inv assms(3) by (auto simp: bs_inv_def chan_drained_def)
  moreover have "span (bs_minBlock s) (bs_blockNum s) = {#}"
    using inv fin assms(3) by (intro span_empty) (auto simp: bs_inv_def bfinished_def more_work_def not_less)
  ultimately show ?thesis
    using inv assms(3) held_finished [OF fin] by (simp add: bs_inv_def accounted_numbers_def)
qed

text \<open>Once the clock advances the service answers every request.\<close>

lemma service_answers:
  assumes "\<And>n. clock_laws (bf_timer b) (fetch_attempt b n)" and "cache_inv b s"
  shows "\<exists>r. service_may b n r"
proof -
  obtain r where "ProcessBlock (FetchBlock b) (bf_hayabusaForkedBlock b) (bf_hayabusaActiveBlock b) n s = Some r"
    using fetcher.ProcessBlock_returns [OF FetchBlock_returns [OF assms(1)]] by blast
  then have "service_may b n (fst r)" using assms(2) unfolding service_may_def by (intro exI [of _ s] exI [of _ "snd r"]) simp
  then show ?thesis by blast
qed

text \<open>The log of a run: no number twice, only numbers of the range, and proper events.\<close>

lemma backward_log_ok:
  assumes "breach (service_may b) head backSyncBlocks s"
  shows "distinct (map fst (bs_sent s)) \<and>
    (\<forall>(n, e) \<in> set (bs_sent s). backward_minBlock head backSyncBlocks < n \<and> n \<le> head \<and>
       event_ok (bf_hayabusaForkedBlock b) (bf_hayabusaActiveBlock b) n e)"
proof -
  have "accounted_numbers s \<subseteq># span (backward_minBlock head backSyncBlocks) head"
    using breach_inv [OF assms] unfolding bs_inv_def by metis
  then have sub: "mset (map fst (bs_sent s)) \<subseteq># span (backward_minBlock head backSyncBlocks) head"
    unfolding accounted_numbers_def
    by (meson mset_subset_eq_add_left mset_subset_eq_add_right subset_mset.order_trans)
  have le: "count (mset (map fst (bs_sent s))) n \<le> count (span (backward_minBlock head backSyncBlocks) head) n" for n
    using sub by (rule mset_subset_eq_count)
  have "distinct (map fst (bs_sent s))"
    unfolding distinct_count_atmost_1
  proof
    fix n
    show "count (mset (map fst (bs_sent s))) n = (if n \<in> set (map fst (bs_sent s)) then 1 else 0)"
      using le [of n] by (auto simp: count_span count_eq_zero_iff le_Suc_eq split: if_splits)
  qed
  moreover have "backward_minBlock head backSyncBlocks < n \<and> n \<le> head" if "(n, e) \<in> set (bs_sent s)" for n e
  proof -
    have "n \<in># mset (map fst (bs_sent s))" using that by force
    then have "n \<in># span (backward_minBlock head backSyncBlocks) head" using sub by (rule mset_subset_eqD [rotated])
    then have "0 < count (span (backward_minBlock head backSyncBlocks) head) n" by (simp add: count_greater_zero_iff)
    then show ?thesis by (simp add: count_span split: if_splits)
  qed
  moreover have "event_ok (bf_hayabusaForkedBlock b) (bf_hayabusaActiveBlock b) n e"
    if "(n, e) \<in> set (bs_sent s)" for n e
    using that breach_events [OF assms] by (auto simp: events_from_def intro: service.may_ok)
  ultimately show ?thesis by blast
qed

section \<open>Properties\<close>

text \<open>C7: In every interleaving the backward syncer sends at most one event per block, only for
  blocks in its range, and each is a proper event of its block.\<close>

theorem backward_safety:
  assumes "breach (service_may b) head backSyncBlocks s"
  shows "distinct (map fst (bs_sent s)) \<and>
    (\<forall>(n, e) \<in> set (bs_sent s). backward_minBlock head backSyncBlocks < n \<and> n \<le> head \<and>
       event_ok (bf_hayabusaForkedBlock b) (bf_hayabusaActiveBlock b) n e)"
  using assms by (rule backward_log_ok)

text \<open>C8: When \<open>Start\<close> returns and nobody cancelled, every block above the minimum up to the
  head was either sent or logged as failed, exactly once, and no other block was.\<close>

theorem backward_complete:
  assumes "breach may head backSyncBlocks s" and "bfinished s" and "\<not> bs_cancelled s"
  shows "mset (map fst (bs_sent s)) + mset (bs_failed s) = span (backward_minBlock head backSyncBlocks) head"
  using finished_remaining [OF breach_inv [OF assms(1)] assms(2,3)] .

text \<open>C14: Once the clock advances, the backward syncer comes to an end provided that its events are received, and after
  a cancellation also if they are not. Every step of every interleaving lowers a measure; and as long as \<open>Start\<close> has
  not returned and no worker panicked, some goroutine can make a step other than being cancelled: while nobody
  cancelled this may be one that hands an event to the receiver, afterwards it is one that sends nothing.\<close>

theorem backward_terminates:
  assumes "breach (service_may b) head backSyncBlocks s" and "\<And>n. clock_laws (bf_timer b) (fetch_attempt b n)"
    and "cache_inv b s0"
  shows "(\<forall>t. bstep (service_may b) s t \<longrightarrow> bmeasure t < bmeasure s) \<and>
    (\<not> bfinished s \<and> \<not> bs_crashed s \<longrightarrow> (\<exists>t. bstep (service_may b) s t \<and> bs_cancelled t = bs_cancelled s \<and>
       (bs_cancelled s \<longrightarrow> bs_sent t = bs_sent s)))"
proof (intro conjI allI impI)
  show "bmeasure t < bmeasure s" if "bstep (service_may b) s t" for t using that by (rule bstep_measure)
  assume "\<not> bfinished s \<and> \<not> bs_crashed s"
  then show "\<exists>t. bstep (service_may b) s t \<and> bs_cancelled t = bs_cancelled s \<and> (bs_cancelled s \<longrightarrow> bs_sent t = bs_sent s)"
    using bstep_progress [where may = "service_may b", OF breach_inv [OF assms(1)] _ _ service_answers [OF assms(2,3)]]
    unfolding bmoves_def by blast
qed

section \<open>Instances\<close>

text \<open>Once the channel is closed and drained, the idle workers can return one after the other.\<close>

lemma drained_finishes:
  assumes "breach may head n s" and "\<not> bs_crashed s" and "\<not> bs_producing s"
    and "chan_drained (bs_workChan s)" and "set (bs_workers s) \<subseteq> {BWaiting, BDone}"
  shows "\<exists>t. breach may head n t \<and> bfinished t \<and> \<not> bs_crashed t \<and> bs_sent t = bs_sent s \<and> bs_failed t = bs_failed s \<and>
    bs_cancelled t = bs_cancelled s"
  using assms
proof (induction "bmeasure s" arbitrary: s rule: less_induct)
  case less
  show ?case
  proof (cases "bfinished s")
    case True
    with less.prems show ?thesis by blast
  next
    case False
    then obtain v where "v \<in> set (bs_workers s)" "v \<noteq> BDone" using less.prems(3) by (auto simp: bfinished_def)
    then have "BWaiting \<in> set (bs_workers s)" using less.prems(5) by auto
    then obtain i where i: "worker_at s i BWaiting" by (auto simp: worker_at_def in_set_conv_nth)
    let ?t = "set_worker i BDone s"
    have step: "bstep may s ?t" using less.prems(2,4) i by (intro bstep.finish)
    have "\<exists>t. breach may head n t \<and> bfinished t \<and> \<not> bs_crashed t \<and> bs_sent t = bs_sent ?t \<and> bs_failed t = bs_failed ?t \<and>
        bs_cancelled t = bs_cancelled ?t"
    proof (rule less.hyps)
      show "bmeasure ?t < bmeasure s" using step by (rule bstep_measure)
      show "breach may head n ?t" using less.prems(1) step by (rule breach.step)
      show "set (bs_workers ?t) \<subseteq> {BWaiting, BDone}" using less.prems(5) set_worker_subset [of s i BDone] by auto
    qed (use less.prems in simp_all)
    then show ?thesis by simp
  qed
qed

definition sample_result :: FetchResult where
  "sample_result = \<lparr>fr_Block = main1, fr_Seed = [], fr_Staker = None, fr_AuthNodes = [], fr_FutureSeed = []\<rparr>"

definition sample_event :: BlockEvent where
  "sample_event = block_event 100 0 1 sample_result None"

lemma sample_may: "service_may (sample_fetcher 100 0) 1 (Ok sample_event)"
proof -
  have "best_chain 1 = Some main1" by (simp add: best_chain_def sample_blocks)
  moreover have "id_uint32 (blk_ParentID main1) = 0" by (simp add: sample_blocks id_uint32_def)
  ultimately have "FetchBlock (sample_fetcher 100 0) 1 ([], 0) = Some (Ok sample_result, ([(1, sample_result)], 0))"
    using sample_FetchBlock [of 1 main1 100 0 "[]" 0] by (simp add: sample_result_def Let_def)
  then have "ProcessBlock (FetchBlock (sample_fetcher 100 0)) 100 0 1 ([], 0) =
      Some (Ok sample_event, ([(1, sample_result)], 0))"
    by (simp add: ProcessBlock_def sample_event_def)
  then show ?thesis
    using sample_cache_inv unfolding service_may_def sample_fetcher_simps by blast
qed

lemma one_block_run:
  assumes "may n (Ok e)" and "0 < n"
  shows "\<exists>t. breach may n 1 t \<and> bfinished t \<and> \<not> bs_cancelled t \<and>
     bs_sent t = [(n, e)] \<and> bs_failed t = [] \<and> \<not> bs_crashed t"
proof -
  let ?ws = "replicate 99 BWaiting"
  let ?s = "\<lambda>k prod buf closed w snt. \<lparr>bs_minBlock = n - 1, bs_blockNum = k, bs_producing = prod,
      bs_workChan = \<lparr>ch_cap = 200, ch_buf = buf, ch_closed = closed\<rparr>, bs_workers = w # ?ws,
      bs_cancelled = False, bs_sent = snt, bs_failed = [], bs_crashed = False\<rparr>"
  have rep: "replicate 100 BWaiting = BWaiting # ?ws" by (simp add: numeral_eq_Suc)
  have less: "n - 1 < n" using assms(2) by (simp add: word_less_nat_alt unat_sub_if_size)
  have min: "backward_minBlock n 1 = n - 1"
  proof (cases "1 < n")
    case False
    with assms(2) have "unat n = 1" by (simp add: word_less_nat_alt not_less)
    then have "n = 1" by (simp add: word_unat_eq_iff)
    then show ?thesis by (simp add: backward_minBlock_def)
  qed (simp add: backward_minBlock_def)
  have 0: "NewBackwardSyncer n 1 = ?s n True [] False BWaiting []"
    unfolding NewBackwardSyncer_def backwardWorkers_def rep min by (simp add: make_chan_def)
  have 1: "bstep may (?s n True [] False BWaiting []) (?s (n - 1) True [n] False BWaiting [])"
    using bstep.produce [of "?s n True [] False BWaiting []" _ may] less assms(2)
    by (simp add: more_work_def chan_send_def can_send_def)
  have 2: "bstep may (?s (n - 1) True [n] False BWaiting []) (?s (n - 1) True [] False (BProcessing n) [])"
    using bstep.take [of "?s (n - 1) True [n] False BWaiting []" 0 n _ may]
    by (simp add: worker_at_def set_worker_def chan_recv_def)
  have 3: "bstep may (?s (n - 1) True [] False (BProcessing n) []) (?s (n - 1) True [] False (BSending n e) [])"
    using bstep.processed [of "?s (n - 1) True [] False (BProcessing n) []" 0 n may] assms(1)
    by (simp add: worker_at_def set_worker_def)
  have 4: "bstep may (?s (n - 1) True [] False (BSending n e) []) (?s (n - 1) True [] False BWaiting [(n, e)])"
    using bstep.sent [of "?s (n - 1) True [] False (BSending n e) []" 0 n _ may]
    by (simp add: worker_at_def set_worker_def)
  have 5: "bstep may (?s (n - 1) True [] False BWaiting [(n, e)]) (?s (n - 1) False [] True BWaiting [(n, e)])"
    using bstep.produce_end [of "?s (n - 1) True [] False BWaiting [(n, e)]" may]
    by (simp add: more_work_def chan_close_def)
  have "breach may n 1 (?s (n - 1) False [] True BWaiting [(n, e)])"
    using breach.start [of may n 1] unfolding 0
    by (rule breach.step [OF breach.step [OF breach.step [OF breach.step [OF breach.step]]], OF _ 1 2 3 4 5])
  from drained_finishes [OF this] show ?thesis by (auto simp: chan_drained_def)
qed

lemmas sample_run = one_block_run [where may = "service_may (sample_fetcher 100 0)" and e = sample_event, OF sample_may, simplified]

theorem backward_safety_witness:
  "\<exists>t :: bsync. bs_sent t = [(1, sample_event)] \<and> event_ok 100 0 1 sample_event \<and> backward_minBlock 1 1 < 1"
proof -
  obtain t where "breach (service_may (sample_fetcher 100 0)) 1 1 t" "bs_sent t = [(1, sample_event)]"
    using sample_run by blast
  with backward_safety [OF this(1)] show ?thesis by (intro exI [of _ t]) auto
qed

theorem backward_complete_witness:
  "\<exists>t :: bsync. bfinished t \<and> mset (map fst (bs_sent t)) + mset (bs_failed t) = span (backward_minBlock 1 1) 1 \<and>
     bs_sent t = [(1, sample_event)]"
proof -
  obtain t where t: "breach (service_may (sample_fetcher 100 0)) 1 1 t" "bfinished t" "\<not> bs_cancelled t"
    "bs_sent t = [(1, sample_event)]" using sample_run by blast
  with backward_complete [OF t(1-3)] show ?thesis by blast
qed

text \<open>The syncer, cancelled before anything else happened: some goroutine can move without a receiver.\<close>

theorem backward_terminates_witness:
  "\<exists>t. bstep (service_may (sample_fetcher 100 0)) ((NewBackwardSyncer 1 1)\<lparr>bs_cancelled := True\<rparr>) t \<and>
     bs_cancelled t \<and> bs_sent t = [] \<and> bmeasure t < bmeasure ((NewBackwardSyncer 1 1)\<lparr>bs_cancelled := True\<rparr>)"
proof -
  let ?s = "(NewBackwardSyncer 1 1)\<lparr>bs_cancelled := True\<rparr>"
  have clock: "clock_laws (bf_timer (sample_fetcher 100 0)) (fetch_attempt (sample_fetcher 100 0) n)" for n
    by (simp add: sample_clock)
  have "bstep (service_may (sample_fetcher 100 0)) (NewBackwardSyncer 1 1) ?s"
    by (rule bstep.cancel) (simp_all add: NewBackwardSyncer_def)
  then have "breach (service_may (sample_fetcher 100 0)) 1 1 ?s" by (rule breach.step [OF breach.start])
  moreover have "\<not> bfinished ?s \<and> \<not> bs_crashed ?s" "bs_sent ?s = []" "bs_cancelled ?s"
    by (simp_all add: bfinished_def NewBackwardSyncer_def)
  ultimately show ?thesis using backward_terminates [OF _ clock sample_cache_inv, of 1 1 ?s] by metis
qed

end
