(* ===== verification/ForwardSyncer.thy ===== *)
theory ForwardSyncer
  imports Samples
begin

text \<open>
  \<^verbatim>\<open>pubsub/forward_syncer.go\<close>: following the head of the chain one block at a time.
  One pass of \<open>Start\<close>'s loop is a function of the state; what the goroutine cannot control
  (whether the context was cancelled, which ready case of a \<open>select\<close> is taken) are its
  arguments. The client and the clock are the block fetcher's.
\<close>

text \<open>\<open>DefaultRetryDelay\<close> of \<^verbatim>\<open>config/constants.go\<close>.\<close>

definition DefaultRetryDelay :: int where
  "DefaultRetryDelay = sec 5"

text \<open>The previous block, the cache and the world, and the events sent so far.\<close>

record ('w, 'c) fsync =
  fs_prev :: Block
  fs_cache :: 'c
  fs_world :: 'w
  fs_sent :: "BlockEvent list"

definition NewForwardSyncer :: "Block \<Rightarrow> 'c \<Rightarrow> 'w \<Rightarrow> ('w, 'c) fsync" where
  "NewForwardSyncer startingBlock c w =
     \<lparr>fs_prev = startingBlock, fs_cache = c, fs_world = w, fs_sent = []\<rparr>"

text \<open>How a pass ends: on to the next one, return, \<open>os.Exit(1)\<close>, or a panic.\<close>

datatype fstatus = FContinue | FReturned | FExited | FCrashed gpanic

section \<open>databaseAhead\<close>

definition databaseAhead :: "'w client \<Rightarrow> Block \<Rightarrow> gerror \<Rightarrow> 'w \<Rightarrow> bool \<times> 'w" where
  "databaseAhead cl prev blockErr w =
     (if \<not> errors_Is blockErr ErrNotFound then (False, w)
      else case cl_Block cl RevBest w of
             (Inl err, w1) \<Rightarrow> (False, w1)
           | (Inr best, w1) \<Rightarrow> (blk_Number best < blk_Number prev, w1))"

section \<open>Start\<close>

text \<open>The inner loop asks for the finalized block until it gets it.\<close>

partial_function (option) fetch_finalized ::
  "'w timer \<Rightarrow> 'w client \<Rightarrow> 'w \<Rightarrow> (Block \<times> 'w) option" where
  "fetch_finalized tm cl w =
     (case cl_ExpandedBlock cl RevFinalized w of
        (Inr finalized, w1) \<Rightarrow> Some (finalized, w1)
      | (Inl err, w1) \<Rightarrow> fetch_finalized tm cl (tm_sleep tm DefaultRetryDelay w1))"

definition fork_event :: "Block \<Rightarrow> Block \<Rightarrow> Block \<Rightarrow> BlockEvent" where
  "fork_event best finalized side =
     \<lparr>be_Fork = \<lparr>fk_Occurred = True, fk_Best = Some best, fk_Finalized = Some finalized, fk_SideChain = Some side\<rparr>,
      be_Block = finalized, be_Prev = None, be_HayabusaStatus = \<lparr>hs_Active = False, hs_Forked = False\<rparr>,
      be_Staker = None, be_ParentStaker = None, be_Seed = [], be_AuthNodes = [], be_ParentAuthNodes = [],
      be_FutureSeed = []\<rparr>"

text \<open>\<open>time.Duration(thor.BlockInterval())\<close>: the number of seconds taken as nanoseconds.\<close>

definition poll_wait :: "chain_config \<Rightarrow> int" where
  "poll_wait cfg = sint (cfg_BlockInterval cfg)"

text \<open>Failing to fetch the next block, detecting a fork, and processing the next block.\<close>

definition next_failed ::
  "('w, 'c) fetcher \<Rightarrow> gerror \<Rightarrow> ('w, 'c) fsync \<Rightarrow> fstatus \<times> ('w, 'c) fsync" where
  "next_failed b err s =
     (case databaseAhead (bf_client b) (fs_prev s) err (fs_world s) of
        (True, w) \<Rightarrow> (FExited, s\<lparr>fs_world := w\<rparr>)
      | (False, w) \<Rightarrow> (FContinue, s\<lparr>fs_world := tm_sleep (bf_timer b) DefaultRetryDelay w\<rparr>))"

definition on_fork ::
  "('w, 'c) fetcher \<Rightarrow> Block \<Rightarrow> ('w, 'c) fsync \<Rightarrow> (fstatus \<times> ('w, 'c) fsync) option" where
  "on_fork b next' s =
     (case fetch_finalized (bf_timer b) (bf_client b) (fs_world s) of
        None \<Rightarrow> None
      | Some (finalized, w) \<Rightarrow>
          Some (FContinue, s\<lparr>fs_world := w, fs_prev := finalized,
             fs_sent := fs_sent s @ [fork_event next' finalized (fs_prev s)]\<rparr>))"

definition on_next ::
  "('w, 'c) fetcher \<Rightarrow> bool \<Rightarrow> Block \<Rightarrow> ('w, 'c) fsync \<Rightarrow> (fstatus \<times> ('w, 'c) fsync) option" where
  "on_next b cancelled_at_send next' s =
     (case ProcessBlock (FetchBlock b) (bf_hayabusaForkedBlock b) (bf_hayabusaActiveBlock b)
             (blk_Number (fs_prev s) + 1) (fs_cache s, fs_world s) of
        None \<Rightarrow> None
      | Some (Panic p, (c, w)) \<Rightarrow> Some (FCrashed p, s\<lparr>fs_cache := c, fs_world := w\<rparr>)
      | Some (Err e, (c, w)) \<Rightarrow>
          Some (FContinue, s\<lparr>fs_cache := c, fs_world := tm_sleep (bf_timer b) DefaultRetryDelay w\<rparr>)
      | Some (Ok event, (c, w)) \<Rightarrow>
          if cancelled_at_send then Some (FReturned, s\<lparr>fs_cache := c, fs_world := w\<rparr>)
          else Some (FContinue, s\<lparr>fs_cache := c, fs_world := w, fs_prev := next',
                  fs_sent := fs_sent s @ [event]\<rparr>))"

definition forward_pass ::
  "('w, 'c) fetcher \<Rightarrow> bool \<Rightarrow> bool \<Rightarrow> ('w, 'c) fsync \<Rightarrow> (fstatus \<times> ('w, 'c) fsync) option" where
  "forward_pass b cancelled cancelled_at_send s =
     (if cancelled then Some (FReturned, s) else
      let prev = fs_prev s; prevTime = unix_time (blk_Timestamp prev); now = tm_now (bf_timer b) (fs_world s) in
      if now - prevTime < poll_wait (bf_cfg b)
      then Some (FContinue, s\<lparr>fs_world := tm_sleep (bf_timer b) (prevTime + poll_wait (bf_cfg b) - now) (fs_world s)\<rparr>)
      else
        case cl_ExpandedBlock (bf_client b) (RevNumber (blk_Number prev + 1)) (fs_world s) of
          (Inl err, w) \<Rightarrow> Some (next_failed b err (s\<lparr>fs_world := w\<rparr>))
        | (Inr next', w) \<Rightarrow>
            if blk_ParentID next' \<noteq> blk_ID prev then on_fork b next' (s\<lparr>fs_world := w\<rparr>)
            else on_next b cancelled_at_send next' (s\<lparr>fs_world := w\<rparr>))"

text \<open>
  Runs of the syncer: passes that continue, and between them whatever other goroutines and the
  node do to the shared cache (keeping its invariant) and to the world.
\<close>

inductive freach :: "('w, 'c) fetcher \<Rightarrow> ('w, 'c) fsync \<Rightarrow> ('w, 'c) fsync \<Rightarrow> bool" for b s0 where
  start: "freach b s0 s0"
| pass: "freach b s0 s \<Longrightarrow> forward_pass b cancelled cancelled_at_send s = Some (FContinue, t) \<Longrightarrow> freach b s0 t"
| others: "freach b s0 s \<Longrightarrow> cache_inv b (c, w) \<Longrightarrow> freach b s0 (s\<lparr>fs_cache := c, fs_world := w\<rparr>)"

section \<open>What one pass does\<close>

text \<open>
  A pass leaves the position and the log alone, or moves to the child of the previous block and
  logs that child's event, or logs a fork and moves to the finalized block.
\<close>

definition moved_on :: "('w, 'c) fetcher \<Rightarrow> ('w, 'c) fsync \<Rightarrow> ('w, 'c) fsync \<Rightarrow> bool" where
  "moved_on b s t \<longleftrightarrow> (\<exists>e. fs_sent t = fs_sent s @ [e] \<and> blk_ParentID (fs_prev t) = blk_ID (fs_prev s) \<and>
     blk_Number (fs_prev t) = blk_Number (fs_prev s) + 1 \<and>
     event_ok (bf_hayabusaForkedBlock b) (bf_hayabusaActiveBlock b) (blk_Number (fs_prev s) + 1) e)"

definition forked_off :: "('w, 'c) fsync \<Rightarrow> ('w, 'c) fsync \<Rightarrow> bool" where
  "forked_off s t \<longleftrightarrow> (\<exists>next'. blk_ParentID next' \<noteq> blk_ID (fs_prev s) \<and>
     blk_Number next' = blk_Number (fs_prev s) + 1 \<and>
     fs_sent t = fs_sent s @ [fork_event next' (fs_prev t) (fs_prev s)])"

lemma next_failed_same:
  "next_failed b err s = (r, t) \<Longrightarrow> fs_prev t = fs_prev s \<and> fs_sent t = fs_sent s \<and> fs_cache t = fs_cache s"
  by (auto simp: next_failed_def split: prod.splits bool.splits)

lemma on_next_inv:
  assumes "cache_inv b (fs_cache s, fs_world s)" and "on_next b c next' s = Some (r, t)"
  shows "cache_inv b (fs_cache t, fs_world t)"
proof -
  obtain r' c' w' where p: "ProcessBlock (FetchBlock b) (bf_hayabusaForkedBlock b) (bf_hayabusaActiveBlock b)
      (blk_Number (fs_prev s) + 1) (fs_cache s, fs_world s) = Some (r', (c', w'))"
    using assms(2) by (auto simp: on_next_def split: option.splits)
  then have "cache_inv b (c', w')" using assms(1) by (rule fetcher.ProcessBlock_inv [rotated])
  moreover have "fs_cache t = c'" using assms(2) p by (cases r') (auto simp: on_next_def split: if_splits)
  ultimately show ?thesis by (auto intro: cache_inv_world)
qed

lemma event_ok_not_fork: "event_ok f a n e \<Longrightarrow> \<not> fk_Occurred (be_Fork e)"
  by (simp add: event_ok_def)

lemma on_fork_cache: "on_fork b n s = Some (r, t) \<Longrightarrow> fs_cache t = fs_cache s"
  by (auto simp: on_fork_def split: option.splits)

lemma pass_inv:
  assumes inv: "cache_inv b (fs_cache s, fs_world s)" and ret: "forward_pass b c1 c2 s = Some (r, t)"
  shows "cache_inv b (fs_cache t, fs_world t)"
proof -
  have "fs_cache t = fs_cache s \<or>
    (\<exists>next' w. on_next b c2 next' (s\<lparr>fs_world := w\<rparr>) = Some (r, t))"
    using ret by (auto simp: forward_pass_def Let_def dest!: next_failed_same on_fork_cache
        split: if_splits prod.splits sum.splits)
  then show ?thesis
  proof
    assume "fs_cache t = fs_cache s"
    then show ?thesis using cache_inv_world [OF inv] by simp
  next
    assume "\<exists>next' w. on_next b c2 next' (s\<lparr>fs_world := w\<rparr>) = Some (r, t)"
    then show ?thesis using cache_inv_world [OF inv] by (elim exE on_next_inv [rotated]) simp
  qed
qed

lemma on_next_cases:
  assumes inv: "cache_inv b (fs_cache s, fs_world s)" and ret: "on_next b c next' s = Some (r, t)"
  obtains "fs_prev t = fs_prev s" and "fs_sent t = fs_sent s"
  | e where "fs_prev t = next'" and "fs_sent t = fs_sent s @ [e]"
      and "event_ok (bf_hayabusaForkedBlock b) (bf_hayabusaActiveBlock b) (blk_Number (fs_prev s) + 1) e"
proof -
  obtain r' c' w' where p: "ProcessBlock (FetchBlock b) (bf_hayabusaForkedBlock b) (bf_hayabusaActiveBlock b)
      (blk_Number (fs_prev s) + 1) (fs_cache s, fs_world s) = Some (r', (c', w'))"
    using ret by (auto simp: on_next_def split: option.splits)
  show thesis
  proof (cases r')
    case (Ok e)
    then have "event_ok (bf_hayabusaForkedBlock b) (bf_hayabusaActiveBlock b) (blk_Number (fs_prev s) + 1) e"
      using fetcher.ProcessBlock_event_ok [OF inv] p by blast
    then show thesis using ret p Ok that by (auto simp: on_next_def split: if_splits)
  qed (use ret p that in \<open>auto simp: on_next_def\<close>)
qed

lemma pass_cases:
  assumes inv: "cache_inv b (fs_cache s, fs_world s)" and ret: "forward_pass b c1 c2 s = Some (r, t)"
  obtains (stay) "fs_prev t = fs_prev s" and "fs_sent t = fs_sent s"
  | (moved) "moved_on b s t"
  | (forked) "forked_off s t"
proof -
  have num: "\<And>n w bl w'. cl_ExpandedBlock (bf_client b) (RevNumber n) w = (Inr bl, w') \<Longrightarrow> blk_Number bl = n"
    using inv unfolding cache_inv_def node_numbers_def by blast
  obtain q w where next': "cl_ExpandedBlock (bf_client b) (RevNumber (blk_Number (fs_prev s) + 1)) (fs_world s) = (q, w)"
    by fastforce
  show thesis
  proof (cases "\<exists>n. q = Inr n \<and> blk_ParentID n = blk_ID (fs_prev s) \<and>
      on_next b c2 n (s\<lparr>fs_world := w\<rparr>) = Some (r, t)")
    case True
    then obtain n where n: "q = Inr n" "blk_ParentID n = blk_ID (fs_prev s)"
      "on_next b c2 n (s\<lparr>fs_world := w\<rparr>) = Some (r, t)" by blast
    have "cache_inv b (fs_cache (s\<lparr>fs_world := w\<rparr>), fs_world (s\<lparr>fs_world := w\<rparr>))"
      using cache_inv_world [OF inv] by simp
    then show thesis
      using n(3)
    proof (rule on_next_cases)
      assume "fs_prev t = fs_prev (s\<lparr>fs_world := w\<rparr>)" "fs_sent t = fs_sent (s\<lparr>fs_world := w\<rparr>)"
      then show thesis by (intro stay) simp_all
    next
      fix e
      assume "fs_prev t = n" "fs_sent t = fs_sent (s\<lparr>fs_world := w\<rparr>) @ [e]"
        "event_ok (bf_hayabusaForkedBlock b) (bf_hayabusaActiveBlock b) (blk_Number (fs_prev (s\<lparr>fs_world := w\<rparr>)) + 1) e"
      then show thesis using n num [OF next' [unfolded n(1)]] by (intro moved) (simp add: moved_on_def)
    qed
  next
    case False
    then consider (same) "fs_prev t = fs_prev s" "fs_sent t = fs_sent s"
      | (fork) n where "q = Inr n" "blk_ParentID n \<noteq> blk_ID (fs_prev s)"
          "on_fork b n (s\<lparr>fs_world := w\<rparr>) = Some (r, t)"
      using ret next' by (auto simp: forward_pass_def Let_def dest: next_failed_same
          split: if_splits prod.splits sum.splits)
    then show thesis
    proof cases
      case same
      then show thesis by (rule stay)
    next
      case (fork n)
      then show thesis using num [OF next' [unfolded fork(1)]]
        by (intro forked) (auto simp: forked_off_def on_fork_def split: option.splits)
    qed
  qed
qed

section \<open>The log of a run\<close>

text \<open>
  Reading a log from a block number: an event of the next number advances by one; a fork event
  names the current block as the side chain's and goes back to the finalized block.
\<close>

fun follows :: "u32 \<Rightarrow> u32 \<Rightarrow> u32 \<Rightarrow> BlockEvent list \<Rightarrow> u32 option" where
  "follows forked active cur [] = Some cur"
| "follows forked active cur (e # es) =
     (if fk_Occurred (be_Fork e)
      then (case (fk_SideChain (be_Fork e), fk_Finalized (be_Fork e)) of
              (Some side, Some finalized) \<Rightarrow>
                if blk_Number side = cur then follows forked active (blk_Number finalized) es else None
            | _ \<Rightarrow> None)
      else if event_ok forked active (cur + 1) e then follows forked active (cur + 1) es else None)"

lemma follows_append:
  "follows f a cur (xs @ ys) = Option.bind (follows f a cur xs) (\<lambda>c. follows f a c ys)"
  by (induction f a cur xs rule: follows.induct) (auto split: option.splits)

definition fs_inv :: "('w, 'c) fetcher \<Rightarrow> u32 \<Rightarrow> ('w, 'c) fsync \<Rightarrow> bool" where
  "fs_inv b n s \<longleftrightarrow> cache_inv b (fs_cache s, fs_world s) \<and>
     follows (bf_hayabusaForkedBlock b) (bf_hayabusaActiveBlock b) n (fs_sent s) = Some (blk_Number (fs_prev s))"

lemma fs_inv_pass:
  assumes "fs_inv b n s" and "forward_pass b c1 c2 s = Some (r, t)"
  shows "fs_inv b n t"
proof -
  have inv: "cache_inv b (fs_cache s, fs_world s)"
    and fol: "follows (bf_hayabusaForkedBlock b) (bf_hayabusaActiveBlock b) n (fs_sent s) = Some (blk_Number (fs_prev s))"
    using assms(1) by (auto simp: fs_inv_def)
  from inv assms(2) have "follows (bf_hayabusaForkedBlock b) (bf_hayabusaActiveBlock b) n (fs_sent t)
      = Some (blk_Number (fs_prev t))"
  proof (cases rule: pass_cases)
    case stay
    then show ?thesis using fol by simp
  next
    case moved
    then show ?thesis using fol by (auto simp: moved_on_def follows_append dest: event_ok_not_fork)
  next
    case forked
    then show ?thesis using fol by (auto simp: forked_off_def follows_append fork_event_def)
  qed
  with pass_inv [OF inv assms(2)] show ?thesis by (simp add: fs_inv_def)
qed

lemma freach_inv: "freach b s0 s \<Longrightarrow> fs_inv b n s0 \<Longrightarrow> fs_inv b n s"
proof (induction rule: freach.induct)
  case (pass s c1 c2 t)
  then show ?case by (auto intro: fs_inv_pass)
next
  case (others s c w)
  then show ?case by (auto simp: fs_inv_def)
qed

section \<open>Passes return\<close>

text \<open>The node gives the finalized block within \<open>k\<close> requests.\<close>

fun finalized_within :: "'w timer \<Rightarrow> 'w client \<Rightarrow> nat \<Rightarrow> 'w \<Rightarrow> bool" where
  "finalized_within tm cl 0 w = False"
| "finalized_within tm cl (Suc k) w =
     (case cl_ExpandedBlock cl RevFinalized w of
        (Inr finalized, w1) \<Rightarrow> True
      | (Inl err, w1) \<Rightarrow> finalized_within tm cl k (tm_sleep tm DefaultRetryDelay w1))"

lemma fetch_finalized_returns: "finalized_within tm cl k w \<Longrightarrow> \<exists>r. fetch_finalized tm cl w = Some r"
proof (induction k arbitrary: w)
  case (Suc k)
  obtain r w1 where r: "cl_ExpandedBlock cl RevFinalized w = (r, w1)" by fastforce
  show ?case
  proof (cases r)
    case (Inl e)
    then have "finalized_within tm cl k (tm_sleep tm DefaultRetryDelay w1)" using Suc.prems r by simp
    then have "\<exists>x. fetch_finalized tm cl (tm_sleep tm DefaultRetryDelay w1) = Some x" by (rule Suc.IH)
    then show ?thesis using Inl by (simp add: fetch_finalized.simps [of _ _ w] r)
  next
    case (Inr b)
    then show ?thesis by (simp add: fetch_finalized.simps [of _ _ w] r)
  qed
qed simp

lemma on_next_returns:
  assumes "\<And>n. clock_laws (bf_timer b) (fetch_attempt b n)"
  shows "\<exists>r. on_next b c next' s = Some r"
proof -
  have "\<And>n s. \<exists>r. FetchBlock b n s = Some r" using assms by (rule FetchBlock_returns)
  then obtain r c' w' where "ProcessBlock (FetchBlock b) (bf_hayabusaForkedBlock b) (bf_hayabusaActiveBlock b)
      (blk_Number (fs_prev s) + 1) (fs_cache s, fs_world s) = Some (r, (c', w'))"
    using fetcher.ProcessBlock_returns by (metis prod.exhaust)
  then show ?thesis by (cases r) (auto simp: on_next_def)
qed

section \<open>Properties\<close>

text \<open>C11: Along every run of the forward syncer the sent events can be read block by block from the
  starting block: each one is the proper event of the next number, or a fork event that names the
  current block and goes back to the finalized one; the reading ends at the syncer's position, so
  no block is skipped or sent twice in a row.\<close>

theorem forward_log_follows:
  assumes "freach b (NewForwardSyncer startingBlock c w) s" and "cache_inv b (c, w)"
  shows "follows (bf_hayabusaForkedBlock b) (bf_hayabusaActiveBlock b) (blk_Number startingBlock) (fs_sent s)
    = Some (blk_Number (fs_prev s))"
proof -
  have "fs_inv b (blk_Number startingBlock) (NewForwardSyncer startingBlock c w)"
    using assms(2) by (simp add: fs_inv_def NewForwardSyncer_def)
  with assms(1) show ?thesis by (auto dest: freach_inv simp: fs_inv_def)
qed

text \<open>C17: One pass of the forward syncer leaves position and log alone, or moves to a child of the
  previous block and sends that number's event, or meets a block with another parent, reports the
  fork with both blocks and the finalized one, and restarts from there.\<close>

theorem forward_pass_moves:
  assumes "cache_inv b (fs_cache s, fs_world s)"
    and "forward_pass b cancelled cancelled_at_send s = Some (r, t)"
  shows "(fs_prev t = fs_prev s \<and> fs_sent t = fs_sent s) \<or> moved_on b s t \<or> forked_off s t"
  using assms by (cases rule: pass_cases) auto

text \<open>C22: The service is restarted exactly when the next block was not found and the node's best
  block is behind the position of the syncer.\<close>

theorem forward_exits_iff:
  "forward_pass b False cancelled_at_send s = Some (FExited, t) \<longleftrightarrow>
     \<not> tm_now (bf_timer b) (fs_world s) - unix_time (blk_Timestamp (fs_prev s)) < poll_wait (bf_cfg b) \<and>
     (\<exists>err w1 best w2.
        cl_ExpandedBlock (bf_client b) (RevNumber (blk_Number (fs_prev s) + 1)) (fs_world s) = (Inl err, w1) \<and>
        errors_Is err ErrNotFound \<and> cl_Block (bf_client b) RevBest w1 = (Inr best, w2) \<and>
        blk_Number best < blk_Number (fs_prev s) \<and> t = s\<lparr>fs_world := w2\<rparr>)"
proof -
  have on_next: "on_next b c n s' \<noteq> Some (FExited, t)" for n c s'
    by (auto simp: on_next_def split: option.splits outcome.splits)
  have on_fork: "on_fork b n s' \<noteq> Some (FExited, t)" for n s'
    by (auto simp: on_fork_def split: option.splits)
  have failed: "next_failed b err s' = (FExited, t) \<longleftrightarrow> (\<exists>best w2. errors_Is err ErrNotFound \<and>
      cl_Block (bf_client b) RevBest (fs_world s') = (Inr best, w2) \<and>
      blk_Number best < blk_Number (fs_prev s') \<and> t = s'\<lparr>fs_world := w2\<rparr>)" for err s'
    by (auto simp: next_failed_def databaseAhead_def split: prod.splits sum.splits bool.splits)
  obtain q w1 where "cl_ExpandedBlock (bf_client b) (RevNumber (blk_Number (fs_prev s) + 1)) (fs_world s) = (q, w1)"
    by fastforce
  then show ?thesis
    by (cases q) (auto simp: forward_pass_def Let_def on_next on_fork failed)
qed

text \<open>A pass always comes to an end, provided the clock advances and the node sooner or later
  gives the finalized block.\<close>

theorem forward_pass_returns:
  assumes "\<And>n. clock_laws (bf_timer b) (fetch_attempt b n)"
    and "\<And>w. \<exists>k. finalized_within (bf_timer b) (bf_client b) k w"
  shows "\<exists>r. forward_pass b cancelled cancelled_at_send s = Some r"
proof -
  have on_fork: "\<exists>r. on_fork b n s' = Some r" for n s'
    using assms(2) [of "fs_world s'"] fetch_finalized_returns by (fastforce simp: on_fork_def)
  obtain q w1 where "cl_ExpandedBlock (bf_client b) (RevNumber (blk_Number (fs_prev s) + 1)) (fs_world s) = (q, w1)"
    by fastforce
  then show ?thesis
    using on_fork on_next_returns [OF assms(1)] by (cases q) (auto simp: forward_pass_def Let_def)
qed

text \<open>The cache is not cleared after a fork: when the syncer comes back to a number whose block
  (and the one before) is cached, it sends the cached block, whatever block the node has there now.\<close>

theorem forward_resends_cached:
  assumes "\<not> tm_now (bf_timer b) (fs_world s) - unix_time (blk_Timestamp (fs_prev s)) < poll_wait (bf_cfg b)"
    and "cl_ExpandedBlock (bf_client b) (RevNumber (blk_Number (fs_prev s) + 1)) (fs_world s) = (Inr next', w1)"
    and "blk_ParentID next' = blk_ID (fs_prev s)" and "1 < blk_Number (fs_prev s) + 1"
    and "lru_Get (bf_lru b) (fs_cache s) (blk_Number (fs_prev s) + 1) = (Some old, c1)"
    and "lru_Get (bf_lru b) c1 (blk_Number (fs_prev s)) = (Some oldPrev, c2)"
  shows "\<exists>e. forward_pass b False False s =
      Some (FContinue, s\<lparr>fs_cache := c2, fs_world := w1, fs_prev := next', fs_sent := fs_sent s @ [e]\<rparr>) \<and>
    be_Block e = fr_Block old \<and> be_Prev e = Some (fr_Block oldPrev)"
proof -
  let ?e = "block_event (bf_hayabusaForkedBlock b) (bf_hayabusaActiveBlock b) (blk_Number (fs_prev s) + 1) old (Some oldPrev)"
  have "forward_pass b False False s =
      Some (FContinue, s\<lparr>fs_cache := c2, fs_world := w1, fs_prev := next', fs_sent := fs_sent s @ [?e]\<rparr>)"
    using assms by (simp add: forward_pass_def on_next_def ProcessBlock_def FetchBlock_def Let_def)
  then show ?thesis by (intro exI [of _ ?e]) (simp add: block_event_def)
qed

section \<open>Instances\<close>

definition plain_result :: "Block \<Rightarrow> FetchResult" where
  "plain_result b = \<lparr>fr_Block = b, fr_Seed = [], fr_Staker = None, fr_AuthNodes = [], fr_FutureSeed = []\<rparr>"

definition sample_start :: "(int, (u32 \<times> FetchResult) list) fsync" where
  "sample_start = NewForwardSyncer main1 [] (10 ^ 12)"

definition sample_moved :: "(int, (u32 \<times> FetchResult) list) fsync" where
  "sample_moved = \<lparr>fs_prev = main2, fs_cache = [(1, plain_result main1), (2, plain_result main2)],
     fs_world = 10 ^ 12, fs_sent = [block_event 100 0 2 (plain_result main2) (Some (plain_result main1))]\<rparr>"

lemma sample_answers:
  "cl_ExpandedBlock sample_client (RevNumber 2) w = (Inr main2, w)"
  "best_chain 1 = Some main1" "best_chain 2 = Some main2"
  by (simp_all add: sample_client_def sample_answer_def found_def best_chain_def sample_blocks)

lemma sample_ProcessBlock:
  "ProcessBlock (FetchBlock (sample_fetcher 100 0)) 100 0 2 ([], w) =
     Some (Ok (block_event 100 0 2 (plain_result main2) (Some (plain_result main1))),
       ([(1, plain_result main1), (2, plain_result main2)], w))"
  using sample_FetchBlock [of 2 main2 100 0 "[]" w]
    sample_FetchBlock [of 1 main1 100 0 "[(2, plain_result main2)]" w]
  by (simp add: ProcessBlock_def sample_answers plain_result_def Let_def)
    (simp add: sample_blocks id_uint32_def)

lemma sample_blk:
  "blk_Number main1 = 1" "blk_Timestamp main1 = 10" "blk_ID main1 = Bytes32 161"
  "blk_ParentID main2 = Bytes32 161" "blk_Number main2 = 2" "blk_ID main2 = Bytes32 162"
  "blk_ID side2 = Bytes32 178"
  by (simp_all add: sample_blocks)

lemma sample_ready: "\<not> (10 ^ 12 :: int) - unix_time 10 < poll_wait sample_cfg"
  by (simp add: unix_time_def sec_def poll_wait_def sample_cfg_def)

lemma sample_pass:
  "forward_pass (sample_fetcher 100 0) False False sample_start = Some (FContinue, sample_moved)"
  using sample_ProcessBlock [of "10 ^ 12"] sample_ready
  by (simp add: forward_pass_def on_next_def sample_start_def sample_moved_def NewForwardSyncer_def
      sample_blk sample_answers Let_def) (simp add: sample_timer_def)

theorem forward_log_follows_witness: "follows 100 0 1 (fs_sent sample_moved) = Some 2"
proof -
  have "freach (sample_fetcher 100 0) (NewForwardSyncer main1 [] (10 ^ 12)) sample_moved"
    using freach.pass [OF freach.start sample_pass] by (simp add: sample_start_def)
  from forward_log_follows [OF this sample_cache_inv] show ?thesis
    by (simp add: sample_blk sample_moved_def)
qed

theorem forward_pass_moves_witness: "moved_on (sample_fetcher 100 0) sample_start sample_moved"
proof -
  have "cache_inv (sample_fetcher 100 0) (fs_cache sample_start, fs_world sample_start)"
    by (simp add: sample_start_def NewForwardSyncer_def sample_cache_inv)
  from forward_pass_moves [OF this sample_pass] show ?thesis
    by (auto simp: forked_off_def sample_start_def sample_moved_def NewForwardSyncer_def
        block_event_def fork_event_def no_fork_def)
qed

theorem forward_pass_returns_witness: "\<exists>r. forward_pass (sample_fetcher 100 0) False False sample_start = Some r"
proof (rule forward_pass_returns)
  show "clock_laws (bf_timer (sample_fetcher 100 0)) (fetch_attempt (sample_fetcher 100 0) n)" for n
    by (simp add: sample_clock)
  show "\<exists>k. finalized_within (bf_timer (sample_fetcher 100 0)) (bf_client (sample_fetcher 100 0)) k w" for w
    by (intro exI [of _ 1]) (simp add: sample_client_def sample_answer_def)
qed

text \<open>The syncer is back at block 1; the side chain's block 2 is cached, the node has another one.\<close>

theorem forward_resends_cached_witness:
  "\<exists>e t. forward_pass (sample_fetcher 100 0) False False
      \<lparr>fs_prev = main1, fs_cache = [(1, plain_result side1), (2, plain_result side2)], fs_world = 10 ^ 12,
        fs_sent = []\<rparr> = Some (FContinue, t) \<and> fs_sent t = [e] \<and> fs_prev t = main2 \<and>
    be_Block e = side2 \<and> blk_ID (be_Block e) \<noteq> blk_ID main2"
proof -
  let ?s = "\<lparr>fs_prev = main1, fs_cache = [(1, plain_result side1), (2, plain_result side2)], fs_world = 10 ^ 12,
        fs_sent = []\<rparr> :: (int, (u32 \<times> FetchResult) list) fsync"
  have "\<exists>e. forward_pass (sample_fetcher 100 0) False False ?s =
      Some (FContinue, ?s\<lparr>fs_cache := fs_cache ?s, fs_world := 10 ^ 12, fs_prev := main2, fs_sent := fs_sent ?s @ [e]\<rparr>) \<and>
    be_Block e = fr_Block (plain_result side2) \<and> be_Prev e = Some (fr_Block (plain_result side1))"
    using sample_ready
    by (intro forward_resends_cached [where ?c1.0 = "fs_cache ?s"])
      (simp_all add: sample_blk sample_answers sample_timer_def sample_lru_def)
  then show ?thesis by (auto simp: plain_result_def sample_blk)
qed

end
