(* ===== verification/Publisher.thy ===== *)
theory Publisher
  imports BackwardSyncer ForwardSyncer
begin

text \<open>
  \<^verbatim>\<open>pubsub/publisher.go\<close>: choosing the first block and the range of the backward
  sync, building both syncers, and running them around the shared block channel.
\<close>

section \<open>The range of the backward sync\<close>

definition back_sync_blocks :: "u32 \<Rightarrow> u32 \<Rightarrow> u32 \<Rightarrow> u32" where
  "back_sync_blocks first latest backSyncBlocks =
     (let n = if first < backSyncBlocks then first - 1 else backSyncBlocks in
      if first - n < latest then (if first \<le> latest then 0 else first - latest) else n)"

section \<open>NewPublisher\<close>

text \<open>
  The parts of \<open>genesis.CustomGenesis\<close> that are read; \<open>None\<close> is a nil pointer, which is
  dereferenced without a check.
\<close>

record genesis_config =
  gc_HAYABUSA :: "u32 option"
  gc_HayabusaTP :: "u32 option"

definition hayabusa_heights :: "genesis_config \<Rightarrow> (u32 \<times> u32) outcome" where
  "hayabusa_heights g =
     (case (gc_HAYABUSA g, gc_HayabusaTP g) of
        (Some fork, Some tp) \<Rightarrow> Ok (fork, fork + tp)
      | _ \<Rightarrow> Panic NilDereference)"

record ('w, 'c) publisher =
  pb_forked :: u32
  pb_active :: u32
  pb_forward :: "('w, 'c) fsync option"
  pb_backward :: bsync

text \<open>The first block to follow from, and the one before it.\<close>

definition first_block :: "'w client \<Rightarrow> u32 \<Rightarrow> 'w \<Rightarrow> Block outcome \<times> 'w" where
  "first_block cl endBlock w =
     wrapW ''failed to get end/finalized block''
       (callW (cl_ExpandedBlock cl (if endBlock \<noteq> 0 then RevNumber endBlock else RevFinalized) w))"

definition first_and_previous :: "'w client \<Rightarrow> Block \<Rightarrow> 'w \<Rightarrow> (Block \<times> Block) outcome \<times> 'w" where
  "first_and_previous cl first w =
     (if blk_Number first = 0
      then bindW (wrapW ''failed to get previous block'' (callW (cl_ExpandedBlock cl (RevNumber 1) w)))
             (\<lambda>one w1. (Ok (one, first), w1))
      else bindW (wrapW ''failed to get previous block'' (callW (cl_ExpandedBlock cl (RevNumber (blk_Number first - 1)) w)))
             (\<lambda>previous w1. (Ok (first, previous), w1)))"

text \<open>
  \<open>latest\<close> is the result of the database query; a failure is only logged, and the block
  number then is 0. \<open>c\<close> is the empty cache of the new block fetcher.
\<close>

definition NewPublisher ::
  "'w client \<Rightarrow> genesis_config \<Rightarrow> u32 \<Rightarrow> u32 \<Rightarrow> query_result \<Rightarrow> 'c \<Rightarrow> 'w \<Rightarrow> ('w, 'c) publisher outcome \<times> 'w" where
  "NewPublisher cl g backSyncBlocks endBlock latest c w =
     bindW (first_block cl endBlock w) (\<lambda>first0 w1.
     bindW (hayabusa_heights g, w1) (\<lambda>(forked, active) w2.
     bindW (first_and_previous cl first0 w2) (\<lambda>(first, previous) w3.
       let latestNumber = (case Latest latest of Inl e \<Rightarrow> 0 | Inr n \<Rightarrow> n) in
       (Ok \<lparr>pb_forked = forked, pb_active = active,
            pb_forward = (if endBlock = 0 then Some (NewForwardSyncer previous c w3) else None),
            pb_backward = NewBackwardSyncer (blk_Number first)
              (back_sync_blocks (blk_Number first) latestNumber backSyncBlocks)\<rparr>, w3))))"

lemma NewPublisher_Ok:
  assumes "NewPublisher cl g backSyncBlocks endBlock latest c w = (Ok p, w')" and "node_numbers cl"
  obtains first previous :: Block and w1 where
    "0 < blk_Number first" and "endBlock \<noteq> 0 \<Longrightarrow> blk_Number first = endBlock"
    and "blk_Number previous = blk_Number first - 1 \<or> blk_Number previous = 0 \<and> blk_Number first = 1"
    and "pb_forward p = (if endBlock = 0 then Some (NewForwardSyncer previous c w1) else None)"
    and "pb_backward p = NewBackwardSyncer (blk_Number first) (back_sync_blocks (blk_Number first)
      (case Latest latest of Inl e \<Rightarrow> 0 | Inr n \<Rightarrow> n) backSyncBlocks)"
proof -
  have num: "\<And>n w b w'. cl_ExpandedBlock cl (RevNumber n) w = (Inr b, w') \<Longrightarrow> blk_Number b = n"
    using assms(2) unfolding node_numbers_def by blast
  from assms(1) obtain first0 w1 w2 first previous w3 where
    0: "cl_ExpandedBlock cl (if endBlock \<noteq> 0 then RevNumber endBlock else RevFinalized) w = (Inr first0, w1)" and
    1: "first_and_previous cl first0 w2 = (Ok (first, previous), w3)" and
    p: "pb_forward p = (if endBlock = 0 then Some (NewForwardSyncer previous c w3) else None)"
      "pb_backward p = NewBackwardSyncer (blk_Number first) (back_sync_blocks (blk_Number first)
        (case Latest latest of Inl e \<Rightarrow> 0 | Inr n \<Rightarrow> n) backSyncBlocks)"
    by (auto simp: NewPublisher_def first_block_def outcome_simps Let_def)
  show thesis
  proof (cases "blk_Number first0 = 0")
    case True
    with 1 have "previous = first0" "blk_Number first = 1"
      by (auto simp: first_and_previous_def outcome_simps dest: num)
    with True show thesis using 0 p by (intro that [of first previous w3]) (auto dest: num)
  next
    case False
    with 1 have "first = first0" "blk_Number previous = blk_Number first0 - 1"
      by (auto simp: first_and_previous_def outcome_simps dest: num)
    with False show thesis using 0 p by (intro that [of first previous w3]) (auto dest: num simp: word_neq_0_conv)
  qed
qed

section \<open>Run\<close>

text \<open>
  Both syncers run concurrently and send to the block channel; \<open>Run\<close> closes it once both
  returned; the subscriber receives. A send on the closed channel would panic.
\<close>

definition DefaultChannelBuffer :: nat where
  "DefaultChannelBuffer = 2000"

record prun =
  pr_backwardRunning :: bool
  pr_forwardRunning :: bool
  pr_chan :: "BlockEvent chan"
  pr_sent :: "BlockEvent list"
  pr_received :: "BlockEvent list"
  pr_panicked :: bool

definition start_run :: "('w, 'c) publisher \<Rightarrow> prun" where
  "start_run p = \<lparr>pr_backwardRunning = True, pr_forwardRunning = (pb_forward p \<noteq> None),
     pr_chan = make_chan DefaultChannelBuffer, pr_sent = [], pr_received = [], pr_panicked = False\<rparr>"

definition someone_running :: "prun \<Rightarrow> bool" where
  "someone_running s \<longleftrightarrow> pr_backwardRunning s \<or> pr_forwardRunning s"

inductive pstep :: "prun \<Rightarrow> prun \<Rightarrow> bool" where
  send: "\<lbrakk>someone_running s; chan_send (pr_chan s) e = Some c\<rbrakk>
    \<Longrightarrow> pstep s (s\<lparr>pr_chan := c, pr_sent := pr_sent s @ [e]\<rparr>)"
| send_closed: "\<lbrakk>someone_running s; ch_closed (pr_chan s)\<rbrakk> \<Longrightarrow> pstep s (s\<lparr>pr_panicked := True\<rparr>)"
| backward_returns: "pr_backwardRunning s \<Longrightarrow> pstep s (s\<lparr>pr_backwardRunning := False\<rparr>)"
| forward_returns: "pr_forwardRunning s \<Longrightarrow> pstep s (s\<lparr>pr_forwardRunning := False\<rparr>)"
| close: "\<lbrakk>\<not> someone_running s; \<not> ch_closed (pr_chan s)\<rbrakk> \<Longrightarrow> pstep s (s\<lparr>pr_chan := chan_close (pr_chan s)\<rparr>)"
| receive: "chan_recv (pr_chan s) = Some (e, c) \<Longrightarrow> pstep s (s\<lparr>pr_chan := c, pr_received := pr_received s @ [e]\<rparr>)"

inductive_cases pstep_cases: "pstep s t"

inductive preach :: "('w, 'c) publisher \<Rightarrow> prun \<Rightarrow> bool" for p where
  start: "preach p (start_run p)"
| step: "preach p s \<Longrightarrow> pstep s t \<Longrightarrow> preach p t"

definition pr_inv :: "prun \<Rightarrow> bool" where
  "pr_inv s \<longleftrightarrow> \<not> pr_panicked s \<and> (ch_closed (pr_chan s) \<longrightarrow> \<not> someone_running s) \<and>
     pr_sent s = pr_received s @ ch_buf (pr_chan s) \<and>
     ch_cap (pr_chan s) = DefaultChannelBuffer \<and> length (ch_buf (pr_chan s)) \<le> DefaultChannelBuffer"

lemma pr_inv_step: "pstep s t \<Longrightarrow> pr_inv s \<Longrightarrow> pr_inv t"
proof (induction rule: pstep.induct)
  case (send s e c)
  then show ?case
    using chan.send_contents [OF send(2)] chan.send_bound [OF send(2)] chan_send_closed [OF send(2)]
    by (simp add: pr_inv_def)
next
  case (receive s e c)
  then show ?case
    using chan.recv_contents [OF receive(1)] chan.recv_bound [OF receive(1)] chan_recv_closed [OF receive(1)]
    by (simp add: pr_inv_def someone_running_def)
qed (auto simp: pr_inv_def someone_running_def)

lemma preach_inv: "preach p s \<Longrightarrow> pr_inv s"
proof (induction rule: preach.induct)
  case start
  show ?case by (simp add: pr_inv_def start_run_def make_chan_def DefaultChannelBuffer_def)
next
  case (step s t)
  then show ?case by (blast intro: pr_inv_step)
qed

section \<open>Properties\<close>

lemma unat_back_sync:
  fixes first latest backSyncBlocks :: u32
  assumes "0 < first"
  defines "F \<equiv> unat first" and "L \<equiv> unat latest" and "B \<equiv> unat backSyncBlocks"
  shows "unat (back_sync_blocks first latest backSyncBlocks) =
    (let n = if F < B then F - 1 else B in if F - n < L then F - L else n)"
proof -
  have F: "1 \<le> first" "0 < F" using assms(1) by (auto simp: F_def word_less_nat_alt word_le_nat_alt)
  define n where "n = (if first < backSyncBlocks then first - 1 else backSyncBlocks)"
  have n: "unat n = (if F < B then F - 1 else B)"
    using F by (simp add: n_def F_def B_def word_less_nat_alt unat_sub)
  then have le: "n \<le> first" using F by (auto simp: word_le_nat_alt F_def split: if_splits)
  have "unat (first - n) = F - unat n" using le by (simp add: unat_sub F_def)
  moreover have "unat (first - latest) = F - L" if "\<not> first \<le> latest"
    using that by (simp add: unat_sub F_def L_def)
  moreover have "back_sync_blocks first latest backSyncBlocks =
      (if first - n < latest then (if first \<le> latest then 0 else first - latest) else n)"
    by (simp add: back_sync_blocks_def n_def Let_def)
  ultimately show ?thesis
    unfolding n [symmetric] Let_def by (simp add: word_less_nat_alt word_le_nat_alt F_def L_def)
qed

lemma unat_backward_minBlock:
  assumes "0 < first"
  shows "unat (backward_minBlock first (back_sync_blocks first latest backSyncBlocks)) =
    min (unat first) (max (unat latest)
      (unat first - (if first < backSyncBlocks then unat first - 1 else unat backSyncBlocks)))"
proof -
  let ?n = "back_sync_blocks first latest backSyncBlocks"
  have min: "unat (backward_minBlock first ?n) = unat first - unat ?n"
    by (auto simp: backward_minBlock_def word_less_nat_alt unat_sub word_le_nat_alt not_less)
  show ?thesis
    unfolding min unat_back_sync [OF assms] using assms
    by (auto simp: Let_def word_less_nat_alt)
qed


text \<open>C21: A publisher without an end block leaves no gap: the forward syncer continues with the very block
  the backward syncer starts from, which both of them then process.\<close>

theorem publisher_no_gap:
  assumes "NewPublisher cl g backSyncBlocks endBlock latest c w = (Ok p, w')" and "node_numbers cl"
  shows "0 < bs_blockNum (pb_backward p) \<and>
    (endBlock = 0 \<longrightarrow> (\<exists>f. pb_forward p = Some f \<and> blk_Number (fs_prev f) + 1 = bs_blockNum (pb_backward p))) \<and>
    (endBlock \<noteq> 0 \<longrightarrow> pb_forward p = None \<and> bs_blockNum (pb_backward p) = endBlock)"
  using assms
proof (rule NewPublisher_Ok)
  fix first previous :: Block and w1
  assume 1: "0 < blk_Number first" "endBlock \<noteq> 0 \<Longrightarrow> blk_Number first = endBlock"
    "blk_Number previous = blk_Number first - 1 \<or> blk_Number previous = 0 \<and> blk_Number first = 1"
    and forward: "pb_forward p = (if endBlock = 0 then Some (NewForwardSyncer previous c w1) else None)"
    and backward: "pb_backward p = NewBackwardSyncer (blk_Number first) (back_sync_blocks (blk_Number first)
      (case Latest latest of Inl e \<Rightarrow> 0 | Inr n \<Rightarrow> n) backSyncBlocks)"
  have "bs_blockNum (pb_backward p) = blk_Number first" unfolding backward by (simp add: NewBackwardSyncer_def)
  then show ?thesis using 1 unfolding forward by (auto simp: NewForwardSyncer_def)
qed

text \<open>In every interleaving of the two syncers, \<open>Run\<close> and the subscriber, nobody sends on the closed
  channel, the buffer keeps to its capacity, the events received are a prefix of the events sent in the
  same order, and once the closed channel is drained nothing was lost.\<close>

theorem publisher_run_safe:
  assumes "preach p s"
  shows "\<not> pr_panicked s \<and> length (ch_buf (pr_chan s)) \<le> DefaultChannelBuffer \<and>
    pr_sent s = pr_received s @ ch_buf (pr_chan s) \<and>
    (chan_drained (pr_chan s) \<longrightarrow> \<not> someone_running s \<and> pr_received s = pr_sent s)"
  using preach_inv [OF assms] by (auto simp: pr_inv_def chan_drained_def)

text \<open>Asking for one block more than there are shortens the range: block 1 is synced when exactly
  as many blocks as the first block's number are asked for, and left out when more are.\<close>

theorem backward_range_skips_first:
  assumes "1 < first" and "first < 2 ^ 32 - 1"
  shows "backward_minBlock first (back_sync_blocks first 0 first) = 0 \<and>
    backward_minBlock first (back_sync_blocks first 0 (first + 1)) = 1"
proof -
  have "0 < first" using assms(1) by (rule order.strict_trans [rotated]) simp
  moreover have "first < first + 1" using assms(2) by (simp add: word_less_nat_alt unat_Suc_small)
  ultimately have
    "unat (backward_minBlock first (back_sync_blocks first 0 first)) = 0"
    "unat (backward_minBlock first (back_sync_blocks first 0 (first + 1))) = 1"
    using unat_backward_minBlock [of first 0 first] unat_backward_minBlock [of first 0 "first + 1"] assms(1)
    by (auto simp: word_less_nat_alt)
  then show ?thesis by (simp add: word_unat_eq_iff)
qed

section \<open>Instances\<close>


theorem backward_range_skips_first_witness:
  "backward_minBlock 100 (back_sync_blocks 100 0 100) = 0 \<and> backward_minBlock 100 (back_sync_blocks 100 0 101) = 1"
  using backward_range_skips_first [of 100] by simp

definition sample_publisher :: "(int, (u32 \<times> FetchResult) list) publisher" where
  "sample_publisher = \<lparr>pb_forked = 100, pb_active = 150,
     pb_forward = Some (NewForwardSyncer genesis_block [] 0), pb_backward = NewBackwardSyncer 1 0\<rparr>"

lemma sample_NewPublisher:
  "NewPublisher sample_client \<lparr>gc_HAYABUSA = Some 100, gc_HayabusaTP = Some 50\<rparr> 7 0 NoRecord [] 0 = (Ok sample_publisher, 0)"
proof -
  have "cl_ExpandedBlock sample_client RevFinalized 0 = (Inr genesis_block, 0)"
    "cl_ExpandedBlock sample_client (RevNumber 1) 0 = (Inr main1, 0)"
    "blk_Number genesis_block = 0" "blk_Number main1 = 1"
    by (simp_all add: sample_client_def sample_answer_def found_def best_chain_def sample_blocks)
  then show ?thesis
    by (simp add: NewPublisher_def first_block_def hayabusa_heights_def first_and_previous_def sample_publisher_def
        back_sync_blocks_def Let_def)
qed

theorem publisher_no_gap_witness:
  "\<exists>f. pb_forward sample_publisher = Some f \<and> blk_Number (fs_prev f) + 1 = 1 \<and>
     bs_blockNum (pb_backward sample_publisher) = 1"
proof -
  have "bs_blockNum (pb_backward sample_publisher) = 1"
    by (simp add: sample_publisher_def NewBackwardSyncer_def)
  then show ?thesis using publisher_no_gap [OF sample_NewPublisher sample_node_numbers] by auto
qed

theorem publisher_run_safe_witness:
  "\<exists>s. preach sample_publisher s \<and> pr_received s = [sample_event] \<and> pr_sent s = [sample_event]"
proof -
  let ?c = "make_chan DefaultChannelBuffer :: BlockEvent chan"
  let ?s0 = "start_run sample_publisher"
  let ?s1 = "?s0\<lparr>pr_chan := ?c\<lparr>ch_buf := [sample_event]\<rparr>, pr_sent := [sample_event]\<rparr>"
  let ?s2 = "?s1\<lparr>pr_chan := ?c, pr_received := [sample_event]\<rparr>"
  have "pstep ?s0 ?s1"
    using pstep.send [of ?s0 sample_event]
    by (simp add: someone_running_def start_run_def chan_send_def can_send_def make_chan_def DefaultChannelBuffer_def)
  moreover have "pstep ?s1 ?s2"
    using pstep.receive [of ?s1 sample_event ?c]
    by (simp add: start_run_def chan_recv_def make_chan_def)
  ultimately have "preach sample_publisher ?s2" using preach.start preach.step by blast
  with publisher_run_safe [OF this] show ?thesis by (intro exI [of _ ?s2]) simp
qed

end
