(* ===== verification/Syncing.thy ===== *)
theory Syncing
  imports Publisher
begin

text \<open>
  \<^verbatim>\<open>Publisher.Run\<close> with the two syncers inside: their own step relations, sending to the one
  bounded channel of block events that the subscriber receives from. Publisher describes the
  same run seen from the channel alone; here every send is made by a syncer.
\<close>

section \<open>Sending to the shared channel\<close>

text \<open>What a move of a syncer sends, if anything: a full channel blocks it, a closed one panics.\<close>

definition emit :: "BlockEvent option \<Rightarrow> prun \<Rightarrow> prun option" where
  "emit out r = (case out of
       None \<Rightarrow> Some r
     | Some e \<Rightarrow>
         if ch_closed (pr_chan r) then Some (r\<lparr>pr_panicked := True\<rparr>)
         else (case chan_send (pr_chan r) e of
                 None \<Rightarrow> None
               | Some c \<Rightarrow> Some (r\<lparr>pr_chan := c, pr_sent := pr_sent r @ [e]\<rparr>)))"

definition listed :: "'a option \<Rightarrow> 'a list" where
  "listed out = (case out of None \<Rightarrow> [] | Some e \<Rightarrow> [e])"

lemma listed_simps [simp]: "listed None = []" "listed (Some e) = [e]"
  by (simp_all add: listed_def)

lemma emit_None [simp]: "emit None r = Some r"
  by (simp add: emit_def)

lemma emit_flags:
  "emit out r = Some r' \<Longrightarrow> pr_backwardRunning r' = pr_backwardRunning r \<and> pr_forwardRunning r' = pr_forwardRunning r \<and>
     pr_received r' = pr_received r"
  by (auto simp: emit_def split: option.splits if_splits)

lemma emit_pstep:
  assumes "emit out r = Some r'" and "out \<noteq> None \<Longrightarrow> someone_running r"
  shows "r' = r \<or> pstep r r'"
  using assms by (auto simp: emit_def split: option.splits if_splits intro: pstep.send pstep.send_closed)

lemma emit_sent:
  assumes "emit out r = Some r'" and "out \<noteq> None \<Longrightarrow> \<not> ch_closed (pr_chan r)"
  shows "pr_sent r' = pr_sent r @ listed out"
  using assms by (auto simp: emit_def split: option.splits if_splits)

lemma emit_possible:
  "length (ch_buf (pr_chan r)) < ch_cap (pr_chan r) \<Longrightarrow> \<exists>r'. emit out r = Some r'"
  by (auto simp: emit_def chan_send_def can_send_def split: option.splits)

section \<open>Run\<close>

record ('w, 'c) syncing =
  sy_backward :: bsync
  sy_forward :: "('w, 'c) fsync option"
  sy_sending :: "('w, 'c) fsync option"
  sy_run :: prun
  sy_ended :: bool

definition syncing_start :: "('w, 'c) publisher \<Rightarrow> ('w, 'c) syncing" where
  "syncing_start p = \<lparr>sy_backward = pb_backward p, sy_forward = pb_forward p, sy_sending = None,
     sy_run = start_run p, sy_ended = False\<rparr>"

text \<open>The process runs until a goroutine panics or the forward syncer exits it.\<close>

definition sy_alive :: "('w, 'c) syncing \<Rightarrow> bool" where
  "sy_alive s \<longleftrightarrow> \<not> sy_ended s \<and> \<not> bs_crashed (sy_backward s)"

text \<open>
  A move of the backward syncer, cancellation included, since both syncers share the context; a
  pass of the forward syncer, which looks at the context when it begins; what the other
  goroutines do to the cache; and the rest of \<open>Run\<close>. A pass that has an event to send first waits
  to send it, its outcome kept in \<open>sy_sending\<close>: the event of a block is given up when the context is
  cancelled, that of a fork is not, because its send is no \<open>select\<close>.
\<close>

definition to_send :: "('w, 'c) fsync \<Rightarrow> BlockEvent" where
  "to_send g = last (fs_sent g)"

inductive systep :: "('w, 'c) fetcher \<Rightarrow> ('w, 'c) syncing \<Rightarrow> ('w, 'c) syncing \<Rightarrow> bool" for b where
  backward: "\<lbrakk>sy_alive s; bstep (service_may b) (sy_backward s) k;
      map snd (bs_sent k) = map snd (bs_sent (sy_backward s)) @ listed out; emit out (sy_run s) = Some r\<rbrakk>
    \<Longrightarrow> systep b s (s\<lparr>sy_backward := k, sy_run := r\<rparr>)"
| forward: "\<lbrakk>sy_alive s; pr_forwardRunning (sy_run s); sy_forward s = Some f; sy_sending s = None;
      forward_pass b (bs_cancelled (sy_backward s)) False f = Some (FContinue, g); fs_sent g = fs_sent f\<rbrakk>
    \<Longrightarrow> systep b s (s\<lparr>sy_forward := Some g\<rparr>)"
| forward_wants: "\<lbrakk>sy_alive s; pr_forwardRunning (sy_run s); sy_forward s = Some f; sy_sending s = None;
      forward_pass b (bs_cancelled (sy_backward s)) False f = Some (FContinue, g); fs_sent g = fs_sent f @ [e]\<rbrakk>
    \<Longrightarrow> systep b s (s\<lparr>sy_sending := Some g\<rparr>)"
| forward_sends: "\<lbrakk>sy_alive s; pr_forwardRunning (sy_run s); sy_sending s = Some g;
      emit (Some (to_send g)) (sy_run s) = Some r\<rbrakk>
    \<Longrightarrow> systep b s (s\<lparr>sy_forward := Some g, sy_sending := None, sy_run := r\<rparr>)"
| forward_gives_up: "\<lbrakk>sy_alive s; pr_forwardRunning (sy_run s); sy_sending s = Some g;
      bs_cancelled (sy_backward s); \<not> fk_Occurred (be_Fork (to_send g))\<rbrakk>
    \<Longrightarrow> systep b s (s\<lparr>sy_sending := None, sy_run := (sy_run s)\<lparr>pr_forwardRunning := False\<rparr>\<rparr>)"
| forward_returns: "\<lbrakk>sy_alive s; pr_forwardRunning (sy_run s); sy_forward s = Some f; sy_sending s = None;
      forward_pass b (bs_cancelled (sy_backward s)) False f = Some (FReturned, g)\<rbrakk>
    \<Longrightarrow> systep b s (s\<lparr>sy_run := (sy_run s)\<lparr>pr_forwardRunning := False\<rparr>\<rparr>)"
| forward_ends: "\<lbrakk>sy_alive s; pr_forwardRunning (sy_run s); sy_forward s = Some f; sy_sending s = None;
      forward_pass b (bs_cancelled (sy_backward s)) False f = Some (r, g); r = FExited \<or> r = FCrashed p\<rbrakk>
    \<Longrightarrow> systep b s (s\<lparr>sy_ended := True\<rparr>)"
| others: "\<lbrakk>sy_alive s; sy_forward s = Some f; cache_inv b (c, w)\<rbrakk>
    \<Longrightarrow> systep b s (s\<lparr>sy_forward := Some (f\<lparr>fs_cache := c, fs_world := w\<rparr>)\<rparr>)"
| backward_returns: "\<lbrakk>sy_alive s; pr_backwardRunning (sy_run s); bfinished (sy_backward s)\<rbrakk>
    \<Longrightarrow> systep b s (s\<lparr>sy_run := (sy_run s)\<lparr>pr_backwardRunning := False\<rparr>\<rparr>)"
| close: "\<lbrakk>sy_alive s; \<not> someone_running (sy_run s); \<not> ch_closed (pr_chan (sy_run s))\<rbrakk>
    \<Longrightarrow> systep b s (s\<lparr>sy_run := (sy_run s)\<lparr>pr_chan := chan_close (pr_chan (sy_run s))\<rparr>\<rparr>)"
| receive: "\<lbrakk>sy_alive s; chan_recv (pr_chan (sy_run s)) = Some (e, c)\<rbrakk>
    \<Longrightarrow> systep b s (s\<lparr>sy_run := (sy_run s)\<lparr>pr_chan := c, pr_received := pr_received (sy_run s) @ [e]\<rparr>\<rparr>)"

inductive syreach :: "('w, 'c) fetcher \<Rightarrow> ('w, 'c) publisher \<Rightarrow> ('w, 'c) syncing \<Rightarrow> bool" for b p where
  start: "syreach b p (syncing_start p)"
| step: "syreach b p s \<Longrightarrow> systep b s t \<Longrightarrow> syreach b p t"

section \<open>The parts of a run\<close>

lemma bstep_finished: "bstep may s t \<Longrightarrow> bfinished s \<Longrightarrow> bs_sent t = bs_sent s \<and> bfinished t"
  by (induction rule: bstep.induct) (auto simp: bfinished_def dest!: worker_at_set)

lemma shuffles_snoc_left: "zs \<in> shuffles xs ys \<Longrightarrow> zs @ [z] \<in> shuffles (xs @ [z]) ys"
  by (induction zs arbitrary: xs ys) (auto simp: Cons_in_shuffles_iff)

lemma shuffles_snoc_right: "zs \<in> shuffles xs ys \<Longrightarrow> zs @ [z] \<in> shuffles xs (ys @ [z])"
  using shuffles_snoc_left [of zs ys xs z] by (simp add: shuffles_commutes)

definition forward_log :: "('w, 'c) syncing \<Rightarrow> BlockEvent list" where
  "forward_log s = (case sy_forward s of None \<Rightarrow> [] | Some f \<Rightarrow> fs_sent f)"

text \<open>The run is one of Publisher, each syncer's part is a run of that syncer, and the channel was sent a
  shuffle of their logs.\<close>

definition sy_inv :: "('w, 'c) fetcher \<Rightarrow> ('w, 'c) publisher \<Rightarrow> ('w, 'c) syncing \<Rightarrow> bool" where
  "sy_inv b p s \<longleftrightarrow> preach p (sy_run s) \<and>
     (\<forall>head n. pb_backward p = NewBackwardSyncer head n \<longrightarrow> breach (service_may b) head n (sy_backward s)) \<and>
     (case (pb_forward p, sy_forward s) of
        (None, None) \<Rightarrow> \<not> pr_forwardRunning (sy_run s)
      | (Some f0, Some f) \<Rightarrow> freach b f0 f
      | _ \<Rightarrow> False) \<and>
     (\<forall>g. sy_sending s = Some g \<longrightarrow>
        (\<exists>f e. sy_forward s = Some f \<and> fs_sent g = fs_sent f @ [e] \<and> (\<forall>f0. pb_forward p = Some f0 \<longrightarrow> freach b f0 g))) \<and>
     (\<not> pr_backwardRunning (sy_run s) \<longrightarrow> bfinished (sy_backward s)) \<and>
     pr_sent (sy_run s) \<in> shuffles (map snd (bs_sent (sy_backward s))) (forward_log s)"

text \<open>A publisher as \<open>NewPublisher\<close> builds it: nothing sent yet.\<close>

definition fresh_publisher :: "('w, 'c) publisher \<Rightarrow> bool" where
  "fresh_publisher p \<longleftrightarrow> bs_sent (pb_backward p) = [] \<and> (\<forall>f. pb_forward p = Some f \<longrightarrow> fs_sent f = [])"

lemma start_run_simps [simp]:
  "pr_sent (start_run p) = []" "pr_backwardRunning (start_run p)" "pr_forwardRunning (start_run p) \<longleftrightarrow> pb_forward p \<noteq> None"
  "pr_chan (start_run p) = make_chan DefaultChannelBuffer" "pr_received (start_run p) = []"
  by (simp_all add: start_run_def)

lemma sy_inv_start: "fresh_publisher p \<Longrightarrow> sy_inv b p (syncing_start p)"
  by (auto simp: sy_inv_def syncing_start_def fresh_publisher_def forward_log_def
      intro: preach.start breach.start freach.start split: option.split)

lemma open_while_running: "preach p r \<Longrightarrow> someone_running r \<Longrightarrow> \<not> ch_closed (pr_chan r)"
  using preach_inv by (auto simp: pr_inv_def)

lemma sender_running:
  assumes "sy_inv b p s" and "bstep (service_may b) (sy_backward s) k"
    and "map snd (bs_sent k) = map snd (bs_sent (sy_backward s)) @ listed out" and "out \<noteq> None"
  shows "someone_running (sy_run s)"
  using assms bstep_finished [OF assms(2)] by (auto simp: sy_inv_def someone_running_def)

text \<open>Seen from the channel, every step is a step of Publisher or none.\<close>

lemma systep_run:
  assumes "systep b s t" and "sy_inv b p s"
  shows "sy_run t = sy_run s \<or> pstep (sy_run s) (sy_run t)"
  using assms
proof (induction rule: systep.induct)
  case (backward s k out r)
  from sender_running [OF backward.prems backward(2,3)] emit_pstep [OF backward(4)] show ?case by simp
next
  case (forward_sends s g r)
  then show ?case using emit_pstep [OF forward_sends(4)] by (simp add: someone_running_def)
qed (auto intro: pstep.intros)

lemma sy_inv_step:
  assumes "systep b s t" and "sy_inv b p s"
  shows "sy_inv b p t"
  using assms
proof (induction rule: systep.induct)
  case (backward s k out r)
  have reach: "preach p (sy_run s)" using backward.prems by (simp add: sy_inv_def)
  moreover have "sy_run s = r \<or> pstep (sy_run s) r"
    using systep_run [OF systep.backward [OF backward(1-4)] backward.prems] by auto
  ultimately have "preach p r" by (auto intro: preach.step)
  moreover have "pr_sent r = pr_sent (sy_run s) @ listed out"
    using emit_sent [OF backward(4)] sender_running [OF backward.prems backward(2,3)] open_while_running [OF reach] by blast
  ultimately show ?case
    using backward.prems backward(2,3) emit_flags [OF backward(4)] bstep_finished [OF backward(2)]
    by (cases out) (auto simp: sy_inv_def forward_log_def intro: breach.step shuffles_snoc_left split: option.splits)
next
  case (forward s f g)
  then show ?case by (auto simp: sy_inv_def forward_log_def intro: freach.pass split: option.splits)
next
  case (forward_wants s f g e)
  then show ?case by (auto simp: sy_inv_def forward_log_def intro: freach.pass split: option.splits)
next
  case (forward_sends s g r)
  have reach: "preach p (sy_run s)" using forward_sends.prems by (simp add: sy_inv_def)
  moreover have "sy_run s = r \<or> pstep (sy_run s) r"
    using systep_run [OF systep.forward_sends [OF forward_sends(1-4)] forward_sends.prems] by auto
  ultimately have "preach p r" by (auto intro: preach.step)
  moreover have "pr_sent r = pr_sent (sy_run s) @ [to_send g]"
    using emit_sent [OF forward_sends(4)] forward_sends(2) open_while_running [OF reach] by (auto simp: someone_running_def)
  ultimately show ?case
    using forward_sends.prems forward_sends(2,3) emit_flags [OF forward_sends(4)]
    by (auto simp: sy_inv_def forward_log_def to_send_def intro: shuffles_snoc_right split: option.splits)
qed (auto simp: sy_inv_def forward_log_def intro: preach.step pstep.intros freach.others split: option.splits)

lemma syreach_inv: "syreach b p s \<Longrightarrow> fresh_publisher p \<Longrightarrow> sy_inv b p s"
  by (induction rule: syreach.induct) (auto intro: sy_inv_start sy_inv_step)

text \<open>What a run shows of the channel: nothing lost, nothing out of order, no panic.\<close>

lemma syncing_channel:
  assumes "syreach b p s" and "fresh_publisher p"
  shows "\<not> pr_panicked (sy_run s)" and "pr_sent (sy_run s) = pr_received (sy_run s) @ ch_buf (pr_chan (sy_run s))"
    and "ch_closed (pr_chan (sy_run s)) \<Longrightarrow> bfinished (sy_backward s)"
  using syreach_inv [OF assms] preach_inv [of p "sy_run s"] by (auto simp: sy_inv_def pr_inv_def someone_running_def)

lemma syncing_backward:
  "syreach b p s \<Longrightarrow> fresh_publisher p \<Longrightarrow> pb_backward p = NewBackwardSyncer head n \<Longrightarrow>
     breach (service_may b) head n (sy_backward s)"
  by (drule (1) syreach_inv) (simp add: sy_inv_def)

lemma syncing_shuffle:
  "syreach b p s \<Longrightarrow> fresh_publisher p \<Longrightarrow>
     pr_sent (sy_run s) \<in> shuffles (map snd (bs_sent (sy_backward s))) (forward_log s)"
  by (drule (1) syreach_inv) (simp add: sy_inv_def)

text \<open>What \<open>NewPublisher\<close> hands to \<open>Run\<close>.\<close>

lemma NewPublisher_parts:
  assumes "NewPublisher cl g backSyncBlocks endBlock latest c w = (Ok p, w')" and "node_numbers cl"
  obtains head n where "fresh_publisher p" and "pb_backward p = NewBackwardSyncer head n" and "0 < head"
    and "endBlock \<noteq> 0 \<Longrightarrow> head = endBlock \<and> pb_forward p = None"
    and "endBlock = 0 \<Longrightarrow> \<exists>previous w1. pb_forward p = Some (NewForwardSyncer previous c w1) \<and> blk_Number previous = head - 1"
  using assms
proof (rule NewPublisher_Ok)
  fix first previous :: Block and w1
  assume 1: "0 < blk_Number first" "endBlock \<noteq> 0 \<Longrightarrow> blk_Number first = endBlock"
    "blk_Number previous = blk_Number first - 1 \<or> blk_Number previous = 0 \<and> blk_Number first = 1"
    and forward: "pb_forward p = (if endBlock = 0 then Some (NewForwardSyncer previous c w1) else None)"
    and backward: "pb_backward p = NewBackwardSyncer (blk_Number first) (back_sync_blocks (blk_Number first)
      (case Latest latest of Inl e \<Rightarrow> 0 | Inr n \<Rightarrow> n) backSyncBlocks)"
  have "fresh_publisher p"
    unfolding fresh_publisher_def forward backward by (simp add: NewBackwardSyncer_def NewForwardSyncer_def)
  moreover have "blk_Number previous = blk_Number first - 1" using 1(3) by auto
  ultimately show thesis using that [OF _ backward 1(1)] 1(2) forward by auto
qed

lemma new_backward: "bs_minBlock (NewBackwardSyncer head n) = backward_minBlock head n"
  "bs_blockNum (NewBackwardSyncer head n) = head"
  by (simp_all add: NewBackwardSyncer_def)

section \<open>Bounded runs\<close>

text \<open>With an end block the backward syncer is alone: each event of its log is received once.\<close>

lemma bounded_run_log:
  assumes "syreach b p s" and "fresh_publisher p" and "pb_forward p = None"
  shows "pr_sent (sy_run s) = map snd (bs_sent (sy_backward s))"
proof -
  have "forward_log s = []"
    using syreach_inv [OF assms(1,2)] assms(3) by (auto simp: sy_inv_def forward_log_def split: option.splits)
  with syncing_shuffle [OF assms(1,2)] show ?thesis by simp
qed

lemma sent_numbers:
  assumes "breach (service_may b) head n k"
  shows "map (\<lambda>e. blk_Number (be_Block e)) (map snd (bs_sent k)) = map fst (bs_sent k)"
    and "\<forall>e \<in> set (map snd (bs_sent k)). \<not> fk_Occurred (be_Fork e)"
  using breach_events [OF assms] service.may_number service.may_not_fork
  by (fastforce simp: events_from_def)+

lemma bounded_run_numbers:
  assumes "syreach b p s" and "fresh_publisher p" and "pb_forward p = None" and "pb_backward p = NewBackwardSyncer head n"
    and "ch_closed (pr_chan (sy_run s))" and "\<not> bs_cancelled (sy_backward s)"
  shows "mset (map (\<lambda>e. blk_Number (be_Block e)) (pr_sent (sy_run s))) + mset (bs_failed (sy_backward s)) =
    span (backward_minBlock head n) head"
proof -
  note reach = syncing_backward [OF assms(1,2,4)]
  have "bfinished (sy_backward s)" using syncing_channel(3) [OF assms(1,2)] assms(5) .
  from finished_remaining [OF breach_inv [OF reach] this assms(6)] show ?thesis
    unfolding bounded_run_log [OF assms(1-3)] sent_numbers(1) [OF reach] .
qed

section \<open>Coming to an end\<close>

text \<open>How far a run is from its end, when the forward syncer is cancelled or there is none.\<close>

definition forward_weight :: "('w, 'c) syncing \<Rightarrow> nat" where
  "forward_weight s = (if \<not> pr_forwardRunning (sy_run s) then 0 else if sy_sending s = None then 1 else 4)"

definition sy_measure :: "('w, 'c) syncing \<Rightarrow> nat" where
  "sy_measure s = 2 * bmeasure (sy_backward s) + forward_weight s + length (ch_buf (pr_chan (sy_run s))) +
     of_bool (pr_backwardRunning (sy_run s)) + of_bool (\<not> ch_closed (pr_chan (sy_run s)))"

definition winding_down :: "('w, 'c) syncing \<Rightarrow> bool" where
  "winding_down s \<longleftrightarrow> bs_cancelled (sy_backward s) \<or> \<not> pr_forwardRunning (sy_run s)"

text \<open>A step that touches nothing but the cache.\<close>

definition cache_only :: "('w, 'c) syncing \<Rightarrow> ('w, 'c) syncing \<Rightarrow> bool" where
  "cache_only s t \<longleftrightarrow> sy_backward t = sy_backward s \<and> sy_run t = sy_run s \<and> sy_sending t = sy_sending s \<and>
     sy_ended t = sy_ended s \<and> forward_log t = forward_log s \<and> sy_forward s \<noteq> None"

lemma cancelled_pass: "forward_pass b True c2 f = Some (FReturned, f)"
  by (simp add: forward_pass_def)

lemma emit_buffer:
  "emit out r = Some r' \<Longrightarrow> length (ch_buf (pr_chan r')) \<le> Suc (length (ch_buf (pr_chan r))) \<and>
     ch_closed (pr_chan r') = ch_closed (pr_chan r)"
  by (auto simp: emit_def chan.send_contents split: option.splits if_splits dest: chan_send_closed)

lemma systep_measure:
  assumes "systep b s t" and "winding_down s"
  shows "cache_only s t \<or> sy_ended t \<or> sy_measure t < sy_measure s"
  using assms
proof (induction rule: systep.induct)
  case (backward s k out r)
  with bstep_measure [OF backward(2)] emit_flags [OF backward(4)] emit_buffer [OF backward(4)] show ?case
    by (simp add: sy_measure_def forward_weight_def)
next
  case (forward_sends s g r)
  with emit_flags [OF forward_sends(4)] emit_buffer [OF forward_sends(4)] show ?case
    by (simp add: sy_measure_def forward_weight_def)
next
  case (receive s e c)
  then show ?case
    using chan.recv_contents [OF receive(2)] chan_recv_closed [OF receive(2)]
    by (simp add: sy_measure_def forward_weight_def)
qed (auto simp: sy_measure_def forward_weight_def winding_down_def cancelled_pass cache_only_def forward_log_def
    someone_running_def)

text \<open>With no forward syncer every step brings the end nearer.\<close>

definition alone :: "('w, 'c) syncing \<Rightarrow> bool" where
  "alone s \<longleftrightarrow> sy_forward s = None \<and> sy_sending s = None \<and> \<not> sy_ended s \<and> \<not> pr_forwardRunning (sy_run s)"

lemma alone_step:
  assumes "systep b s t" and "alone s"
  shows "alone t \<and> sy_measure t < sy_measure s"
proof -
  have "alone t" using assms by (induction rule: systep.induct) (auto simp: alone_def dest: emit_flags)
  moreover have "winding_down s" using assms(2) by (simp add: winding_down_def alone_def)
  ultimately show ?thesis
    using systep_measure [OF assms(1)] assms(2) by (auto simp: alone_def cache_only_def)
qed

lemma alone_alive: "syreach b p s \<Longrightarrow> pb_forward p = None \<Longrightarrow> alone s"
  by (induction rule: syreach.induct) (auto simp: syncing_start_def alone_def dest: alone_step [unfolded alone_def])

lemma bstep_one_event: "bstep may s t \<Longrightarrow> \<exists>out. map snd (bs_sent t) = map snd (bs_sent s) @ listed out"
  by (induction rule: bstep.induct)
    (auto intro: exI [of _ None] exI [of _ "Some e" for e :: BlockEvent] simp: set_worker_def)

text \<open>The one wait that nothing on the publishing side ends: a fork to report and no room for it.\<close>

definition fork_blocked :: "('w, 'c) syncing \<Rightarrow> bool" where
  "fork_blocked s \<longleftrightarrow> pr_forwardRunning (sy_run s) \<and> ch_cap (pr_chan (sy_run s)) \<le> length (ch_buf (pr_chan (sy_run s))) \<and>
     (\<exists>g. sy_sending s = Some g \<and> fk_Occurred (be_Fork (to_send g)))"

lemma backward_moves:
  assumes "breach (service_may b) head n (sy_backward s)" and "\<not> bfinished (sy_backward s)" and "sy_alive s"
    and "\<And>n. \<exists>r. service_may b n r"
    and "length (ch_buf (pr_chan (sy_run s))) < ch_cap (pr_chan (sy_run s)) \<or> bs_cancelled (sy_backward s)"
  shows "\<exists>k out r. systep b s (s\<lparr>sy_backward := k, sy_run := r\<rparr>) \<and> bstep (service_may b) (sy_backward s) k \<and>
    emit out (sy_run s) = Some r"
proof -
  have alive: "\<not> bs_crashed (sy_backward s)" using assms(3) by (simp add: sy_alive_def)
  obtain k0 where k0: "bstep (service_may b) (sy_backward s) k0" "bs_cancelled (sy_backward s) \<longrightarrow> bs_sent k0 = bs_sent (sy_backward s)"
    using bstep_progress [where may = "service_may b", OF breach_inv [OF assms(1)] alive assms(2,4)] unfolding bmoves_def by blast
  have "\<exists>k out r. bstep (service_may b) (sy_backward s) k \<and>
      map snd (bs_sent k) = map snd (bs_sent (sy_backward s)) @ listed out \<and> emit out (sy_run s) = Some r"
  proof (cases "bs_cancelled (sy_backward s)")
    case True
    with k0 show ?thesis by (intro exI [of _ k0] exI [of _ None] exI [of _ "sy_run s"]) simp
  next
    case False
    obtain out where "map snd (bs_sent k0) = map snd (bs_sent (sy_backward s)) @ listed out" using bstep_one_event [OF k0(1)] by blast
    moreover obtain r where "emit out (sy_run s) = Some r" using emit_possible assms(5) False by blast
    ultimately show ?thesis using k0(1) by blast
  qed
  then show ?thesis using assms(3) by (blast intro: systep.backward)
qed

text \<open>Winding down, the publishing side can go on by itself until it has closed the channel, except when it waits to
  report a fork.\<close>

lemma publishing_progress:
  assumes "syreach b p s" and "fresh_publisher p" and "pb_backward p = NewBackwardSyncer head n"
    and "\<And>n. \<exists>r. service_may b n r" and "sy_alive s" and "winding_down s" and "\<not> ch_closed (pr_chan (sy_run s))"
    and "length (ch_buf (pr_chan (sy_run s))) < ch_cap (pr_chan (sy_run s)) \<or> bs_cancelled (sy_backward s)"
  shows "fork_blocked s \<or>
    (\<exists>t. systep b s t \<and> pr_received (sy_run t) = pr_received (sy_run s) \<and> sy_measure t < sy_measure s)"
proof -
  let ?moves = "\<exists>t. systep b s t \<and> pr_received (sy_run t) = pr_received (sy_run s) \<and> sy_measure t < sy_measure s"
  have moves: ?moves if "systep b s t" "pr_received (sy_run t) = pr_received (sy_run s)" "\<not> cache_only s t" "\<not> sy_ended t" for t
    using systep_measure [OF that(1) assms(6)] that by blast
  have inv: "sy_inv b p s" using assms(1,2) by (rule syreach_inv)
  have going: "\<not> sy_ended s" using assms(5) by (simp add: sy_alive_def)
  consider (forward) "pr_forwardRunning (sy_run s)" | (stopped) "\<not> someone_running (sy_run s)"
    | (finished) "pr_backwardRunning (sy_run s)" "bfinished (sy_backward s)"
    | (backward) "\<not> bfinished (sy_backward s)"
    by (auto simp: someone_running_def)
  then show ?thesis
  proof cases
    case forward
    then obtain f where f: "sy_forward s = Some f" using inv by (auto simp: sy_inv_def split: option.splits)
    have cancelled: "bs_cancelled (sy_backward s)" using forward assms(6) by (simp add: winding_down_def)
    show ?thesis
    proof (cases "sy_sending s")
      case None
      have "systep b s (s\<lparr>sy_run := (sy_run s)\<lparr>pr_forwardRunning := False\<rparr>\<rparr>)"
        using assms(5) forward f None cancelled by (intro systep.forward_returns [where f = f and g = f]) (simp_all add: cancelled_pass)
      moreover have "sy_measure (s\<lparr>sy_run := (sy_run s)\<lparr>pr_forwardRunning := False\<rparr>\<rparr>) < sy_measure s"
        using forward None by (simp add: sy_measure_def forward_weight_def)
      ultimately show ?thesis by (intro disjI2 exI conjI) auto
    next
      case (Some g)
      consider (gives_up) "\<not> fk_Occurred (be_Fork (to_send g))"
        | (sends) "length (ch_buf (pr_chan (sy_run s))) < ch_cap (pr_chan (sy_run s))" | (blocked) "fork_blocked s"
        using Some forward by (auto simp: fork_blocked_def) (meson not_less)
      then show ?thesis
      proof cases
        case gives_up
        then have "systep b s (s\<lparr>sy_sending := None, sy_run := (sy_run s)\<lparr>pr_forwardRunning := False\<rparr>\<rparr>)"
          using assms(5) forward Some cancelled by (intro systep.forward_gives_up)
        from moves [OF this] show ?thesis using Some going by (auto simp: cache_only_def)
      next
        case sends
        then obtain r where r: "emit (Some (to_send g)) (sy_run s) = Some r" using emit_possible by blast
        then have "systep b s (s\<lparr>sy_forward := Some g, sy_sending := None, sy_run := r\<rparr>)"
          using assms(5) forward Some by (intro systep.forward_sends)
        from moves [OF this] show ?thesis using Some going emit_flags [OF r] by (auto simp: cache_only_def)
      qed simp
    qed
  next
    case stopped
    then have "systep b s (s\<lparr>sy_run := (sy_run s)\<lparr>pr_chan := chan_close (pr_chan (sy_run s))\<rparr>\<rparr>)"
      using assms(5,7) by (intro systep.close)
    moreover have "sy_measure (s\<lparr>sy_run := (sy_run s)\<lparr>pr_chan := chan_close (pr_chan (sy_run s))\<rparr>\<rparr>) < sy_measure s"
      using assms(7) by (simp add: sy_measure_def forward_weight_def)
    ultimately show ?thesis by (intro disjI2 exI conjI) auto
  next
    case finished
    then have "systep b s (s\<lparr>sy_run := (sy_run s)\<lparr>pr_backwardRunning := False\<rparr>\<rparr>)"
      using assms(5) by (intro systep.backward_returns)
    moreover have "sy_measure (s\<lparr>sy_run := (sy_run s)\<lparr>pr_backwardRunning := False\<rparr>\<rparr>) < sy_measure s"
      using finished by (simp add: sy_measure_def forward_weight_def)
    ultimately show ?thesis by (intro disjI2 exI conjI) auto
  next
    case backward
    have "breach (service_may b) head n (sy_backward s)" using syncing_backward [OF assms(1,2,3)] .
    then obtain k out r where k: "systep b s (s\<lparr>sy_backward := k, sy_run := r\<rparr>)" "bstep (service_may b) (sy_backward s) k"
      "emit out (sy_run s) = Some r"
      using backward_moves [OF _ backward assms(5,4,8)] by blast
    from moves [OF k(1)] show ?thesis
      using bstep_measure [OF k(2)] emit_flags [OF k(3)] going by (auto simp: cache_only_def)
  qed
qed

text \<open>While the process lives and the channel is not closed and drained, something can move: the bounded
  channel never deadlocks, since a full one can be received from.\<close>

lemma syncing_progress:
  assumes "syreach b p s" and "fresh_publisher p" and "pb_forward p = None" and "pb_backward p = NewBackwardSyncer head n"
    and "\<And>n. \<exists>r. service_may b n r" and "sy_alive s" and "\<not> chan_drained (pr_chan (sy_run s))"
  shows "\<exists>t. systep b s t"
proof (cases "ch_buf (pr_chan (sy_run s))")
  case (Cons e es)
  then have "chan_recv (pr_chan (sy_run s)) = Some (e, (pr_chan (sy_run s))\<lparr>ch_buf := es\<rparr>)" by (simp add: chan_recv_def)
  with assms(6) show ?thesis by (blast intro: systep.receive)
next
  case Nil
  then have unclosed: "\<not> ch_closed (pr_chan (sy_run s))" using assms(7) by (simp add: chan_drained_def)
  have "ch_cap (pr_chan (sy_run s)) = DefaultChannelBuffer"
    using syreach_inv [OF assms(1,2)] by (auto simp: sy_inv_def pr_inv_def dest: preach_inv)
  then have "length (ch_buf (pr_chan (sy_run s))) < ch_cap (pr_chan (sy_run s))" using Nil by (simp add: DefaultChannelBuffer_def)
  moreover have "winding_down s" "\<not> fork_blocked s"
    using alone_alive [OF assms(1,3)] by (auto simp: alone_def winding_down_def fork_blocked_def)
  ultimately show ?thesis using publishing_progress [OF assms(1,2,4,5,6) _ unclosed] by blast
qed

section \<open>Properties\<close>

text \<open>C16: Whatever the two syncers, \<open>Run\<close> and the subscriber interleave to, the channel carries a merge of
  the two syncers' logs, received in the order sent and never sent to once closed: from the backward syncer at
  most one proper event for each block of its range, from the forward syncer events that read
  block by block on from the last block before the first.\<close>

theorem syncing_events:
  assumes "NewPublisher cl g backSyncBlocks endBlock latest c w = (Ok p, w')" and "node_numbers cl"
    and "\<And>w. cache_inv b (c, w)" and "syreach b p s"
  shows "\<not> pr_panicked (sy_run s) \<and>
    (\<exists>back forw. pr_received (sy_run s) @ ch_buf (pr_chan (sy_run s)) \<in> shuffles (map snd back) forw \<and>
       distinct (map fst back) \<and>
       (\<forall>(n, e) \<in> set back. bs_minBlock (pb_backward p) < n \<and> n \<le> bs_blockNum (pb_backward p) \<and>
          event_ok (bf_hayabusaForkedBlock b) (bf_hayabusaActiveBlock b) n e) \<and>
       follows (bf_hayabusaForkedBlock b) (bf_hayabusaActiveBlock b) (bs_blockNum (pb_backward p) - 1) forw \<noteq> None)"
proof -
  obtain head n where fresh: "fresh_publisher p" and backw: "pb_backward p = NewBackwardSyncer head n"
    and forw: "endBlock \<noteq> 0 \<Longrightarrow> head = endBlock \<and> pb_forward p = None"
      "endBlock = 0 \<Longrightarrow> \<exists>previous w1. pb_forward p = Some (NewForwardSyncer previous c w1) \<and> blk_Number previous = head - 1"
    using NewPublisher_parts [OF assms(1,2)] by metis
  note inv = syreach_inv [OF assms(4) fresh]
  have "follows (bf_hayabusaForkedBlock b) (bf_hayabusaActiveBlock b) (head - 1) (forward_log s) \<noteq> None"
  proof (cases "endBlock = 0")
    case True
    then obtain previous w1 f where f: "pb_forward p = Some (NewForwardSyncer previous c w1)" "blk_Number previous = head - 1"
      "sy_forward s = Some f" "freach b (NewForwardSyncer previous c w1) f"
      using forw(2) inv by (auto simp: sy_inv_def split: option.splits)
    have "fs_inv b (head - 1) f"
      using f(4) by (rule freach_inv) (use assms(3) f(2) in \<open>simp add: fs_inv_def NewForwardSyncer_def\<close>)
    with f(3) show ?thesis by (simp add: fs_inv_def forward_log_def)
  next
    case False
    then show ?thesis using forw(1) inv by (auto simp: sy_inv_def forward_log_def split: option.splits)
  qed
  then show ?thesis
    unfolding backw new_backward syncing_channel(2) [OF assms(4) fresh, symmetric]
    using syncing_channel(1) [OF assms(4) fresh] syncing_shuffle [OF assms(4) fresh]
      backward_log_ok [OF syncing_backward [OF assms(4) fresh backw]]
    by (intro conjI exI [of _ "bs_sent (sy_backward s)"] exI [of _ "forward_log s"]) simp_all
qed

text \<open>With an end block, once the channel is closed and drained and nobody cancelled, the subscriber has
  received each block above the minimum up to the end block exactly once, except the blocks whose failure was
  logged.\<close>

theorem bounded_run_complete:
  assumes "NewPublisher cl g backSyncBlocks endBlock latest c w = (Ok p, w')" and "node_numbers cl" and "endBlock \<noteq> 0"
    and "syreach b p s" and "chan_drained (pr_chan (sy_run s))" and "\<not> bs_cancelled (sy_backward s)"
  shows "mset (map (\<lambda>e. blk_Number (be_Block e)) (pr_received (sy_run s))) + mset (bs_failed (sy_backward s)) =
    span (bs_minBlock (pb_backward p)) endBlock"
proof -
  obtain head n where p: "fresh_publisher p" "pb_backward p = NewBackwardSyncer head n" "head = endBlock" "pb_forward p = None"
    using NewPublisher_parts [OF assms(1,2)] assms(3) by metis
  have "pr_received (sy_run s) = pr_sent (sy_run s)" "ch_closed (pr_chan (sy_run s))"
    using syncing_channel(2) [OF assms(4) p(1)] assms(5) by (simp_all add: chan_drained_def)
  with bounded_run_numbers [OF assms(4) p(1,4,2) _ assms(6)] show ?thesis unfolding p(2,3) new_backward by simp
qed

text \<open>With an end block, every run of the publisher and a subscriber that keeps receiving comes to an end, in
  whatever order they move: each step lowers a measure, and as long as the process lives and the channel is
  not closed and drained some step is possible, so the full channel deadlocks nobody.\<close>

theorem bounded_run_ends:
  assumes "NewPublisher cl g backSyncBlocks endBlock latest c w = (Ok p, w')" and "node_numbers cl" and "endBlock \<noteq> 0"
    and "\<And>n. clock_laws (bf_timer b) (fetch_attempt b n)" and "cache_inv b s0" and "syreach b p s"
  shows "(\<forall>t. systep b s t \<longrightarrow> sy_measure t < sy_measure s) \<and>
    ((\<nexists>t. systep b s t) \<longrightarrow> chan_drained (pr_chan (sy_run s)) \<or> bs_crashed (sy_backward s))"
proof -
  obtain head n where p: "fresh_publisher p" "pb_backward p = NewBackwardSyncer head n" "head = endBlock" "pb_forward p = None"
    using NewPublisher_parts [OF assms(1,2)] assms(3) by metis
  have "alone s" using alone_alive [OF assms(6) p(4)] .
  with syncing_progress [OF assms(6) p(1,4,2) service_answers [OF assms(4,5)]] show ?thesis
    by (auto simp: sy_alive_def alone_def dest: alone_step [unfolded alone_def])
qed

section \<open>Instances\<close>

definition bounded_publisher :: "(int, (u32 \<times> FetchResult) list) publisher" where
  "bounded_publisher = \<lparr>pb_forked = 100, pb_active = 150, pb_forward = None, pb_backward = NewBackwardSyncer 1 1\<rparr>"

lemma bounded_NewPublisher:
  "NewPublisher sample_client \<lparr>gc_HAYABUSA = Some 100, gc_HayabusaTP = Some 50\<rparr> 1 1 NoRecord [] 0 = (Ok bounded_publisher, 0)"
proof -
  have "cl_ExpandedBlock sample_client (RevNumber 0) 0 = (Inr genesis_block, 0)"
    "cl_ExpandedBlock sample_client (RevNumber 1) 0 = (Inr main1, 0)"
    "blk_Number genesis_block = 0" "blk_Number main1 = 1"
    by (simp_all add: sample_client_def sample_answer_def found_def best_chain_def sample_blocks)
  then show ?thesis
    by (simp add: NewPublisher_def first_block_def hayabusa_heights_def first_and_previous_def bounded_publisher_def
        back_sync_blocks_def outcome_simps Let_def)
qed

text \<open>A run of the backward syncer that fits the channel is part of a run in which nothing is received yet.\<close>

lemma backward_run_lifts:
  assumes "breach (service_may b) head n k" and "pb_backward p = NewBackwardSyncer head n"
    and "length (bs_sent k) \<le> DefaultChannelBuffer"
  shows "\<exists>s. syreach b p s \<and> sy_backward s = k \<and> \<not> sy_ended s \<and> sy_forward s = pb_forward p \<and>
    sy_run s = (start_run p)\<lparr>pr_chan := (make_chan DefaultChannelBuffer)\<lparr>ch_buf := map snd (bs_sent k)\<rparr>,
      pr_sent := map snd (bs_sent k)\<rparr>"
  using assms
proof (induction rule: breach.induct)
  case start
  have "start_run p = (start_run p)\<lparr>pr_chan := (make_chan DefaultChannelBuffer)\<lparr>ch_buf := []\<rparr>, pr_sent := []\<rparr>"
    by (simp add: start_run_def make_chan_def)
  then show ?case using start
    by (intro exI [of _ "syncing_start p"])
      (simp add: syreach.start, simp add: syncing_start_def NewBackwardSyncer_def)
next
  case (step k k')
  obtain out where out: "map snd (bs_sent k') = map snd (bs_sent k) @ listed out" using bstep_one_event [OF step(2)] by blast
  then have len: "length (bs_sent k') = length (bs_sent k) + length (listed out)"
    by (metis length_append length_map)
  then obtain s where s: "syreach b p s" "sy_backward s = k" "\<not> sy_ended s" "sy_forward s = pb_forward p"
    "sy_run s = (start_run p)\<lparr>pr_chan := (make_chan DefaultChannelBuffer)\<lparr>ch_buf := map snd (bs_sent k)\<rparr>,
      pr_sent := map snd (bs_sent k)\<rparr>"
    using step by auto
  let ?r = "(start_run p)\<lparr>pr_chan := (make_chan DefaultChannelBuffer)\<lparr>ch_buf := map snd (bs_sent k')\<rparr>,
      pr_sent := map snd (bs_sent k')\<rparr>"
  have "emit out (sy_run s) = Some ?r"
    using out len step.prems(2) s(5)
    by (cases out) (auto simp: emit_def chan_send_def can_send_def make_chan_def)
  moreover have "sy_alive s" using step(2) s(2,3) by (auto simp: sy_alive_def elim: bstep.cases)
  ultimately have "systep b s (s\<lparr>sy_backward := k', sy_run := ?r\<rparr>)"
    using step(2) out s(2) by (intro systep.backward) simp_all
  then have "syreach b p (s\<lparr>sy_backward := k', sy_run := ?r\<rparr>)" using s(1) by (rule syreach.step [rotated])
  with s show ?case by (intro exI [of _ "s\<lparr>sy_backward := k', sy_run := ?r\<rparr>"]) simp
qed

text \<open>One block is asked for: its event is sent, the syncer returns, \<open>Run\<close> closes the channel, and the
  subscriber drains it.\<close>

definition closed_run :: "BlockEvent \<Rightarrow> prun" where
  "closed_run e = \<lparr>pr_backwardRunning = False, pr_forwardRunning = False,
     pr_chan = \<lparr>ch_cap = DefaultChannelBuffer, ch_buf = [e], ch_closed = True\<rparr>, pr_sent = [e],
     pr_received = [], pr_panicked = False\<rparr>"

lemma one_block_sends:
  assumes "service_may b n (Ok e)" and "0 < n" and p: "pb_backward p = NewBackwardSyncer n 1" "pb_forward p = None"
  shows "\<exists>s. syreach b p s \<and> sy_alive s \<and> \<not> bs_cancelled (sy_backward s) \<and>
     bs_failed (sy_backward s) = [] \<and> sy_run s = closed_run e"
proof -
  obtain k where k: "breach (service_may b) n 1 k" "bfinished k" "\<not> bs_cancelled k" "bs_sent k = [(n, e)]"
    "bs_failed k = []" "\<not> bs_crashed k" using one_block_run [where may = "service_may b", OF assms(1,2)] by blast
  have "length (bs_sent k) \<le> DefaultChannelBuffer" using k(4) by (simp add: DefaultChannelBuffer_def)
  from backward_run_lifts [OF k(1) p(1) this] obtain s where s: "syreach b p s" "sy_backward s = k"
    "\<not> sy_ended s" "sy_run s = (start_run p)\<lparr>pr_chan := (make_chan DefaultChannelBuffer)\<lparr>ch_buf := [e]\<rparr>,
      pr_sent := [e]\<rparr>"
    unfolding k(4) by auto
  let ?r = "(sy_run s)\<lparr>pr_backwardRunning := False\<rparr>"
  have alive: "sy_alive s" "sy_alive (s\<lparr>sy_run := r\<rparr>)" for r using s(2,3) k(6) by (simp_all add: sy_alive_def)
  have "systep b s (s\<lparr>sy_run := ?r\<rparr>)"
    using systep.backward_returns [OF alive(1), of b] s k(2) by simp
  moreover have "systep b (s\<lparr>sy_run := ?r\<rparr>) (s\<lparr>sy_run := closed_run e\<rparr>)"
    using systep.close [OF alive(2) [of ?r], of b] s(4) p(2)
    by (simp add: someone_running_def start_run_def make_chan_def chan_close_def closed_run_def)
  ultimately have "syreach b p (s\<lparr>sy_run := closed_run e\<rparr>)"
    using s(1) by (blast intro: syreach.step)
  then show ?thesis using s(2) k alive by (intro exI [of _ "s\<lparr>sy_run := closed_run e\<rparr>"]) simp
qed

lemma bounded_run_sends:
  "\<exists>s. syreach (sample_fetcher 100 0) bounded_publisher s \<and> sy_alive s \<and> \<not> bs_cancelled (sy_backward s) \<and>
     bs_failed (sy_backward s) = [] \<and> sy_run s = closed_run sample_event"
  using sample_may by (rule one_block_sends) (simp_all add: bounded_publisher_def)

lemma bounded_run:
  "\<exists>s. syreach (sample_fetcher 100 0) bounded_publisher s \<and> chan_drained (pr_chan (sy_run s)) \<and>
     \<not> bs_cancelled (sy_backward s) \<and> bs_failed (sy_backward s) = [] \<and> pr_received (sy_run s) = [sample_event]"
proof -
  obtain s where s: "syreach (sample_fetcher 100 0) bounded_publisher s" "sy_alive s" "\<not> bs_cancelled (sy_backward s)"
    "bs_failed (sy_backward s) = []" "sy_run s = closed_run sample_event"
    using bounded_run_sends by blast
  let ?t = "s\<lparr>sy_run := (closed_run sample_event)\<lparr>pr_chan := (pr_chan (closed_run sample_event))\<lparr>ch_buf := []\<rparr>, pr_received := [sample_event]\<rparr>\<rparr>"
  have "systep (sample_fetcher 100 0) s ?t"
    using systep.receive [OF s(2), of sample_event "(pr_chan (closed_run sample_event))\<lparr>ch_buf := []\<rparr>"] s(5)
    by (simp add: chan_recv_def closed_run_def)
  with s show ?thesis
    by (intro exI [of _ ?t]) (auto simp: chan_drained_def closed_run_def intro: syreach.step)
qed

theorem syncing_events_witness:
  "\<exists>s :: (int, (u32 \<times> FetchResult) list) syncing. pr_received (sy_run s) = [sample_event] \<and> \<not> pr_panicked (sy_run s)"
proof -
  obtain s where s: "syreach (sample_fetcher 100 0) bounded_publisher s" "pr_received (sy_run s) = [sample_event]"
    using bounded_run by blast
  with syncing_events [OF bounded_NewPublisher sample_node_numbers sample_cache_inv s(1)] show ?thesis by blast
qed

theorem bounded_run_complete_witness:
  "\<exists>s :: (int, (u32 \<times> FetchResult) list) syncing. pr_received (sy_run s) = [sample_event] \<and> {#1#} = span (backward_minBlock 1 1) 1"
proof -
  obtain s where s: "syreach (sample_fetcher 100 0) bounded_publisher s" "chan_drained (pr_chan (sy_run s))"
    "\<not> bs_cancelled (sy_backward s)" "bs_failed (sy_backward s) = []" "pr_received (sy_run s) = [sample_event]"
    using bounded_run by blast
  have "blk_Number (be_Block sample_event) = 1" using service.may_number [OF sample_may] .
  with bounded_run_complete [OF bounded_NewPublisher sample_node_numbers _ s(1,2,3)] s(4,5) show ?thesis
    by (intro exI [of _ s]) (simp add: bounded_publisher_def new_backward)
qed

theorem bounded_run_ends_witness:
  "\<exists>t. systep (sample_fetcher 100 0) (syncing_start bounded_publisher) t \<and>
     sy_measure t < sy_measure (syncing_start bounded_publisher)"
proof -
  have clock: "clock_laws (bf_timer (sample_fetcher 100 0)) (fetch_attempt (sample_fetcher 100 0) n)" for n
    by (simp add: sample_clock)
  have "\<not> chan_drained (pr_chan (sy_run (syncing_start bounded_publisher)))"
    "\<not> bs_crashed (sy_backward (syncing_start bounded_publisher))"
    by (simp_all add: syncing_start_def chan_drained_def make_chan_def bounded_publisher_def NewBackwardSyncer_def)
  with bounded_run_ends [OF bounded_NewPublisher sample_node_numbers _ clock sample_cache_inv syreach.start]
  show ?thesis by (metis zero_neq_one)
qed

end
