(* ===== verification/ForkHandler.thy ===== *)
theory ForkHandler
  imports Samples
begin

text \<open>
  \<^verbatim>\<open>pubsub/fork_handler.go\<close>: after a fork was detected, delete what is stored past the
  finalized block, find the side chain down to the common ancestor, and record its blocks.
\<close>

section \<open>getSideChain\<close>

text \<open>The loop \<open>for bestNum > sideNum { bestNum-- }\<close>.\<close>

function lower_to :: "u32 \<Rightarrow> u32 \<Rightarrow> u32" where
  "lower_to bestNum sideNum = (if sideNum < bestNum then lower_to (bestNum - 1) sideNum else bestNum)"
  by pat_completeness auto
termination
  by (relation "measure (\<lambda>(bestNum, sideNum). unat bestNum)")
    (auto simp: word_less_nat_alt unat_sub_if_size)

declare lower_to.simps [simp del]

lemma lower_to_eq: "sideNum \<le> bestNum \<Longrightarrow> lower_to bestNum sideNum = sideNum"
proof (induction bestNum sideNum rule: lower_to.induct)
  case (1 b s)
  show ?case
  proof (cases "s < b")
    case True
    then have "s \<le> b - 1" by (simp add: word_le_nat_alt word_less_nat_alt unat_sub_if_size)
    with True 1 show ?thesis by (simp add: lower_to.simps [of b s])
  next
    case False
    with 1 have "s = b" by simp
    then show ?thesis by (subst lower_to.simps) simp
  qed
qed

text \<open>
  The search: \<open>sideChain\<close> (descending, not empty) and the block of the best chain at the
  height of its last block.
\<close>

partial_function (option) ancestor_loop ::
  "'w client \<Rightarrow> Block \<Rightarrow> Block \<Rightarrow> Block list \<Rightarrow> 'w \<Rightarrow> (Block list outcome \<times> 'w) option" where
  "ancestor_loop cl finalized bestChainBlock sideChain w =
     (case cl_ExpandedBlock cl (RevID (blk_ParentID bestChainBlock)) w of
        (Inl e, w1) \<Rightarrow> Some (Err e, w1)
      | (Inr best', w1) \<Rightarrow>
     (case cl_ExpandedBlock cl (RevID (blk_ParentID (last sideChain))) w1 of
        (Inl e, w2) \<Rightarrow> Some (Err e, w2)
      | (Inr side', w2) \<Rightarrow>
          if blk_ID side' = blk_ID best' then Some (Ok sideChain, w2)
          else if blk_Number side' = blk_Number finalized
            then Some (Err (ErrMsg ''failed to find common ancestor, reached finalized block''), w2)
          else ancestor_loop cl finalized best' (sideChain @ [side']) w2))"

definition getSideChain ::
  "'w client \<Rightarrow> Block \<Rightarrow> Block \<Rightarrow> Block \<Rightarrow> 'w \<Rightarrow> (Block list outcome \<times> 'w) option" where
  "getSideChain cl best side finalized w =
     (if blk_Number best < blk_Number side
      then Some (Err (ErrMsg ''side chain block number is greater than best chain block number''), w)
      else
        case cl_ExpandedBlock cl (RevNumber (lower_to (blk_Number best) (blk_Number side))) w of
          (Inl e, w1) \<Rightarrow> Some (Err e, w1)
        | (Inr bestChainBlock, w1) \<Rightarrow>
            if blk_ID bestChainBlock = blk_ID side then Some (Ok [], w1)
            else ancestor_loop cl finalized bestChainBlock [side] w1)"

section \<open>writeForkedBlock and Resolve\<close>

definition ForkMeasurement :: string where
  "ForkMeasurement = ''forks''"

definition PriceMeasurement :: string where
  "PriceMeasurement = ''price_api''"

definition forked_point :: "Block list \<Rightarrow> nat \<Rightarrow> Block \<Rightarrow> point" where
  "forked_point blocks i b =
     \<lparr>pt_Measurement = ForkMeasurement,
      pt_Tags = [(''group'', VID (blk_ID (blocks ! 0))), (''signer'', VAddr (blk_Signer b))],
      pt_Fields = [(KStr ''number'', VU32 (blk_Number b)), (KStr ''parent_id'', VID (blk_ParentID b)),
        (KStr ''id'', VID (blk_ID b)), (KStr ''score'', VU64 (blk_TotalScore b)),
        (KStr ''length'', VInt (int (length blocks))), (KStr ''index'', VInt (int (length blocks) - int i))],
      pt_Time = unix_time (blk_Timestamp b)\<rparr>"

definition writeForkedBlock :: "'d database \<Rightarrow> Block list \<Rightarrow> 'd \<Rightarrow> 'd" where
  "writeForkedBlock db blocks d =
     fold (\<lambda>(i, b) d. WritePoints db [forked_point blocks i b] d) (List.enumerate 0 blocks) d"

text \<open>\<open>now\<close> is the time at which \<open>Resolve\<close> is called.\<close>

definition resolve_predicate :: "cond list" where
  "resolve_predicate = [MeasurementNeq ForkMeasurement, MeasurementNeq PriceMeasurement]"

definition Resolve ::
  "'w client \<Rightarrow> 'd database \<Rightarrow> int \<Rightarrow> Block \<Rightarrow> Block \<Rightarrow> Block \<Rightarrow> 'w \<Rightarrow> 'd \<Rightarrow> (unit outcome \<times> 'w \<times> 'd) option" where
  "Resolve cl db now best sideChain finalized w d =
     (let stop = now + sec 3600; start = unix_time (blk_Timestamp finalized) + sec 1 in
      case db_Delete db start stop resolve_predicate d of
        (Some e, d1) \<Rightarrow> Some (Err (ErrWrap ''failed to delete points after finalized block'' e), w, d1)
      | (None, d1) \<Rightarrow>
     (case getSideChain cl best sideChain finalized w of
        None \<Rightarrow> None
      | Some (Ok forkedChain, w1) \<Rightarrow> Some (Ok (), w1, writeForkedBlock db forkedChain d1)
      | Some (Err e, w1) \<Rightarrow> Some (Err e, w1, d1)
      | Some (Panic p, w1) \<Rightarrow> Some (Panic p, w1, d1)))"

section \<open>The tree of blocks behind the node\<close>

text \<open>
  What a node's answers come from: \<open>T\<close> maps an identifier to its block, a block's parent has
  the preceding number, a request for a number is answered with a block of that number.
\<close>

definition node_tree :: "'w client \<Rightarrow> (bytes32 \<Rightarrow> Block option) \<Rightarrow> bool" where
  "node_tree cl T \<longleftrightarrow>
     (\<forall>i w b w'. cl_ExpandedBlock cl (RevID i) w = (Inr b, w') \<longrightarrow> T i = Some b) \<and>
     (\<forall>n w b w'. cl_ExpandedBlock cl (RevNumber n) w = (Inr b, w') \<longrightarrow>
        T (blk_ID b) = Some b \<and> blk_Number b = n) \<and>
     (\<forall>i b. T i = Some b \<longrightarrow> blk_ID b = i) \<and>
     (\<forall>i b p. T i = Some b \<longrightarrow> T (blk_ParentID b) = Some p \<longrightarrow>
        unat (blk_Number b) = unat (blk_Number p) + 1)"

fun ancestor :: "(bytes32 \<Rightarrow> Block option) \<Rightarrow> Block \<Rightarrow> nat \<Rightarrow> Block option" where
  "ancestor T b 0 = Some b"
| "ancestor T b (Suc k) = Option.bind (ancestor T b k) (\<lambda>c. T (blk_ParentID c))"

lemma node_tree_ID: "node_tree cl T \<Longrightarrow> cl_ExpandedBlock cl (RevID i) w = (Inr b, w') \<Longrightarrow> T i = Some b"
  unfolding node_tree_def by blast

lemma node_tree_Number:
  "node_tree cl T \<Longrightarrow> cl_ExpandedBlock cl (RevNumber n) w = (Inr b, w') \<Longrightarrow> T (blk_ID b) = Some b \<and> blk_Number b = n"
  unfolding node_tree_def by blast

lemma node_tree_key: "node_tree cl T \<Longrightarrow> T i = Some b \<Longrightarrow> blk_ID b = i"
  unfolding node_tree_def by blast

lemma node_tree_parent:
  "node_tree cl T \<Longrightarrow> T i = Some b \<Longrightarrow> T (blk_ParentID b) = Some p \<Longrightarrow> unat (blk_Number b) = unat (blk_Number p) + 1"
  unfolding node_tree_def by blast

text \<open>The search ends: the best chain's block gets lower in every round.\<close>

lemma ancestor_loop_returns:
  assumes "node_tree cl T" and "T (blk_ID b) = Some b"
  shows "\<exists>r. ancestor_loop cl finalized b chain w = Some r"
  using assms(2)
proof (induction "unat (blk_Number b)" arbitrary: b chain w rule: less_induct)
  case less
  obtain r1 w1 where 1: "cl_ExpandedBlock cl (RevID (blk_ParentID b)) w = (r1, w1)" by fastforce
  obtain r2 w2 where 2: "cl_ExpandedBlock cl (RevID (blk_ParentID (last chain))) w1 = (r2, w2)" by fastforce
  note unf = ancestor_loop.simps [of cl finalized b chain w]
  show ?case
  proof (cases r1)
    case (Inl e)
    then show ?thesis by (simp add: unf 1)
  next
    case (Inr b')
    then have T: "T (blk_ParentID b) = Some b'" using assms(1) 1 by (auto dest: node_tree_ID)
    then have "unat (blk_Number b') < unat (blk_Number b)"
      using node_tree_parent [OF assms(1) less.prems T] by simp
    moreover have "T (blk_ID b') = Some b'" using node_tree_key [OF assms(1) T] T by simp
    ultimately have "\<exists>r. ancestor_loop cl finalized b' chain' w2 = Some r" for chain'
      using less.hyps by blast
    then show ?thesis using Inr 2 by (cases r2) (auto simp: unf 1)
  qed
qed

lemma getSideChain_returns:
  assumes "node_tree cl T"
  shows "\<exists>r. getSideChain cl best side finalized w = Some r"
proof -
  obtain r w1 where 1: "cl_ExpandedBlock cl (RevNumber (lower_to (blk_Number best) (blk_Number side))) w = (r, w1)"
    by fastforce
  show ?thesis
  proof (cases r)
    case (Inr b)
    then have "T (blk_ID b) = Some b" using node_tree_Number [OF assms] 1 by blast
    with Inr 1 show ?thesis using ancestor_loop_returns [OF assms] by (auto simp: getSideChain_def)
  qed (auto simp: getSideChain_def 1)
qed

text \<open>
  \<open>chain\<close> is the beginning of the branch of \<open>side\<close>, and differs from the branch of \<open>best\<close> at
  every height.
\<close>

definition side_branch :: "(bytes32 \<Rightarrow> Block option) \<Rightarrow> Block \<Rightarrow> Block \<Rightarrow> Block list \<Rightarrow> bool" where
  "side_branch T best side chain \<longleftrightarrow> chain \<noteq> [] \<and>
     (\<forall>i < length chain. ancestor T side i = Some (chain ! i) \<and>
        (\<exists>b. ancestor T best i = Some b \<and> blk_ID b \<noteq> blk_ID (chain ! i)))"

definition fork_point :: "(bytes32 \<Rightarrow> Block option) \<Rightarrow> Block \<Rightarrow> Block \<Rightarrow> nat \<Rightarrow> bool" where
  "fork_point T best side k \<longleftrightarrow> (\<exists>a. ancestor T best k = Some a \<and> ancestor T side k = Some a)"

lemma side_branch_last:
  "side_branch T best side chain \<Longrightarrow> ancestor T side (length chain - 1) = Some (last chain)"
  by (simp add: side_branch_def last_conv_nth)

lemma side_branch_snoc:
  assumes "side_branch T best side chain" and "ancestor T side (length chain) = Some s"
    and "ancestor T best (length chain) = Some b" and "blk_ID b \<noteq> blk_ID s"
  shows "side_branch T best side (chain @ [s])"
  using assms by (auto simp: side_branch_def nth_append less_Suc_eq)

lemma ancestor_step:
  assumes "0 < k" and "ancestor T b (k - 1) = Some c"
  shows "ancestor T b k = T (blk_ParentID c)"
  using assms by (cases k) auto

lemma ancestor_loop_correct:
  assumes ret: "ancestor_loop cl finalized b chain w = Some res"
    and "node_tree cl T" and "side_branch T best side chain"
    and "ancestor T best (length chain - 1) = Some b" and "fst res = Ok chain'"
  shows "side_branch T best side chain' \<and> fork_point T best side (length chain')"
  using assms(2-)
proof (induction rule: ancestor_loop.raw_induct [OF _ ret])
  case (1 loop cl finalized b chain w res)
  have pos: "0 < length chain" using "1.prems"(2) by (simp add: side_branch_def)
  obtain r1 w1 where c1: "cl_ExpandedBlock cl (RevID (blk_ParentID b)) w = (r1, w1)" by fastforce
  obtain r2 w2 where c2: "cl_ExpandedBlock cl (RevID (blk_ParentID (last chain))) w1 = (r2, w2)" by fastforce
  show ?case
  proof (cases "\<exists>b' s'. r1 = Inr b' \<and> r2 = Inr s'")
    case False
    with 1 c1 c2 show ?thesis by (cases r1; cases r2) auto
  next
    case True
    then obtain b' s' where r: "r1 = Inr b'" "r2 = Inr s'" by blast
    have b': "ancestor T best (length chain) = Some b'" "blk_ID b' = blk_ParentID b"
      using ancestor_step [OF pos "1.prems"(3)] "1.prems"(1) c1 r
      by (auto dest: node_tree_ID node_tree_key)
    have s': "ancestor T side (length chain) = Some s'" "blk_ID s' = blk_ParentID (last chain)"
      using ancestor_step [OF pos side_branch_last [OF "1.prems"(2)]] "1.prems"(1) c2 r
      by (auto dest: node_tree_ID node_tree_key)
    show ?thesis
    proof (cases "blk_ID s' = blk_ID b'")
      case True
      have "s' = b'"
        using True b' s' c1 c2 r node_tree_ID [OF "1.prems"(1)] by (metis option.inject)
      moreover have "chain' = chain" using "1"(2) "1.prems"(4) True c1 c2 r by auto
      ultimately show ?thesis using "1.prems"(2) b' s' by (auto simp: fork_point_def)
    next
      case False
      with "1"(2) "1.prems"(4) c1 c2 r have "loop cl finalized b' (chain @ [s']) w2 = Some res"
        by (auto split: if_splits)
      moreover have "side_branch T best side (chain @ [s'])"
        using False "1.prems"(2) s'(1) b'(1) by (intro side_branch_snoc) auto
      ultimately show ?thesis using "1"(1) "1.prems"(1,4) b'(1) by simp
    qed
  qed
qed

text \<open>The search finds a common ancestor if the node answers and no block of the branch above it has the finalized height.\<close>

definition node_serves :: "'w client \<Rightarrow> (bytes32 \<Rightarrow> Block option) \<Rightarrow> bool" where
  "node_serves cl T \<longleftrightarrow> (\<forall>i b w. T i = Some b \<longrightarrow> (\<exists>w'. cl_ExpandedBlock cl (RevID i) w = (Inr b, w')))"

lemma ancestor_prefix: "ancestor T b k = Some a \<Longrightarrow> j \<le> k \<Longrightarrow> \<exists>c. ancestor T b j = Some c"
  by (induction k arbitrary: a) (auto simp: le_Suc_eq split: bind_splits)

lemma ancestor_in_tree:
  assumes "node_tree cl T" and "T (blk_ID b) = Some b" and "ancestor T b k = Some c"
  shows "T (blk_ID c) = Some c \<and> unat (blk_Number b) = unat (blk_Number c) + k"
  using assms(3)
proof (induction k arbitrary: c)
  case 0
  then show ?case using assms(2) by simp
next
  case (Suc k)
  then obtain d where d: "ancestor T b k = Some d" "T (blk_ParentID d) = Some c" by (auto split: bind_splits)
  then show ?case
    using Suc.IH [OF d(1)] node_tree_parent [OF assms(1) _ d(2)] node_tree_key [OF assms(1) d(2)] by auto
qed

lemma branch_shorter: "side_branch T best side chain \<Longrightarrow> fork_point T best side k \<Longrightarrow> length chain \<le> k"
  by (rule ccontr) (auto simp: side_branch_def fork_point_def not_le)

lemma ancestor_loop_finds:
  assumes "node_serves cl T" and "side_branch T best side chain"
    and "ancestor T best (length chain - 1) = Some b" and "fork_point T best side k"
    and "\<And>i s. 0 < i \<Longrightarrow> i < k \<Longrightarrow> ancestor T side i = Some s \<Longrightarrow> blk_Number s \<noteq> blk_Number finalized"
  shows "\<exists>chain' w'. ancestor_loop cl finalized b chain w = Some (Ok chain', w')"
  using assms(2,3)
proof (induction "k - length chain" arbitrary: b chain w rule: less_induct)
  case less
  have pos: "0 < length chain" using less.prems(1) by (simp add: side_branch_def)
  have le: "length chain \<le> k" using branch_shorter [OF less.prems(1) assms(4)] .
  obtain b' where b': "ancestor T best (length chain) = Some b'"
    using assms(4) ancestor_prefix [OF _ le] unfolding fork_point_def by metis
  obtain s' where s': "ancestor T side (length chain) = Some s'"
    using assms(4) ancestor_prefix [OF _ le] unfolding fork_point_def by metis
  obtain w1 where c1: "cl_ExpandedBlock cl (RevID (blk_ParentID b)) w = (Inr b', w1)"
    using assms(1) ancestor_step [OF pos less.prems(2)] b' unfolding node_serves_def by metis
  obtain w2 where c2: "cl_ExpandedBlock cl (RevID (blk_ParentID (last chain))) w1 = (Inr s', w2)"
    using assms(1) ancestor_step [OF pos side_branch_last [OF less.prems(1)]] s' unfolding node_serves_def by metis
  note unf = ancestor_loop.simps [of cl finalized b chain w]
  show ?case
  proof (cases "blk_ID s' = blk_ID b'")
    case True
    then show ?thesis by (simp add: unf c1 c2)
  next
    case False
    then have longer: "side_branch T best side (chain @ [s'])"
      using less.prems(1) s' b' by (intro side_branch_snoc) auto
    then have "length chain < k" using branch_shorter [OF _ assms(4)] by fastforce
    moreover from this have "blk_Number s' \<noteq> blk_Number finalized" using assms(5) [OF pos _ s'] by simp
    moreover have "\<exists>chain' w'. ancestor_loop cl finalized b' (chain @ [s']) w2 = Some (Ok chain', w')"
      using less.hyps [OF _ longer] b' calculation(1) by simp
    ultimately show ?thesis using False by (simp add: unf c1 c2)
  qed
qed

section \<open>The points of a resolved fork\<close>

definition forked_points :: "Block list \<Rightarrow> point list" where
  "forked_points blocks = map (\<lambda>(i, b). forked_point blocks i b) (List.enumerate 0 blocks)"

lemma nth_forked_points:
  "length (forked_points blocks) = length blocks"
  "i < length blocks \<Longrightarrow> forked_points blocks ! i = forked_point blocks i (blocks ! i)"
  by (simp_all add: forked_points_def nth_enumerate_eq)

lemma writeForkedBlock_handed:
  assumes "db_laws db"
  shows "db_handed db (writeForkedBlock db blocks d) = db_handed db d @ forked_points blocks"
    and "db_points db (writeForkedBlock db blocks d) = db_points db d"
proof -
  have "db_handed db (fold (\<lambda>(i, b) d. WritePoints db [forked_point blocks i b] d) xs d) =
        db_handed db d @ map (\<lambda>(i, b). forked_point blocks i b) xs \<and>
      db_points db (fold (\<lambda>(i, b) d. WritePoints db [forked_point blocks i b] d) xs d) = db_points db d" for xs d
    by (induction xs arbitrary: d) (auto simp: WritePoints_handed [OF assms] WritePoints_points [OF assms])
  then show "db_handed db (writeForkedBlock db blocks d) = db_handed db d @ forked_points blocks"
    and "db_points db (writeForkedBlock db blocks d) = db_points db d"
    by (simp_all add: writeForkedBlock_def forked_points_def)
qed

text \<open>What a deletion of the points past the finalized block leaves.\<close>

definition past_finalized :: "int \<Rightarrow> Block \<Rightarrow> point \<Rightarrow> bool" where
  "past_finalized now finalized p \<longleftrightarrow>
     unix_time (blk_Timestamp finalized) + sec 1 \<le> pt_Time p \<and> pt_Time p \<le> now + sec 3600 \<and>
     pt_Measurement p \<noteq> ForkMeasurement \<and> pt_Measurement p \<noteq> PriceMeasurement"

lemma deleted_by_resolve:
  "deleted_by (unix_time (blk_Timestamp finalized) + sec 1) (now + sec 3600) resolve_predicate p =
     past_finalized now finalized p"
  by (simp add: deleted_by_def resolve_predicate_def past_finalized_def)

section \<open>Properties\<close>

text \<open>C12: The search for the side chain always ends. A chain it finds starts from the block that the node has
  on its best chain at the height of the side block: it is empty exactly if this is the side block, and otherwise
  it is the branch of the side block, from that block down to just above the first common ancestor, different from
  the best chain at every height. And it is found: if the node answers for the blocks it knows and the two branches
  have a common ancestor at or above the finalized height, the search does not fail.\<close>

theorem getSideChain_correct:
  assumes "node_tree cl T" and "T (blk_ID side) = Some side"
  shows "\<exists>r w'. getSideChain cl best side finalized w = Some (r, w') \<and>
    (\<forall>chain. r = Ok chain \<longrightarrow> blk_Number side \<le> blk_Number best \<and>
       (\<exists>b w1. cl_ExpandedBlock cl (RevNumber (blk_Number side)) w = (Inr b, w1) \<and>
         (if b = side then chain = [] else side_branch T b side chain \<and> fork_point T b side (length chain)))) \<and>
    (\<forall>b w1 k. blk_Number side \<le> blk_Number best \<and> node_serves cl T \<and>
       cl_ExpandedBlock cl (RevNumber (blk_Number side)) w = (Inr b, w1) \<and> fork_point T b side k \<and>
       unat (blk_Number finalized) + k \<le> unat (blk_Number side) \<longrightarrow> (\<exists>chain. r = Ok chain \<and> length chain \<le> k))"
proof -
  obtain r w' where ret: "getSideChain cl best side finalized w = Some (r, w')"
    using getSideChain_returns [OF assms(1)] by (metis prod.exhaust)
  have start: "side_branch T b side [side]" if "blk_ID b \<noteq> blk_ID side" for b
    using that by (simp add: side_branch_def)
  have same: "blk_ID b = blk_ID side \<longleftrightarrow> b = side" if "cl_ExpandedBlock cl (RevNumber n) w = (Inr b, w1)" for b n w1
    using node_tree_Number [OF assms(1) that] assms(2) by (metis option.inject)
  have sound: "blk_Number side \<le> blk_Number best \<and> (\<exists>b w1. cl_ExpandedBlock cl (RevNumber (blk_Number side)) w = (Inr b, w1) \<and>
      (if b = side then chain = [] else side_branch T b side chain \<and> fork_point T b side (length chain)))"
    if r: "r = Ok chain" for chain
  proof -
    have le: "\<not> blk_Number best < blk_Number side" using ret r by (auto simp: getSideChain_def)
    then have "lower_to (blk_Number best) (blk_Number side) = blk_Number side" by (simp add: lower_to_eq)
    with ret r le obtain b w1 where b: "cl_ExpandedBlock cl (RevNumber (blk_Number side)) w = (Inr b, w1)"
      and rest: "(if blk_ID b = blk_ID side then Some (Ok [], w1) else ancestor_loop cl finalized b [side] w1) = Some (Ok chain, w')"
      by (auto simp: getSideChain_def split: prod.splits sum.splits)
    have "if b = side then chain = [] else side_branch T b side chain \<and> fork_point T b side (length chain)"
    proof (cases "b = side")
      case False
      then have "ancestor_loop cl finalized b [side] w1 = Some (Ok chain, w')" using rest same [OF b] by simp
      then have "side_branch T b side chain \<and> fork_point T b side (length chain)"
        using assms(1) start False same [OF b] by (elim ancestor_loop_correct) simp_all
      with False show ?thesis by simp
    qed (use rest in simp)
    with b le show ?thesis by auto
  qed
  have complete: "\<exists>chain. r = Ok chain \<and> length chain \<le> k"
    if le: "blk_Number side \<le> blk_Number best" and serves: "node_serves cl T"
      and b: "cl_ExpandedBlock cl (RevNumber (blk_Number side)) w = (Inr b, w1)" and meet: "fork_point T b side k"
      and k: "unat (blk_Number finalized) + k \<le> unat (blk_Number side)" for b w1 k
  proof (cases "b = side")
    case True
    have "r = Ok []" using ret b leD [OF le] lower_to_eq [OF le] unfolding True by (simp add: getSideChain_def)
    then show ?thesis by simp
  next
    case False
    have above: "blk_Number s \<noteq> blk_Number finalized" if "i < k" "ancestor T side i = Some s" for i s
      using ancestor_in_tree [OF assms that(2)] that(1) k by auto
    obtain chain w2 where chain: "ancestor_loop cl finalized b [side] w1 = Some (Ok chain, w2)"
      using ancestor_loop_finds [OF serves start _ meet, of b finalized w1] above False same [OF b] by auto
    then have r: "r = Ok chain" using ret b leD [OF le] lower_to_eq [OF le] False same [OF b] by (simp add: getSideChain_def)
    moreover have "length chain \<le> k" using sound [OF r] b False branch_shorter meet by fastforce
    ultimately show ?thesis by blast
  qed
  show ?thesis
  proof (intro exI conjI)
    show "getSideChain cl best side finalized w = Some (r, w')" by (fact ret)
  qed (use sound complete in blast)+
qed

text \<open>C13: Resolving a fork starts with the deletion, in contrast to its comment. If that fails nothing is handed to the
  database client; if it succeeds, exactly the points of blocks past the finalized one are gone from the server
  (other than earlier forks and prices, and at most an hour into the future), and then one point for each block of
  the side chain, in order, is handed to the client. If the side chain cannot be found the error is returned, no point
  is handed over, and the deletion stands. Points that were handed over before, or that a worker hands over later, may
  still arrive after the deletion.\<close>

theorem Resolve_effect:
  assumes "db_laws db" and "node_tree cl T"
  shows "\<exists>r w' d'. Resolve cl db now best side finalized w d = Some (r, w', d') \<and>
    (case fst (db_Delete db (unix_time (blk_Timestamp finalized) + sec 1) (now + sec 3600) resolve_predicate d) of
      Some e \<Rightarrow> r = Err (ErrWrap ''failed to delete points after finalized block'' e) \<and> w' = w \<and>
        db_handed db d' = db_handed db d \<and> db_points db d' \<subseteq> db_points db d
    | None \<Rightarrow> db_points db d' = {p \<in> db_points db d. \<not> past_finalized now finalized p} \<and>
        (\<exists>s. getSideChain cl best side finalized w = Some (s, w') \<and>
          (case s of
            Ok chain \<Rightarrow> r = Ok () \<and> db_handed db d' = db_handed db d @ forked_points chain
          | Err e \<Rightarrow> r = Err e \<and> db_handed db d' = db_handed db d
          | Panic p \<Rightarrow> r = Panic p \<and> db_handed db d' = db_handed db d)))"
proof -
  obtain s w1 where side: "getSideChain cl best side finalized w = Some (s, w1)"
    using getSideChain_returns [OF assms(2)] by (metis prod.exhaust)
  obtain e d1 where del: "db_Delete db (unix_time (blk_Timestamp finalized) + sec 1) (now + sec 3600) resolve_predicate d = (e, d1)"
    by fastforce
  note d1 = db_law_delete [OF assms(1) del, unfolded deleted_by_resolve]
  show ?thesis
  proof (cases e)
    case (Some x)
    then show ?thesis using d1 by (simp add: Resolve_def del)
  next
    case None
    then show ?thesis using d1 side writeForkedBlock_handed [OF assms(1)]
      by (cases s) (simp_all add: Resolve_def del)
  qed
qed

section \<open>Instances\<close>

lemma sample_tree_Some:
  "sample_tree i = Some b \<Longrightarrow> blk_ID b = i \<and> b \<in> {genesis_block, main1, main2, side1, side2}"
  unfolding sample_tree_def by (drule find_Some_set) simp

lemma sample_tree_IDs:
  "sample_tree (Bytes32 160) = Some genesis_block" "sample_tree (Bytes32 161) = Some main1"
  "sample_tree (Bytes32 162) = Some main2" "sample_tree (Bytes32 177) = Some side1"
  "sample_tree (Bytes32 178) = Some side2"
  by (simp_all add: sample_tree_def sample_blocks)

lemma sample_node_tree: "node_tree sample_client sample_tree"
proof -
  have parents: "unat (blk_Number b) = unat (blk_Number p) + 1"
    if "sample_tree i = Some b" "sample_tree (blk_ParentID b) = Some p" for i b p
  proof -
    have b: "b \<in> {genesis_block, main1, main2, side1, side2}" using sample_tree_Some that(1) by blast
    have p: "blk_ID p = blk_ParentID b" "p \<in> {genesis_block, main1, main2, side1, side2}"
      using sample_tree_Some [OF that(2)] by auto
    from b p show ?thesis by (auto simp: sample_blocks)
  qed
  have number: "sample_tree (blk_ID b) = Some b \<and> blk_Number b = n" if "best_chain n = Some b" for n b
  proof -
    have "b \<in> {genesis_block, main1, main2}" "blk_Number b = n"
      using find_Some_set [OF that [unfolded best_chain_def]] by simp_all
    then show ?thesis using sample_tree_IDs by (auto simp: sample_blocks)
  qed
  show ?thesis
    unfolding node_tree_def
    using parents number
    by (auto simp: sample_client_def sample_answer_def found_def dest: sample_tree_Some split: option.splits)
qed

lemma sample_by_ID: "sample_tree i = Some b \<Longrightarrow> cl_ExpandedBlock sample_client (RevID i) w = (Inr b, w)"
  by (simp add: sample_client_def sample_answer_def found_def)

lemma sample_side_chain: "getSideChain sample_client main2 side2 genesis_block w = Some (Ok [side2, side1], w)"
proof -
  have p: "blk_ParentID main2 = Bytes32 161" "blk_ParentID main1 = Bytes32 160" "blk_ParentID side2 = Bytes32 177"
    "blk_ParentID side1 = Bytes32 160" "blk_ID main1 = Bytes32 161" "blk_ID side1 = Bytes32 177"
    "blk_ID main2 = Bytes32 162" "blk_ID side2 = Bytes32 178" "blk_Number side1 = 1" "blk_Number genesis_block = 0"
    "blk_Number side2 = 2" "blk_Number main2 = 2"
    by (simp_all add: sample_blocks)
  have n: "cl_ExpandedBlock sample_client (RevNumber 2) w = (Inr main2, w)"
    by (simp add: sample_client_def sample_answer_def found_def best_chain_def sample_blocks)
  show ?thesis
    by (simp add: getSideChain_def lower_to_eq p n ancestor_loop.simps sample_by_ID sample_tree_IDs)
qed

theorem getSideChain_correct_witness:
  "getSideChain sample_client main2 side2 genesis_block 0 = Some (Ok [side2, side1], 0) \<and>
     side_branch sample_tree main2 side2 [side2, side1] \<and> fork_point sample_tree main2 side2 2"
proof -
  have "sample_tree (blk_ID side2) = Some side2" by (simp add: sample_tree_def sample_blocks)
  moreover have "cl_ExpandedBlock sample_client (RevNumber (blk_Number side2)) (0 :: int) = (Inr main2, 0)" "main2 \<noteq> side2"
    by (simp_all add: sample_client_def sample_answer_def found_def best_chain_def sample_blocks)
  ultimately show ?thesis using getSideChain_correct [OF sample_node_tree, of side2 main2 genesis_block 0]
    by (simp add: sample_side_chain numeral_2_eq_2)
qed

text \<open>A point stored for block 2 is removed, one for the finalized block is kept; two points of the side chain are handed over.\<close>

definition slot_at :: "int \<Rightarrow> point" where
  "slot_at t = \<lparr>pt_Measurement = ''slots'', pt_Tags = [], pt_Fields = [], pt_Time = sec t\<rparr>"

theorem Resolve_effect_witness:
  "\<exists>d'. Resolve sample_client sample_db (sec 100) main2 side2 genesis_block 0 ([], [slot_at 0, slot_at 20]) = Some (Ok (), 0, d') \<and>
     set (snd d') = {slot_at 0} \<and> fst d' = [forked_point [side2, side1] 0 side2, forked_point [side2, side1] 1 side1]"
proof -
  let ?d = "([], [slot_at 0, slot_at 20]) :: sample_store"
  have del: "fst (db_Delete sample_db start stop cs d) = None" for start stop cs d
    by (simp add: sample_db_def)
  obtain r w' d' where r: "Resolve sample_client sample_db (sec 100) main2 side2 genesis_block 0 ?d = Some (r, w', d')"
    "set (snd d') = {p \<in> {slot_at 0, slot_at 20}. \<not> past_finalized (sec 100) genesis_block p}"
    "w' = 0" "r = Ok ()" "fst d' = forked_points [side2, side1]"
    using Resolve_effect [OF sample_db_laws sample_node_tree, of "sec 100" main2 side2 genesis_block 0 ?d]
    by (auto simp: sample_side_chain del)
  moreover have "{p \<in> {slot_at 0, slot_at 20}. \<not> past_finalized (sec 100) genesis_block p} = {slot_at 0}"
    by (auto simp: slot_at_def past_finalized_def unix_time_def sec_def sample_blocks ForkMeasurement_def PriceMeasurement_def)
  ultimately show ?thesis by (simp add: forked_points_def)
qed

end
