(* ===== verification/WorkerPool.thy ===== *)
theory WorkerPool
  imports Samples Channel
begin

text \<open>
  \<^verbatim>\<open>pubsub/worker_pool.go\<close>: a fixed number of workers take tasks from a bounded queue,
  run their handler and write the points it returns. The goroutines are a step relation; what a
  handler may return for a task is the relation \<open>run\<close> (a panic is recovered by the worker).
\<close>

section \<open>NewWorkerPool\<close>

definition DefaultWorkerPoolSize :: int where
  "DefaultWorkerPoolSize = 10"

definition DefaultTaskQueueSize :: int where
  "DefaultTaskQueueSize = 100"

datatype 't wworker = WIdle | WRunning 't | WReturned

text \<open>
  The pool, the batch that is being submitted (its tasks not sent yet), and what has happened:
  the tasks accepted into the queue, the tasks processed or given up by a panic, the number of
  refused batches.
\<close>

record ('t, 'd) pool =
  wp_taskQueue :: "'t chan"
  wp_workers :: "'t wworker list"
  wp_cancelled :: bool
  wp_isShutdown :: bool
  wp_db :: 'd
  wp_batch :: "'t list option"
  wp_accepted :: "'t list"
  wp_processed :: "'t list"
  wp_recovered :: "'t list"
  wp_refused :: nat
  wp_panicked :: bool

definition NewWorkerPool :: "int \<Rightarrow> int \<Rightarrow> 'd \<Rightarrow> ('t, 'd) pool" where
  "NewWorkerPool workers queueSize d =
     (let workers' = (if workers \<le> 0 then DefaultWorkerPoolSize else workers);
          queueSize' = (if queueSize \<le> 0 then DefaultTaskQueueSize else queueSize) in
      \<lparr>wp_taskQueue = make_chan (nat queueSize'), wp_workers = replicate (nat workers') WIdle,
       wp_cancelled = False, wp_isShutdown = False, wp_db = d, wp_batch = None, wp_accepted = [],
       wp_processed = [], wp_recovered = [], wp_refused = 0, wp_panicked = False\<rparr>)"

section \<open>processTask\<close>

definition processTask :: "'d database \<Rightarrow> point list outcome \<Rightarrow> 'd \<Rightarrow> 'd" where
  "processTask db r d = (case r of Ok points \<Rightarrow> WritePoints db points d | _ \<Rightarrow> d)"

section \<open>Steps\<close>

definition set_wworker :: "nat \<Rightarrow> 't wworker \<Rightarrow> ('t, 'd) pool \<Rightarrow> ('t, 'd) pool" where
  "set_wworker i v s = s\<lparr>wp_workers := (wp_workers s)[i := v]\<rparr>"

definition wworker_at :: "('t, 'd) pool \<Rightarrow> nat \<Rightarrow> 't wworker \<Rightarrow> bool" where
  "wworker_at s i v \<longleftrightarrow> i < length (wp_workers s) \<and> wp_workers s ! i = v"

text \<open>
  What the pool does by itself: sending the tasks of a batch (\<open>SubmitBatch\<close> checks the flag under the
  lock and then sends without it), closing the queue after the cancellation, and the workers.
\<close>

inductive wpwork ::
  "'d database \<Rightarrow> ('t \<Rightarrow> point list outcome \<Rightarrow> bool) \<Rightarrow> ('t, 'd) pool \<Rightarrow> ('t, 'd) pool \<Rightarrow> bool"
  for db run where
  refuse: "\<lbrakk>wp_batch s = None; wp_isShutdown s\<rbrakk>
    \<Longrightarrow> wpwork db run s (s\<lparr>wp_refused := wp_refused s + 1\<rparr>)"
| enqueue: "\<lbrakk>wp_batch s = Some (t # ts); chan_send (wp_taskQueue s) t = Some q\<rbrakk>
    \<Longrightarrow> wpwork db run s (s\<lparr>wp_taskQueue := q, wp_batch := Some ts, wp_accepted := wp_accepted s @ [t]\<rparr>)"
| enqueue_closed: "\<lbrakk>wp_batch s = Some (t # ts); ch_closed (wp_taskQueue s)\<rbrakk>
    \<Longrightarrow> wpwork db run s (s\<lparr>wp_panicked := True\<rparr>)"
| abort: "\<lbrakk>wp_batch s = Some (t # ts); wp_cancelled s\<rbrakk>
    \<Longrightarrow> wpwork db run s (s\<lparr>wp_batch := None, wp_refused := wp_refused s + 1\<rparr>)"
| submitted: "wp_batch s = Some [] \<Longrightarrow> wpwork db run s (s\<lparr>wp_batch := None\<rparr>)"
| close: "\<lbrakk>wp_cancelled s; \<not> wp_isShutdown s\<rbrakk>
    \<Longrightarrow> wpwork db run s (s\<lparr>wp_taskQueue := chan_close (wp_taskQueue s), wp_isShutdown := True\<rparr>)"
| take: "\<lbrakk>wworker_at s i WIdle; chan_recv (wp_taskQueue s) = Some (t, q)\<rbrakk>
    \<Longrightarrow> wpwork db run s (set_wworker i (WRunning t) (s\<lparr>wp_taskQueue := q\<rparr>))"
| finish: "\<lbrakk>wworker_at s i WIdle; chan_drained (wp_taskQueue s)\<rbrakk>
    \<Longrightarrow> wpwork db run s (set_wworker i WReturned s)"
| quit: "\<lbrakk>wworker_at s i WIdle; wp_cancelled s\<rbrakk> \<Longrightarrow> wpwork db run s (set_wworker i WReturned s)"
| handled: "\<lbrakk>wworker_at s i (WRunning t); run t (Ok points)\<rbrakk>
    \<Longrightarrow> wpwork db run s (set_wworker i WIdle
          (s\<lparr>wp_db := processTask db (Ok points) (wp_db s), wp_processed := wp_processed s @ [t]\<rparr>))"
| recovered: "\<lbrakk>wworker_at s i (WRunning t); run t (Panic p)\<rbrakk>
    \<Longrightarrow> wpwork db run s (set_wworker i WIdle
          (s\<lparr>wp_db := processTask db (Panic p) (wp_db s), wp_recovered := wp_recovered s @ [t]\<rparr>))"

text \<open>
  The pool in any surrounding: somebody submits a batch, somebody begins the shutdown (with
  \<open>polite\<close> only while no batch is being submitted), and something else changes the database.
\<close>

inductive wpstep ::
  "bool \<Rightarrow> 'd database \<Rightarrow> ('t \<Rightarrow> point list outcome \<Rightarrow> bool) \<Rightarrow> ('t, 'd) pool \<Rightarrow> ('t, 'd) pool \<Rightarrow> bool"
  for polite db run where
  work: "wpwork db run s t \<Longrightarrow> wpstep polite db run s t"
| submit: "\<lbrakk>wp_batch s = None; \<not> wp_cancelled s\<rbrakk> \<Longrightarrow> wpstep polite db run s (s\<lparr>wp_batch := Some tasks\<rparr>)"
| shutdown: "\<lbrakk>\<not> wp_cancelled s; polite \<longrightarrow> wp_batch s = None\<rbrakk>
    \<Longrightarrow> wpstep polite db run s (s\<lparr>wp_cancelled := True\<rparr>)"
| other: "wpstep polite db run s (s\<lparr>wp_db := d\<rparr>)"

inductive wpreach ::
  "bool \<Rightarrow> 'd database \<Rightarrow> ('t \<Rightarrow> point list outcome \<Rightarrow> bool) \<Rightarrow> ('t, 'd) pool \<Rightarrow> ('t, 'd) pool \<Rightarrow> bool"
  for polite db run s0 where
  start: "wpreach polite db run s0 s0"
| step: "wpreach polite db run s0 s \<Longrightarrow> wpstep polite db run s t \<Longrightarrow> wpreach polite db run s0 t"

definition all_returned :: "('t, 'd) pool \<Rightarrow> bool" where
  "all_returned s \<longleftrightarrow> wp_isShutdown s \<and> (\<forall>v \<in> set (wp_workers s). v = WReturned)"

section \<open>Conservation\<close>

fun carries :: "'t wworker \<Rightarrow> 't multiset" where
  "carries (WRunning t) = {#t#}"
| "carries _ = {#}"

definition carried :: "('t, 'd) pool \<Rightarrow> 't multiset" where
  "carried s = sum_list (map carries (wp_workers s))"

definition accounted_tasks :: "('t, 'd) pool \<Rightarrow> 't multiset" where
  "accounted_tasks s = mset (ch_buf (wp_taskQueue s)) + carried s + mset (wp_processed s) + mset (wp_recovered s)"

lemma carried_set:
  "wworker_at s i v \<Longrightarrow> carried (set_wworker i v' s) + carries v = carried s + carries v'"
  unfolding wworker_at_def carried_def set_wworker_def by (auto dest!: sum_mset_update [where f = carries and w = v'])

lemma set_wworker_simps [simp]:
  "wp_taskQueue (set_wworker i v s) = wp_taskQueue s" "wp_cancelled (set_wworker i v s) = wp_cancelled s"
  "wp_isShutdown (set_wworker i v s) = wp_isShutdown s" "wp_db (set_wworker i v s) = wp_db s"
  "wp_batch (set_wworker i v s) = wp_batch s" "wp_accepted (set_wworker i v s) = wp_accepted s"
  "wp_processed (set_wworker i v s) = wp_processed s" "wp_recovered (set_wworker i v s) = wp_recovered s"
  "wp_panicked (set_wworker i v s) = wp_panicked s" "wp_refused (set_wworker i v s) = wp_refused s"
  "wp_workers (set_wworker i v s) = (wp_workers s)[i := v]"
  by (simp_all add: set_wworker_def)

lemma wworker_at_other [simp]:
  "wworker_at (s\<lparr>wp_taskQueue := q\<rparr>) i v = wworker_at s i v"
  "wworker_at (s\<lparr>wp_db := d, wp_processed := xs\<rparr>) i v = wworker_at s i v"
  "wworker_at (s\<lparr>wp_db := d, wp_recovered := xs\<rparr>) i v = wworker_at s i v"
  by (simp_all add: wworker_at_def)

lemma carried_other [simp]:
  "carried (s\<lparr>wp_taskQueue := q\<rparr>) = carried s"
  "carried (s\<lparr>wp_db := d, wp_processed := xs\<rparr>) = carried s"
  "carried (s\<lparr>wp_db := d, wp_recovered := xs\<rparr>) = carried s"
  by (simp_all add: carried_def)

text \<open>
  The flags go together; the accepted tasks are those queued, carried, processed or recovered; a
  pool whose shutdown was polite is not sending.
\<close>

definition wp_inv :: "bool \<Rightarrow> ('t, 'd) pool \<Rightarrow> bool" where
  "wp_inv polite s \<longleftrightarrow>
     mset (wp_accepted s) = accounted_tasks s \<and>
     (wp_isShutdown s \<longrightarrow> wp_cancelled s) \<and> (ch_closed (wp_taskQueue s) \<longleftrightarrow> wp_isShutdown s) \<and>
     (polite \<longrightarrow> \<not> wp_panicked s \<and> (wp_cancelled s \<longrightarrow> wp_batch s = None)) \<and>
     length (ch_buf (wp_taskQueue s)) \<le> ch_cap (wp_taskQueue s)"

lemma wp_inv_work: "wpwork db run s t \<Longrightarrow> wp_inv polite s \<Longrightarrow> wp_inv polite t"
proof (induction rule: wpwork.induct)
  case (enqueue s t ts q)
  then show ?case
    using chan.send_contents [OF enqueue(2)] chan.send_bound [OF enqueue(2)] chan_send_closed [OF enqueue(2)]
    by (auto simp: wp_inv_def accounted_tasks_def carried_def ac_simps)
next
  case (take s i t q)
  then show ?case
    using chan.recv_contents [OF take(2)] chan.recv_bound [OF take(2)] chan_recv_closed [OF take(2)]
      carried_set [of "s\<lparr>wp_taskQueue := q\<rparr>" i WIdle "WRunning t"]
    by (auto simp: wp_inv_def accounted_tasks_def ac_simps)
next
  case (finish s i)
  then show ?case using carried_set [OF finish(1), of WReturned]
    by (auto simp: wp_inv_def accounted_tasks_def)
next
  case (quit s i)
  then show ?case using carried_set [OF quit(1), of WReturned]
    by (auto simp: wp_inv_def accounted_tasks_def)
next
  case (handled s i t points)
  let ?s = "s\<lparr>wp_db := processTask db (Ok points) (wp_db s), wp_processed := wp_processed s @ [t]\<rparr>"
  from handled show ?case using carried_set [of ?s i "WRunning t" WIdle]
    by (auto simp: wp_inv_def accounted_tasks_def ac_simps)
next
  case (recovered s i t p)
  let ?s = "s\<lparr>wp_db := processTask db (Panic p) (wp_db s), wp_recovered := wp_recovered s @ [t]\<rparr>"
  from recovered show ?case using carried_set [of ?s i "WRunning t" WIdle]
    by (auto simp: wp_inv_def accounted_tasks_def ac_simps)
qed (auto simp: wp_inv_def accounted_tasks_def carried_def)

lemma wp_inv_step: "wpstep polite db run s t \<Longrightarrow> wp_inv polite s \<Longrightarrow> wp_inv polite t"
  by (induction rule: wpstep.induct)
    (auto simp: wp_inv_def accounted_tasks_def carried_def dest!: wp_inv_work [where polite = polite])

lemma sum_list_empties [simp]: "sum_list (replicate k ({#} :: 'a multiset)) = {#}"
  by (induction k) auto

lemma wp_inv_init: "wp_inv polite (NewWorkerPool workers queueSize d)"
  by (simp add: wp_inv_def NewWorkerPool_def Let_def accounted_tasks_def carried_def make_chan_def)

lemma wpreach_inv: "wpreach polite db run s0 s \<Longrightarrow> wp_inv polite s0 \<Longrightarrow> wp_inv polite s"
  by (induction rule: wpreach.induct) (auto intro: wp_inv_step)

section \<open>Shutting down\<close>

fun wworker_weight :: "'t wworker \<Rightarrow> nat" where
  "wworker_weight WReturned = 0"
| "wworker_weight WIdle = 1"
| "wworker_weight (WRunning t) = 2"

definition wpmeasure :: "('t, 'd) pool \<Rightarrow> nat" where
  "wpmeasure s = 2 * length (ch_buf (wp_taskQueue s)) + sum_list (map wworker_weight (wp_workers s))"

lemma weight_set_wworker:
  "wworker_at s i v \<Longrightarrow> sum_list (map wworker_weight ((wp_workers s)[i := v'])) + wworker_weight v
     = sum_list (map wworker_weight (wp_workers s)) + wworker_weight v'"
  by (auto simp: wworker_at_def dest!: sum_nat_update [where f = wworker_weight and w = v'])

lemma wpwork_measure:
  assumes "wpwork db run s t" and "wp_isShutdown s" and "wp_inv True s"
  shows "wp_workers t = wp_workers s \<and> wp_taskQueue t = wp_taskQueue s \<or> wpmeasure t < wpmeasure s"
  using assms
proof (induction rule: wpwork.induct)
  case (take s i t q)
  then show ?case using weight_set_wworker [OF take(1), of "WRunning t"] chan.recv_contents [OF take(2)]
    by (simp add: wpmeasure_def)
next
  case (finish s i)
  then show ?case using weight_set_wworker [OF finish(1), of WReturned] by (simp add: wpmeasure_def)
next
  case (quit s i)
  then show ?case using weight_set_wworker [OF quit(1), of WReturned] by (simp add: wpmeasure_def)
next
  case (handled s i t points)
  then show ?case using weight_set_wworker [OF handled(1), of WIdle] by (simp add: wpmeasure_def)
next
  case (recovered s i t p)
  then show ?case using weight_set_wworker [OF recovered(1), of WIdle] by (simp add: wpmeasure_def)
qed (auto simp: wp_inv_def)

lemma wpstep_measure:
  assumes "wpstep True db run s t" and "wp_isShutdown s" and "wp_inv True s"
  shows "wp_workers t = wp_workers s \<and> wp_taskQueue t = wp_taskQueue s \<or> wpmeasure t < wpmeasure s"
  using assms by (cases rule: wpstep.cases) (auto dest: wpwork_measure)

text \<open>What a worker that has something to do can do.\<close>

definition same_submission :: "('t, 'd) pool \<Rightarrow> ('t, 'd) pool \<Rightarrow> bool" where
  "same_submission s t \<longleftrightarrow> wp_batch t = wp_batch s \<and> wp_cancelled t = wp_cancelled s \<and> wp_isShutdown t = wp_isShutdown s"

lemma worker_moves_on:
  assumes "v \<in> set (wp_workers s)" and "v \<noteq> WReturned"
    and "v = WIdle \<Longrightarrow> ch_buf (wp_taskQueue s) \<noteq> [] \<or> wp_cancelled s"
    and "\<And>t. v = WRunning t \<Longrightarrow> \<exists>r. run t r \<and> (\<forall>e. r \<noteq> Err e)"
  shows "\<exists>t. wpwork db run s t \<and> wpmeasure t < wpmeasure s \<and> same_submission s t"
proof -
  obtain i where i: "wworker_at s i v" using assms(1) by (auto simp: wworker_at_def in_set_conv_nth)
  consider (quit) "v = WIdle" "wp_cancelled s" | (take) "v = WIdle" "ch_buf (wp_taskQueue s) \<noteq> []" | (running) t where "v = WRunning t"
    using assms(2,3) by (cases v) auto
  then show ?thesis
  proof cases
    case quit
    then have "wpwork db run s (set_wworker i WReturned s)" using i by (auto intro: wpwork.quit)
    moreover have "wpmeasure (set_wworker i WReturned s) < wpmeasure s"
      using weight_set_wworker [OF i, of WReturned] quit by (simp add: wpmeasure_def)
    ultimately show ?thesis by (intro exI [of _ "set_wworker i WReturned s"]) (simp add: same_submission_def)
  next
    case take
    then obtain t ts where "ch_buf (wp_taskQueue s) = t # ts" by (cases "ch_buf (wp_taskQueue s)") auto
    then have recv: "chan_recv (wp_taskQueue s) = Some (t, (wp_taskQueue s)\<lparr>ch_buf := ts\<rparr>)" by (simp add: chan_recv_def)
    let ?t = "set_wworker i (WRunning t) (s\<lparr>wp_taskQueue := (wp_taskQueue s)\<lparr>ch_buf := ts\<rparr>\<rparr>)"
    have "wpwork db run s ?t" using i take recv by (auto intro: wpwork.take)
    moreover have "wpmeasure ?t < wpmeasure s"
      using weight_set_wworker [OF i, of "WRunning t"] take chan.recv_contents [OF recv] by (simp add: wpmeasure_def)
    ultimately show ?thesis by (intro exI [of _ ?t]) (simp add: same_submission_def)
  next
    case running
    obtain r where r: "run t r" "\<forall>e. r \<noteq> Err e" using assms(4) running by blast
    let ?ok = "\<lambda>points. set_wworker i WIdle (s\<lparr>wp_db := processTask db (Ok points) (wp_db s), wp_processed := wp_processed s @ [t]\<rparr>)"
    let ?panic = "\<lambda>p. set_wworker i WIdle (s\<lparr>wp_db := processTask db (Panic p) (wp_db s), wp_recovered := wp_recovered s @ [t]\<rparr>)"
    have "wpmeasure (?ok points) < wpmeasure s" "wpmeasure (?panic p) < wpmeasure s" for points p
      using weight_set_wworker [OF i, of WIdle] running by (simp_all add: wpmeasure_def)
    moreover have "(\<exists>points. wpwork db run s (?ok points)) \<or> (\<exists>p. wpwork db run s (?panic p))"
      using r i running by (cases r) (auto intro: wpwork.handled wpwork.recovered)
    moreover have "same_submission s (?ok points)" "same_submission s (?panic p)" for points p
      by (simp_all add: same_submission_def)
    ultimately show ?thesis by blast
  qed
qed

lemma wworker_moves:
  assumes "wp_isShutdown s" and "wp_inv True s" and "\<not> all_returned s"
    and "\<And>t. \<exists>r. run t r \<and> (\<forall>e. r \<noteq> Err e)"
  shows "\<exists>t. wpstep True db run s t \<and> wpmeasure t < wpmeasure s \<and> wp_isShutdown t"
proof -
  obtain v where "v \<in> set (wp_workers s)" "v \<noteq> WReturned" using assms(1,3) by (auto simp: all_returned_def)
  moreover have "wp_cancelled s" using assms(1,2) by (simp add: wp_inv_def)
  ultimately obtain t where "wpwork db run s t" "wpmeasure t < wpmeasure s" "same_submission s t"
    using worker_moves_on [of v s run db] assms(4) by blast
  then show ?thesis using assms(1) by (auto simp: same_submission_def intro: wpstep.work)
qed

lemma wpreach_trans: "wpreach b db run s t \<Longrightarrow> wpreach b db run t u \<Longrightarrow> wpreach b db run s u"
proof (rotate_tac, induction rule: wpreach.induct)
  case (step s' t')
  then show ?case by (blast intro: wpreach.step)
qed

text \<open>A run that drops a task.\<close>

lemma dropped_run:
  "\<exists>s. wpreach True sample_db run (NewWorkerPool 1 1 ([], [])) s \<and> all_returned s \<and>
     wp_accepted s = [task] \<and> wp_processed s = [] \<and> ch_buf (wp_taskQueue s) = [task]"
proof -
  let ?s = "\<lambda>batch buf acc can. \<lparr>wp_taskQueue = \<lparr>ch_cap = 1, ch_buf = buf, ch_closed = False\<rparr>, wp_workers = [WIdle],
      wp_cancelled = can, wp_isShutdown = False, wp_db = ([], []), wp_batch = batch, wp_accepted = acc, wp_processed = [],
      wp_recovered = [], wp_refused = 0, wp_panicked = False\<rparr>"
  let ?c = "(?s None [task] [task] True)\<lparr>wp_taskQueue := \<lparr>ch_cap = 1, ch_buf = [task], ch_closed = True\<rparr>, wp_isShutdown := True\<rparr>"
  let ?final = "?c\<lparr>wp_workers := [WReturned]\<rparr>"
  have 0: "NewWorkerPool 1 1 ([], []) = ?s None [] [] False" by (simp add: NewWorkerPool_def make_chan_def)
  have 1: "wpstep True sample_db run (?s None [] [] False) (?s (Some [task]) [] [] False)"
    using wpstep.submit [of "?s None [] [] False" True sample_db run "[task]"] by simp
  have 2: "wpstep True sample_db run (?s (Some [task]) [] [] False) (?s (Some []) [task] [task] False)"
    using wpwork.enqueue [THEN wpstep.work, of "?s (Some [task]) [] [] False" task "[]" "\<lparr>ch_cap = 1, ch_buf = [task], ch_closed = False\<rparr>"]
    by (simp add: chan_send_def can_send_def)
  have 3: "wpstep True sample_db run (?s (Some []) [task] [task] False) (?s None [task] [task] False)"
    using wpwork.submitted [THEN wpstep.work, of "?s (Some []) [task] [task] False"] by simp
  have 4: "wpstep True sample_db run (?s None [task] [task] False) (?s None [task] [task] True)"
    using wpstep.shutdown [of "?s None [task] [task] False"] by simp
  have 5: "wpstep True sample_db run (?s None [task] [task] True) ?c"
    using wpwork.close [THEN wpstep.work, of "?s None [task] [task] True"] by (simp add: chan_close_def)
  have 6: "wpstep True sample_db run ?c ?final"
    using wpwork.quit [THEN wpstep.work, of ?c 0] by (simp add: wworker_at_def set_wworker_def)
  have "wpreach True sample_db run (?s None [] [] False) ?final"
    using wpreach.step [OF wpreach.step [OF wpreach.step [OF wpreach.step [OF wpreach.step [OF wpreach.step
      [OF wpreach.start 1] 2] 3] 4] 5] 6] .
  then show ?thesis unfolding 0 by (intro exI [of _ ?final]) (simp add: all_returned_def)
qed

section \<open>Properties\<close>

text \<open>C19: In every interleaving of submitters, workers and shutdown the tasks accepted into the queue are
  exactly those still queued, being run, processed, or given up by a recovered panic: none is run twice
  or lost, and the queue keeps to its size.\<close>

theorem pool_conserves:
  assumes "wpreach polite db run (NewWorkerPool workers queueSize d) s"
  shows "mset (wp_accepted s) = mset (ch_buf (wp_taskQueue s)) + carried s + mset (wp_processed s) + mset (wp_recovered s)
    \<and> length (ch_buf (wp_taskQueue s)) \<le> ch_cap (wp_taskQueue s)"
  using wpreach_inv [OF assms wp_inv_init] by (simp add: wp_inv_def accounted_tasks_def)

text \<open>If the shutdown never begins while a batch is being submitted (which is how the subscriber uses
  the pool), no send meets the closed queue; once the queue is closed every step of a worker brings the
  pool closer to the end, and such a step exists until all workers have returned.\<close>

theorem pool_shuts_down:
  assumes "wpreach True db run (NewWorkerPool workers queueSize d) s"
    and "\<And>t. \<exists>r. run t r \<and> (\<forall>e. r \<noteq> Err e)"
  shows "\<not> wp_panicked s \<and>
    (wp_isShutdown s \<longrightarrow>
      (\<forall>t. wpstep True db run s t \<longrightarrow>
        wp_workers t = wp_workers s \<and> wp_taskQueue t = wp_taskQueue s \<or> wpmeasure t < wpmeasure s) \<and>
      (all_returned s \<or> (\<exists>t. wpstep True db run s t \<and> wpmeasure t < wpmeasure s \<and> wp_isShutdown t)))"
proof -
  have inv: "wp_inv True s" using assms(1) wp_inv_init by (rule wpreach_inv)
  then have "\<not> wp_panicked s" by (simp add: wp_inv_def)
  moreover have "wp_workers t = wp_workers s \<and> wp_taskQueue t = wp_taskQueue s \<or> wpmeasure t < wpmeasure s"
    if "wp_isShutdown s" "wpstep True db run s t" for t
    using wpstep_measure [OF that(2,1) inv] .
  moreover have "all_returned s \<or> (\<exists>t. wpstep True db run s t \<and> wpmeasure t < wpmeasure s \<and> wp_isShutdown t)"
    if "wp_isShutdown s"
    using wworker_moves [where run = run and db = db, OF that inv _ assms(2)] by blast
  ultimately show ?thesis by blast
qed

text \<open>The shutdown does not process what is queued: since the workers are cancelled before the queue is
  closed, an accepted task can be left in the queue when all of them have returned.\<close>

theorem shutdown_drops_tasks:
  "\<exists>s. wpreach True sample_db run (NewWorkerPool 1 1 ([], [])) s \<and> all_returned s \<and>
     wp_accepted s = [task] \<and> wp_processed s = [] \<and> ch_buf (wp_taskQueue s) = [task]"
  by (rule dropped_run)

text \<open>Without that discipline the pool is not safe: a shutdown that begins while a batch is being
  submitted can make the submitter send on the closed queue.\<close>

theorem impolite_shutdown_panics:
  "\<exists>s. wpreach False sample_db run (NewWorkerPool 1 1 ([], [])) s \<and> wp_panicked s"
proof -
  let ?s0 = "NewWorkerPool 1 1 ([], []) :: ('a, sample_store) pool"
  let ?s1 = "?s0\<lparr>wp_batch := Some [undefined]\<rparr>"
  let ?s2 = "?s1\<lparr>wp_cancelled := True\<rparr>"
  let ?s3 = "?s2\<lparr>wp_taskQueue := chan_close (wp_taskQueue ?s2), wp_isShutdown := True\<rparr>"
  let ?s4 = "?s3\<lparr>wp_panicked := True\<rparr>"
  have 1: "wpstep False sample_db run ?s0 ?s1" by (rule wpstep.submit) (simp_all add: NewWorkerPool_def)
  have 2: "wpstep False sample_db run ?s1 ?s2" by (rule wpstep.shutdown) (simp_all add: NewWorkerPool_def)
  have 3: "wpstep False sample_db run ?s2 ?s3" by (rule wpstep.work, rule wpwork.close) (simp_all add: NewWorkerPool_def)
  have 4: "wpstep False sample_db run ?s3 ?s4" by (rule wpstep.work, rule wpwork.enqueue_closed) simp_all
  have "wpreach False sample_db run ?s0 ?s4"
    using wpreach.step [OF wpreach.step [OF wpreach.step [OF wpreach.step [OF wpreach.start 1] 2] 3] 4] .
  then show ?thesis by (intro exI [of _ ?s4]) simp
qed

section \<open>Instances\<close>

theorem pool_conserves_witness:
  "\<exists>s :: (nat, sample_store) pool. wp_accepted s = [7] \<and> ch_buf (wp_taskQueue s) = [7] \<and>
     {#7#} = {#7#} + carried s + mset (wp_processed s) + mset (wp_recovered s)"
proof -
  obtain s :: "(nat, sample_store) pool" where "wpreach True sample_db (\<lambda>t r. r = Ok []) (NewWorkerPool 1 1 ([], [])) s"
    "wp_accepted s = [7]" "ch_buf (wp_taskQueue s) = [7]" using dropped_run [where run = "\<lambda>t r. r = Ok []" and task = 7] by metis
  with pool_conserves [OF this(1)] show ?thesis by (intro exI [of _ s]) simp
qed

theorem pool_shuts_down_witness:
  "\<exists>s :: (nat, sample_store) pool. wp_isShutdown s \<and> all_returned s \<and> \<not> wp_panicked s"
proof -
  obtain s :: "(nat, sample_store) pool" where s: "wpreach True sample_db (\<lambda>t r. r = Ok []) (NewWorkerPool 1 1 ([], [])) s"
    "all_returned s" using dropped_run [where run = "\<lambda>t r. r = Ok []" and task = 7] by metis
  have "\<exists>r. r = Ok [] \<and> (\<forall>e. r \<noteq> Err e)" by simp
  from pool_shuts_down [OF s(1) this] s(2) show ?thesis
    by (intro exI [of _ s]) (simp add: all_returned_def)
qed

end
