(* ===== verification/ChainStats.thy ===== *)
theory ChainStats
  imports Samples
begin

text \<open>
  The handlers that look at a block alone: \<^verbatim>\<open>stats/blockstats/blocks.go\<close>,
  \<^verbatim>\<open>stats/utilisation/utilisation.go\<close> and \<^verbatim>\<open>stats/liveness/liveness.go\<close>. The
  chain's block interval and epoch length come from the thor library and are arguments; both are
  positive there.
\<close>

section \<open>blockstats\<close>

definition gas_usage :: "Block \<Rightarrow> f64" where
  "gas_usage b = f64_div (f64_mul (f64_of_u64 (blk_GasUsed b)) (Fin 100)) (f64_of_u64 (blk_GasLimit b))"

definition recent_missed_slots :: "u64 \<Rightarrow> Block \<Rightarrow> Block \<Rightarrow> u64" where
  "recent_missed_slots interval b prev =
     (blk_Timestamp b - blk_Timestamp prev + (interval - 1)) div interval - 1"

definition block_gap :: "u64 \<Rightarrow> Event \<Rightarrow> f64" where
  "block_gap interval ev =
     (case e_Prev ev of
        None \<Rightarrow> f64_of_u64 interval
      | Some prev \<Rightarrow> f64_of_u64 (blk_Timestamp (e_Block ev) - blk_Timestamp prev))"

text \<open>\<open>big.NewInt(int64(GasUsed))\<close> times the base fee, in VTHO.\<close>

definition total_burnt :: "int \<Rightarrow> u64 \<Rightarrow> f64" where
  "total_burnt baseFee gasUsed = big_Float64 (big_Quo (big_SetInt (baseFee * sint gasUsed)) (10 ^ 18))"

text \<open>The sum of the rewards; a nil reward is dereferenced.\<close>

definition total_tip :: "JSONTx list \<Rightarrow> int outcome" where
  "total_tip txs = foldl (\<lambda>acc t. bind_outcome acc (\<lambda>tip.
     case tx_Reward t of None \<Rightarrow> Panic NilDereference | Some r \<Rightarrow> Ok (tip + r))) (Ok 0) txs"

definition fee_fields :: "Block \<Rightarrow> (fkey, val) gomap outcome" where
  "fee_fields b =
     (case blk_BaseFeePerGas b of
        None \<Rightarrow> Ok [(KStr ''block_base_fee'', VBig 0)]
      | Some baseFee \<Rightarrow> bind_outcome (total_tip (blk_Transactions b)) (\<lambda>tip.
          Ok [(KStr ''block_base_fee'', VBig baseFee),
              (KStr ''block_total_burnt'', VF64 (total_burnt baseFee (blk_GasUsed b))),
              (KStr ''block_total_total_tip'', VBig tip)]))"

definition blockstats_Write :: "u64 \<Rightarrow> Event \<Rightarrow> point list outcome" where
  "blockstats_Write interval ev =
     (let b = e_Block ev in
      bind_outcome (fee_fields b) (\<lambda>fees.
        Ok [\<lparr>pt_Measurement = ''block_stats'',
             pt_Tags = [(''signer'', VAddr (blk_Signer b))],
             pt_Fields =
               [(KStr ''block_id'', VID (blk_ID b)), (KStr ''total_score'', VU64 (blk_TotalScore b)),
                (KStr ''pos_active'', VBool (hs_Active (e_HayabusaStatus ev))),
                (KStr ''best_block_number'', VU32 (blk_Number b)),
                (KStr ''block_gas_used'', VU64 (blk_GasUsed b)), (KStr ''block_gas_limit'', VU64 (blk_GasLimit b)),
                (KStr ''block_gas_usage'', VF64 (gas_usage b)), (KStr ''storage_size'', VU32 (blk_Size b)),
                (KStr ''block_signer'', VAddr (blk_Signer b))] @
               (case e_Prev ev of None \<Rightarrow> [] | Some prev \<Rightarrow>
                  [(KStr ''recent_missed_slots'', VU64 (recent_missed_slots interval b prev))]) @
               [(KStr ''block_mine_gap'',
                   VF64 (f64_div (f64_sub (block_gap interval ev) (f64_of_u64 interval)) (f64_of_u64 interval)))] @
               fees @ [(KStr ''com'', VBool (blk_COM b))],
             pt_Time = e_Timestamp ev\<rparr>]))"

section \<open>utilisation\<close>

definition utilisation_Write :: "u32 \<Rightarrow> Event \<Rightarrow> point list outcome" where
  "utilisation_Write epochLength ev =
     Ok [\<lparr>pt_Measurement = ''blockspace_utilization'', pt_Tags = e_DefaultTags ev,
          pt_Fields = [(KStr ''utilization'', VF64 (gas_usage (e_Block ev))),
            (KStr ''epoch'', VBig (uint (blk_Number (e_Block ev) div epochLength)))],
          pt_Time = e_Timestamp ev\<rparr>]"

section \<open>liveness\<close>

definition current_epoch :: "u32 \<Rightarrow> u32 \<Rightarrow> u32" where
  "current_epoch epochLength n = n div epochLength * epochLength"

definition liveness_fields :: "u32 \<Rightarrow> u32 \<Rightarrow> u32 \<Rightarrow> u32 \<Rightarrow> (fkey, val) gomap" where
  "liveness_fields epochLength currentEpoch finalized justified =
     [(KStr ''finalized'', VU32 finalized), (KStr ''justified_block'', VU32 justified),
      (KStr ''liveness'', VU32 ((currentEpoch - finalized) div epochLength))]"

definition estimated_fields :: "u32 \<Rightarrow> u32 \<Rightarrow> (fkey, val) gomap" where
  "estimated_fields epochLength currentEpoch =
     liveness_fields epochLength currentEpoch (currentEpoch - epochLength * 2) (currentEpoch - epochLength)"

definition liveness_Write :: "u32 \<Rightarrow> 'w client \<Rightarrow> int \<Rightarrow> Event \<Rightarrow> 'w \<Rightarrow> point list outcome \<times> 'w" where
  "liveness_Write epochLength cl now ev w =
     (let n = blk_Number (e_Block ev); currentEpoch = current_epoch epochLength n;
          result = (\<lambda>fields. Ok [\<lparr>pt_Measurement = ''liveness'', pt_Tags = e_DefaultTags ev,
            pt_Fields = [(KStr ''current_epoch'', VU32 currentEpoch), (KStr ''epoch'', VU32 (n div epochLength)),
              (KStr ''current_block'', VU32 n)] @ fields,
            pt_Time = e_Timestamp ev\<rparr>]) in
      if now - e_Timestamp ev < sec 180 then
        (case cl_Block cl RevFinalized w of
           (Inl err, w1) \<Rightarrow> (result (estimated_fields epochLength currentEpoch), w1)
         | (Inr finalized, w1) \<Rightarrow>
             (case cl_Block cl RevJustified w1 of
                (Inl err, w2) \<Rightarrow> (Panic NilDereference, w2)
              | (Inr justified, w2) \<Rightarrow>
                  (result (liveness_fields epochLength currentEpoch (blk_Number finalized) (blk_Number justified)), w2)))
      else (result (estimated_fields epochLength currentEpoch), w))"

section \<open>The sum of the rewards\<close>

lemma total_tip_foldl:
  "foldl (\<lambda>acc t. bind_outcome acc (\<lambda>tip. case tx_Reward t of None \<Rightarrow> Panic NilDereference | Some r \<Rightarrow> Ok (tip + r))) (Panic q) txs
     = Panic q"
  by (induction txs) auto

lemma total_tip_sum:
  "list_all (\<lambda>t. tx_Reward t \<noteq> None) txs \<Longrightarrow> total_tip txs = Ok (sum_list (map (\<lambda>t. the (tx_Reward t)) txs))"
proof -
  have "list_all (\<lambda>t. tx_Reward t \<noteq> None) txs \<Longrightarrow>
      foldl (\<lambda>acc t. bind_outcome acc (\<lambda>tip. case tx_Reward t of None \<Rightarrow> Panic NilDereference | Some r \<Rightarrow> Ok (tip + r))) (Ok x) txs
        = Ok (x + sum_list (map (\<lambda>t. the (tx_Reward t)) txs))" for x
    by (induction txs arbitrary: x) auto
  then show "list_all (\<lambda>t. tx_Reward t \<noteq> None) txs \<Longrightarrow> ?thesis" by (simp add: total_tip_def)
qed

lemma total_tip_Panic:
  "\<not> list_all (\<lambda>t. tx_Reward t \<noteq> None) txs \<Longrightarrow> total_tip txs = Panic NilDereference"
proof -
  have "\<not> list_all (\<lambda>t. tx_Reward t \<noteq> None) txs \<Longrightarrow>
      foldl (\<lambda>acc t. bind_outcome acc (\<lambda>tip. case tx_Reward t of None \<Rightarrow> Panic NilDereference | Some r \<Rightarrow> Ok (tip + r))) (Ok x) txs
        = Panic NilDereference" for x
    by (induction txs arbitrary: x) (auto simp: total_tip_foldl split: option.split)
  then show "\<not> list_all (\<lambda>t. tx_Reward t \<noteq> None) txs \<Longrightarrow> ?thesis" by (simp add: total_tip_def)
qed

section \<open>Properties\<close>

text \<open>The missed slots of a block are the number of whole intervals that passed before its own: with a
  gap of g seconds after the parent, the largest m such that m intervals are shorter than g.\<close>

theorem missed_slots_count:
  assumes "0 < interval" and "blk_Timestamp prev < blk_Timestamp b"
    and "unat (blk_Timestamp b) + unat interval < 2 ^ 64"
  shows "unat (recent_missed_slots interval b prev) * unat interval < unat (blk_Timestamp b) - unat (blk_Timestamp prev) \<and>
    unat (blk_Timestamp b) - unat (blk_Timestamp prev) \<le> (unat (recent_missed_slots interval b prev) + 1) * unat interval"
proof -
  define g i where "g = unat (blk_Timestamp b) - unat (blk_Timestamp prev)" and "i = unat interval"
  have pos: "0 < g" "0 < i" using assms(1,2) by (simp_all add: g_def i_def word_less_nat_alt)
  have "unat (blk_Timestamp b - blk_Timestamp prev) = g" using assms(2) by (simp add: g_def unat_sub)
  moreover have "unat (interval - 1) = i - 1" using assms(1) by (simp add: i_def unat_sub word_less_nat_alt word_le_nat_alt)
  ultimately have "unat (blk_Timestamp b - blk_Timestamp prev + (interval - 1)) = g + (i - 1)"
    using assms(3) by (subst unat_add_lem [THEN iffD1]) (auto simp: g_def i_def)
  then have q: "unat ((blk_Timestamp b - blk_Timestamp prev + (interval - 1)) div interval) = (g + (i - 1)) div i"
    by (simp add: unat_div_distrib i_def)
  have "(g + (i - 1)) div i = (g - 1) div i + 1"
  proof -
    have "g + (i - 1) = (g - 1) + i" using pos by simp
    then show ?thesis using pos by (simp only: div_add_self2 neq0_conv)
  qed
  then have m: "unat (recent_missed_slots interval b prev) = (g - 1) div i"
    using q by (simp add: recent_missed_slots_def unat_sub word_le_nat_alt)
  have "(g - 1) div i * i \<le> g - 1" by (rule div_times_less_eq_dividend)
  moreover have "g - 1 < (g - 1) div i * i + i" using pos dividend_less_div_times [of i "g - 1"] by simp
  ultimately show ?thesis using pos unfolding m g_def [symmetric] i_def [symmetric]
    by (auto simp del: div_times_less_eq_dividend)
qed

text \<open>The block statistics are one point at the event's time; they fail, with a nil dereference, exactly
  for a block with a base fee that holds a transaction without a reward.\<close>

theorem blockstats_returns:
  "if blk_BaseFeePerGas (e_Block ev) = None \<or> list_all (\<lambda>t. tx_Reward t \<noteq> None) (blk_Transactions (e_Block ev))
   then \<exists>p. blockstats_Write interval ev = Ok [p] \<and> pt_Time p = e_Timestamp ev
   else blockstats_Write interval ev = Panic NilDereference"
proof -
  have "if list_all (\<lambda>t. tx_Reward t \<noteq> None) txs then \<exists>x. total_tip txs = Ok x
      else total_tip txs = Panic NilDereference" for txs
    by (cases "list_all (\<lambda>t. tx_Reward t \<noteq> None) txs") (simp_all add: total_tip_sum total_tip_Panic)
  from this [of "blk_Transactions (e_Block ev)"] show ?thesis
    by (auto simp: blockstats_Write_def fee_fields_def Let_def split: option.splits if_splits)
qed

text \<open>For a block with a base fee the reported tip is the sum of its transactions' rewards.\<close>

theorem blockstats_tip:
  assumes "blockstats_Write interval ev = Ok ps" and "blk_BaseFeePerGas (e_Block ev) = Some fee"
  shows "\<exists>p. ps = [p] \<and> field p ''block_base_fee'' = Some (VBig fee) \<and>
    field p ''block_total_total_tip'' =
      Some (VBig (sum_list (map (\<lambda>t. the (tx_Reward t)) (blk_Transactions (e_Block ev)))))"
proof -
  let ?txs = "blk_Transactions (e_Block ev)"
  from assms obtain tip where tip: "total_tip ?txs = Ok tip"
    by (auto simp: blockstats_Write_def fee_fields_def Let_def outcome_simps)
  have "list_all (\<lambda>t. tx_Reward t \<noteq> None) ?txs"
  proof (rule ccontr)
    assume "\<not> ?thesis"
    with total_tip_Panic tip show False by auto
  qed
  with tip have "tip = sum_list (map (\<lambda>t. the (tx_Reward t)) ?txs)" using total_tip_sum by auto
  then show ?thesis
    using assms tip by (auto simp: blockstats_Write_def fee_fields_def Let_def field_def split: option.splits)
qed

text \<open>Both handlers that report the share of gas used report the same number, the percentage correctly
  rounded to a double (the product by 100 is exact for realistic amounts).\<close>

theorem gas_usage_rounded:
  assumes "blockstats_Write interval ev = Ok [p]" and "utilisation_Write epochLength ev = Ok [q]"
    and "uint (blk_GasUsed (e_Block ev)) < 2 ^ 46" and "0 < blk_GasLimit (e_Block ev)"
    and "uint (blk_GasLimit (e_Block ev)) < 2 ^ 53"
  shows "field p ''block_gas_usage'' = field q ''utilization'' \<and>
    field q ''utilization'' = Some (VF64 (f64_round
      (of_int (uint (blk_GasUsed (e_Block ev)) * 100) / of_int (uint (blk_GasLimit (e_Block ev))))))"
proof -
  let ?used = "uint (blk_GasUsed (e_Block ev))" and ?limit = "uint (blk_GasLimit (e_Block ev))"
  have u: "f64_of_u64 (blk_GasUsed (e_Block ev)) = Fin (of_int ?used)"
    unfolding f64_of_u64_def using assms(3) by (intro f64_of_int_exact) auto
  have l: "f64_of_u64 (blk_GasLimit (e_Block ev)) = Fin (of_int ?limit)"
    unfolding f64_of_u64_def using assms(5) by (intro f64_of_int_exact) auto
  have "f64_round (of_int (?used * 100)) = Fin (of_int (?used * 100))"
    using assms(3) f64_of_int_exact [of "?used * 100"] by (simp add: f64_of_int_def)
  moreover have "?limit \<noteq> 0" using assms(4) by (simp add: uint_0_iff word_neq_0_conv)
  moreover have "of_int ?used * 100 = (of_int (?used * 100) :: rat)" by simp
  ultimately have "gas_usage (e_Block ev) = f64_round (of_int (?used * 100) / of_int ?limit)"
    unfolding gas_usage_def u l f64_mul.simps by (simp only: f64_div.simps of_int_eq_0_iff if_False)
  moreover have "field p ''block_gas_usage'' = Some (VF64 (gas_usage (e_Block ev)))"
    using assms(1) by (auto simp: blockstats_Write_def Let_def outcome_simps field_def)
  moreover have "field q ''utilization'' = Some (VF64 (gas_usage (e_Block ev)))"
    using assms(2) by (auto simp: utilisation_Write_def field_def)
  ultimately show ?thesis by simp
qed

text \<open>For a block older than three minutes the reported liveness is 2 whatever happened on the chain,
  and in the first two epochs the finalized block it reports is ahead of the block itself, because the
  estimate wraps around.\<close>

theorem liveness_estimate:
  assumes "\<not> now - e_Timestamp ev < sec 180" and "0 < epochLength" and "unat epochLength < 2 ^ 30"
  shows "\<exists>p f. liveness_Write epochLength cl now ev w = (Ok [p], w) \<and> field p ''liveness'' = Some (VU32 2) \<and>
    field p ''finalized'' = Some (VU32 f) \<and>
    (blk_Number (e_Block ev) < epochLength * 2 \<longrightarrow> blk_Number (e_Block ev) < f)"
proof -
  define n cur f where "n = blk_Number (e_Block ev)" and "cur = current_epoch epochLength n"
    and "f = cur - epochLength * 2"
  have e2: "unat (epochLength * 2) = unat epochLength * 2"
    using assms(3) by (subst unat_mult_lem [THEN iffD1]) auto
  have two: "(epochLength * 2) div epochLength = 2"
    using assms(2) e2 by (simp add: word_unat_eq_iff unat_div_distrib word_less_nat_alt)
  have "n < f" if "n < epochLength * 2"
  proof -
    have n: "unat n < unat epochLength * 2" using that e2 by (simp add: word_less_nat_alt)
    have "unat n div unat epochLength * unat epochLength \<le> unat n" by (rule div_times_less_eq_dividend)
    moreover from this have cur: "unat cur = unat n div unat epochLength * unat epochLength"
      using unsigned_less [of n, where ?'a = nat] unfolding cur_def current_epoch_def
      by (subst unat_mult_lem [THEN iffD1]) (simp_all add: unat_div_distrib le_less_trans [OF div_times_less_eq_dividend])
    moreover have "unat n < unat n div unat epochLength * unat epochLength + unat epochLength"
      using assms(2) dividend_less_div_times [of "unat epochLength" "unat n"]
      by (simp add: word_less_nat_alt add.commute)
    ultimately have "unat cur \<le> unat n" "unat n < unat cur + unat epochLength" by simp_all
    moreover have "unat f = 2 ^ 32 + unat cur - unat epochLength * 2"
      using e2 n calculation unsigned_less [of "epochLength * 2", where ?'a = nat]
      by (simp add: f_def unat_sub_if_size word_size)
    ultimately show ?thesis using assms(3) n by (simp add: word_less_nat_alt)
  qed
  then show ?thesis
    using assms(1) two
    by (simp add: liveness_Write_def Let_def estimated_fields_def liveness_fields_def field_def
        flip: n_def cur_def f_def)
qed

section \<open>Instances\<close>

text \<open>A block with a base fee, half of its gas used, and two rewarded transactions.\<close>

definition sample_tx :: "int \<Rightarrow> JSONTx" where
  "sample_tx reward = \<lparr>tx_Type = TypeDynamicFee, tx_GasPriceCoef = None, tx_MaxPriorityFeePerGas = Some 5,
     tx_Reward = Some reward, tx_ClauseCount = 1, tx_Outputs = []\<rparr>"

definition busy_block :: Block where
  "busy_block = main2\<lparr>blk_GasUsed := 20000000, blk_BaseFeePerGas := Some 7,
     blk_Transactions := [sample_tx 30, sample_tx 12]\<rparr>"

theorem missed_slots_count_witness:
  "unat (recent_missed_slots 10 (main2\<lparr>blk_Timestamp := 45\<rparr>) main1) * 10 < 35 \<and>
   35 \<le> (unat (recent_missed_slots 10 (main2\<lparr>blk_Timestamp := 45\<rparr>) main1) + 1) * 10"
proof -
  have "blk_Timestamp main1 = 10" by (simp add: sample_blocks)
  then show ?thesis using missed_slots_count [of 10 main1 "main2\<lparr>blk_Timestamp := 45\<rparr>"]
    by (simp add: word_less_nat_alt)
qed

lemma busy_Write: "\<exists>p. blockstats_Write interval (sample_input busy_block None) = Ok [p]"
  by (simp add: blockstats_Write_def fee_fields_def sample_input_def busy_block_def total_tip_sum sample_tx_def Let_def)

theorem blockstats_tip_witness:
  "\<exists>p. blockstats_Write 10 (sample_input busy_block None) = Ok [p] \<and> field p ''block_total_total_tip'' = Some (VBig 42)"
proof -
  obtain p where p: "blockstats_Write 10 (sample_input busy_block None) = Ok [p]" using busy_Write by blast
  have "blk_BaseFeePerGas (e_Block (sample_input busy_block None)) = Some 7"
    by (simp add: sample_input_def busy_block_def)
  with blockstats_tip [OF p this] p show ?thesis
    by (simp add: sample_input_def busy_block_def sample_tx_def)
qed

theorem gas_usage_rounded_witness:
  "\<exists>q. utilisation_Write 180 (sample_input busy_block None) = Ok [q] \<and>
     field q ''utilization'' = Some (VF64 (f64_round (of_int (20000000 * 100) / of_int 40000000)))"
proof -
  obtain p where p: "blockstats_Write 10 (sample_input busy_block None) = Ok [p]" using busy_Write by blast
  obtain q where q: "utilisation_Write 180 (sample_input busy_block None) = Ok [q]"
    by (simp add: utilisation_Write_def)
  have "blk_GasUsed (e_Block (sample_input busy_block None)) = 20000000"
    "blk_GasLimit (e_Block (sample_input busy_block None)) = 40000000"
    by (simp_all add: sample_input_def busy_block_def sample_blocks)
  with gas_usage_rounded [OF p q] q show ?thesis by simp
qed

theorem liveness_estimate_witness:
  "\<exists>p f. liveness_Write 180 sample_client (sec 1000) (sample_input main2 None) 0 = (Ok [p], 0) \<and>
     field p ''liveness'' = Some (VU32 2) \<and> field p ''finalized'' = Some (VU32 f) \<and> 2 < f"
proof -
  have n: "blk_Number (e_Block (sample_input main2 None)) = 2" by (simp add: sample_input_def sample_blocks)
  have "\<not> sec 1000 - e_Timestamp (sample_input main2 None) < sec 180"
    by (simp add: sample_input_def sample_blocks unix_time_def sec_def)
  from liveness_estimate [OF this, of 180 sample_client 0] show ?thesis
    by (auto simp: n word_less_nat_alt)
qed

end
