(* ===== verification/Subscriber.thy ===== *)
theory Subscriber
  imports ForkHandler WorkerPool ForwardSyncer ChainStats
begin

text \<open>
  \<^verbatim>\<open>pubsub/subscriber.go\<close>: every block event is either a fork to resolve, or becomes one
  task per registered handler, submitted to the worker pool as a batch.
\<close>

section \<open>Tasks\<close>

text \<open>A task names its handler by the key it is registered under.\<close>

record Task =
  tk_EventType :: string
  tk_Event :: Event

definition handler_names :: "string list" where
  "handler_names = [''authority'', ''pos'', ''transactions'', ''liveness'', ''blocks'', ''utilisation'',
     ''slots'', ''price'']"

definition event_of :: "BlockEvent \<Rightarrow> Event" where
  "event_of b =
     \<lparr>e_DefaultTags = [(''signer'', VAddr (blk_Signer (be_Block b)))], e_Block = be_Block b, e_Seed = be_Seed b,
      e_HayabusaStatus = be_HayabusaStatus b, e_Prev = be_Prev b, e_Timestamp = unix_time (blk_Timestamp (be_Block b)),
      e_Staker = be_Staker b, e_ParentStaker = be_ParentStaker b, e_AuthNodes = be_AuthNodes b,
      e_ParentAuthNodes = be_ParentAuthNodes b, e_FutureSeed = be_FutureSeed b\<rparr>"

text \<open>The handlers are a Go map: \<open>order\<close> is the order in which this iteration visits them.\<close>

definition tasks_of :: "string list \<Rightarrow> Event \<Rightarrow> Task list" where
  "tasks_of order event = map (\<lambda>name. \<lparr>tk_EventType = name, tk_Event = event\<rparr>) order"

definition iteration_of :: "string list \<Rightarrow> bool" where
  "iteration_of order \<longleftrightarrow> mset order = mset handler_names"

section \<open>Subscribe\<close>

text \<open>
  The subscriber's own state: whether it keeps up with the chain, the world and the database, and
  the batches given to the pool.
\<close>

record ('w, 'd) subscriber =
  su_synced :: bool
  su_world :: 'w
  su_db :: 'd
  su_batches :: "Task list list"

definition update_synced :: "int \<Rightarrow> bool \<Rightarrow> bool" where
  "update_synced age synced =
     (let synced1 = (if \<not> synced \<and> age < sec 15 then True else synced) in
      if synced1 \<and> sec 60 < age then False else synced1)"

text \<open>
  Handling one received event. Every fork event sent carries its three blocks; without one of
  them the handler would dereference nil. An error of \<open>Resolve\<close> is only logged.
\<close>

definition on_event ::
  "'w client \<Rightarrow> 'd database \<Rightarrow> string list \<Rightarrow> int \<Rightarrow> BlockEvent \<Rightarrow> ('w, 'd) subscriber \<Rightarrow> ('w, 'd) subscriber outcome option" where
  "on_event cl db order now b s =
     (if fk_Occurred (be_Fork b) then
        (case (fk_Best (be_Fork b), fk_SideChain (be_Fork b), fk_Finalized (be_Fork b)) of
           (Some best, Some side, Some finalized) \<Rightarrow>
             (case Resolve cl db now best side finalized (su_world s) (su_db s) of
                None \<Rightarrow> None
              | Some (Panic p, w, d) \<Rightarrow> Some (Panic p)
              | Some (r, w, d) \<Rightarrow> Some (Ok (s\<lparr>su_world := w, su_db := d\<rparr>)))
         | _ \<Rightarrow> Some (Panic NilDereference))
      else
        Some (Ok (s\<lparr>su_synced := update_synced (now - unix_time (blk_Timestamp (be_Block b))) (su_synced s),
          su_batches := su_batches s @ [tasks_of order (event_of b)]\<rparr>)))"

section \<open>Properties\<close>

lemma ancestor_loop_no_panic:
  assumes ret: "ancestor_loop cl finalized b chain w = Some res"
  shows "fst res \<noteq> Panic p"
proof (induction rule: ancestor_loop.raw_induct [OF _ ret])
  case (1 loop cl finalized b chain w res)
  then show ?case by (auto split: prod.splits sum.splits if_splits)
qed

lemma ancestor_loop_not_Panic: "ancestor_loop cl finalized b chain w = Some (Panic p, w') \<Longrightarrow> False"
  by (drule ancestor_loop_no_panic [where p = p]) simp

lemma getSideChain_not_Panic: "getSideChain cl best side finalized w \<noteq> Some (Panic p, w')"
  by (auto simp: getSideChain_def dest: ancestor_loop_not_Panic split: if_splits prod.splits sum.splits)

text \<open>An ordinary event is turned into exactly one task per registered handler, whatever order the map
  is visited in, each with the event's own data, and the database is left to the handlers.\<close>

theorem subscriber_batches:
  assumes "\<not> fk_Occurred (be_Fork b)" and "iteration_of order"
  shows "\<exists>t tasks. on_event cl db order now b s = Some (Ok t) \<and> su_batches t = su_batches s @ [tasks] \<and>
    su_db t = su_db s \<and> mset (map tk_EventType tasks) = mset handler_names \<and> distinct (map tk_EventType tasks) \<and>
    set (map tk_Event tasks) = {event_of b}"
proof -
  have m: "map tk_EventType (tasks_of order e) = order" "set (map tk_Event (tasks_of order e)) \<subseteq> {e}" for e
    by (auto simp: tasks_of_def comp_def)
  have "distinct order" and ne: "order \<noteq> []"
    using assms(2) mset_eq_imp_distinct_iff [of order handler_names]
    by (auto simp: iteration_of_def handler_names_def)
  moreover have "set (map tk_Event (tasks_of order e)) = {e}" for e
    using ne by (cases order) (auto simp: tasks_of_def)
  ultimately show ?thesis
    using assms m by (simp add: on_event_def iteration_of_def del: mset_map set_map)
qed

text \<open>C20: A fork reported by the forward syncer never makes the subscriber panic or block: it resolves the
  fork on the database and submits nothing, and goes on whether or not the side chain was found.\<close>

theorem subscriber_resolves:
  assumes "node_tree cl T"
  shows "\<exists>t w. on_event cl db order now (fork_event best finalized side) s = Some (Ok t) \<and>
    su_batches t = su_batches s \<and> su_synced t = su_synced s \<and>
    (\<exists>r. Resolve cl db now best side finalized (su_world s) (su_db s) = Some (r, w, su_db t) \<and> (\<forall>p. r \<noteq> Panic p))"
proof -
  obtain e d1 where del: "db_Delete db (unix_time (blk_Timestamp finalized) + sec 1) (now + sec 3600) resolve_predicate (su_db s) = (e, d1)"
    by fastforce
  obtain r w where side: "getSideChain cl best side finalized (su_world s) = Some (r, w)"
    using getSideChain_returns [OF assms] by (metis prod.exhaust)
  have np: "r \<noteq> Panic p" for p
    using side getSideChain_not_Panic [of cl best side finalized "su_world s" p w] by auto
  show ?thesis
  proof (cases e)
    case (Some x)
    then show ?thesis using del by (simp add: on_event_def fork_event_def Resolve_def)
  next
    case None
    with side del np show ?thesis by (cases r) (auto simp: on_event_def fork_event_def Resolve_def)
  qed
qed

section \<open>Instances\<close>

definition side_event :: BlockEvent where
  "side_event = block_event 100 0 2 (plain_result side2) None"

definition sample_subscriber :: "(int, sample_store) subscriber" where
  "sample_subscriber = \<lparr>su_synced = False, su_world = 0, su_db = ([], []), su_batches = []\<rparr>"

theorem subscriber_batches_witness:
  "\<exists>t tasks. on_event sample_client sample_db (rev handler_names) 0 side_event sample_subscriber = Some (Ok t) \<and>
     su_batches t = [tasks] \<and> length tasks = 8 \<and> set (map tk_Event tasks) = {event_of side_event}"
proof -
  have "\<not> fk_Occurred (be_Fork side_event)" by (simp add: side_event_def block_event_def no_fork_def)
  moreover have "iteration_of (rev handler_names)" by (simp add: iteration_of_def)
  ultimately obtain t tasks where t: "on_event sample_client sample_db (rev handler_names) 0 side_event sample_subscriber = Some (Ok t)"
    "su_batches t = su_batches sample_subscriber @ [tasks]" "mset (map tk_EventType tasks) = mset handler_names"
    "set (map tk_Event tasks) = {event_of side_event}"
    using subscriber_batches by blast
  from t(3) have "length tasks = 8" using mset_eq_length [of "map tk_EventType tasks"] by (fastforce simp: handler_names_def)
  with t show ?thesis by (intro exI [of _ t] exI [of _ tasks]) (simp add: sample_subscriber_def)
qed

theorem subscriber_resolves_witness:
  "\<exists>t. on_event sample_client sample_db handler_names (sec 100) (fork_event main2 genesis_block side2) sample_subscriber
     = Some (Ok t) \<and> su_batches t = []"
  using subscriber_resolves [OF sample_node_tree, of sample_db handler_names "sec 100" main2 genesis_block side2 sample_subscriber]
  by (auto simp: sample_subscriber_def)

section \<open>Resolving a fork while tasks are in flight\<close>

text \<open>What the handlers may return, as far as the block statistics go.\<close>

definition handler_run :: "Task \<Rightarrow> point list outcome \<Rightarrow> bool" where
  "handler_run t r \<longleftrightarrow> (tk_EventType t = ''blocks'' \<longrightarrow> r = blockstats_Write 10 (tk_Event t))"

definition blocks_first :: "string list" where
  "blocks_first = ''blocks'' # filter (\<lambda>n. n \<noteq> ''blocks'') handler_names"

lemma wpreach_steps2: "wpstep b db run s t \<Longrightarrow> wpstep b db run t u \<Longrightarrow> wpreach b db run s u"
  by (blast intro: wpreach.intros)

text \<open>The subscriber resolves a fork without waiting for the pool: a task of a side-chain block that a
  worker has already taken hands its points over after the deletion, so points past the finalized block
  can arrive for a block that is no longer on the chain.\<close>

theorem resolve_leaves_side_points:
  "\<exists>s1 d2 s3 p. wpreach True sample_db handler_run (NewWorkerPool 10 100 ([], [])) s1 \<and>
     wp_accepted s1 = [hd (tasks_of blocks_first (event_of side_event))] \<and>
     Resolve sample_client sample_db (sec 100) main2 side2 genesis_block (0 :: int) (wp_db s1) = Some (Ok (), 0, d2) \<and>
     wpreach True sample_db handler_run (s1\<lparr>wp_db := d2\<rparr>) s3 \<and>
     p \<in> set (db_handed sample_db (wp_db s3)) \<and> past_finalized (sec 100) genesis_block p \<and>
     field p ''block_id'' = Some (VID (blk_ID side2))"
proof -
  let ?step = "wpstep True sample_db handler_run" and ?reach = "wpreach True sample_db handler_run"
  let ?s0 = "NewWorkerPool 10 100 ([], []) :: (Task, sample_store) pool"
  let ?task = "\<lparr>tk_EventType = ''blocks'', tk_Event = event_of side_event\<rparr>"
  obtain rest where batch: "tasks_of blocks_first (event_of side_event) = ?task # rest"
    by (simp add: tasks_of_def blocks_first_def)
  let ?b1 = "?s0\<lparr>wp_batch := Some (?task # rest)\<rparr>"
  let ?q = "make_chan 100 :: Task chan"
  let ?b2 = "?b1\<lparr>wp_taskQueue := ?q\<lparr>ch_buf := [?task]\<rparr>, wp_batch := Some rest, wp_accepted := [?task]\<rparr>"
  let ?b3 = "set_wworker 0 (WRunning ?task) (?b2\<lparr>wp_taskQueue := ?q\<rparr>)"
  have 1: "?step ?s0 ?b1" by (rule wpstep.submit) (simp_all add: NewWorkerPool_def)
  have 2: "?step ?b1 ?b2"
    using wpwork.enqueue [THEN wpstep.work, of ?b1 ?task rest "?q\<lparr>ch_buf := [?task]\<rparr>"]
    by (simp add: NewWorkerPool_def chan_send_def can_send_def make_chan_def)
  have 3: "?step ?b2 ?b3"
    by (rule wpstep.work, rule wpwork.take) (simp_all add: wworker_at_def NewWorkerPool_def chan_recv_def make_chan_def)
  have reach: "?reach ?s0 ?b3" using wpreach.step [OF wpreach_steps2 [OF 1 2] 3] .
  obtain d2 where d2: "Resolve sample_client sample_db (sec 100) main2 side2 genesis_block (0 :: int) (wp_db ?b3) = Some (Ok (), 0, d2)"
    by (simp add: Resolve_def sample_side_chain sample_db_def Let_def)
  obtain p where p: "blockstats_Write 10 (event_of side_event) = Ok [p]" "pt_Time p = sec 20"
    "pt_Measurement p = ''block_stats''" "field p ''block_id'' = Some (VID (blk_ID side2))"
    by (simp add: blockstats_Write_def fee_fields_def side_event_def block_event_def plain_result_def event_of_def
        sample_blocks Let_def unix_time_def field_def)
  let ?s2 = "?b3\<lparr>wp_db := d2\<rparr>"
  let ?s3 = "set_wworker 0 WIdle (?s2\<lparr>wp_db := processTask sample_db (Ok [p]) d2, wp_processed := [?task]\<rparr>)"
  have "?step ?s2 ?s3"
    using wpwork.handled [THEN wpstep.work, of ?s2 0 ?task handler_run "[p]" True sample_db] p(1)
    by (simp add: wworker_at_def NewWorkerPool_def handler_run_def set_wworker_def)
  then have "?reach ?s2 ?s3" by (blast intro: wpreach.intros)
  moreover have "p \<in> set (db_handed sample_db (wp_db ?s3))" by (simp add: processTask_def)
  moreover have "past_finalized (sec 100) genesis_block p"
    using p by (simp add: past_finalized_def sample_blocks unix_time_def sec_def ForkMeasurement_def PriceMeasurement_def)
  ultimately show ?thesis
    using reach d2 p(4) by (intro exI [of _ ?b3] exI [of _ d2] exI [of _ ?s3] exI [of _ p]) (simp add: batch)
qed

end
