(* ===== verification/TxStats.thy ===== *)
theory TxStats
  imports Samples
begin

text \<open>
  \<^verbatim>\<open>stats/transactions\<close>: the statistics of a block's transactions. Iterating over
  the map of coefficient counts visits it in an arbitrary order, which is the argument \<open>iter\<close>.
\<close>

section \<open>tx\_stats.go\<close>

record txStats =
  ts_legacyCount :: nat
  ts_dynamicFeeCount :: nat
  ts_clauseCount :: nat
  ts_vetTransferCount :: nat
  ts_eventCount :: nat
  ts_vetTransfersAmount :: bigfloat
  ts_totalRewards :: f64

definition txStats_processTx :: "JSONTx \<Rightarrow> txStats \<Rightarrow> txStats" where
  "txStats_processTx t s =
     (let s1 = s\<lparr>ts_clauseCount := ts_clauseCount s + tx_ClauseCount t\<rparr>;
          s2 = (case tx_Reward t of None \<Rightarrow> s1
                | Some r \<Rightarrow> s1\<lparr>ts_totalRewards := f64_add (ts_totalRewards s1) (big_Float64 (big_SetInt r))\<rparr>) in
      case tx_Type t of
        TypeLegacy \<Rightarrow> s2\<lparr>ts_legacyCount := ts_legacyCount s2 + 1\<rparr>
      | TypeDynamicFee \<Rightarrow> s2\<lparr>ts_dynamicFeeCount := ts_dynamicFeeCount s2 + 1\<rparr>
      | TypeOther x \<Rightarrow> s2)"

definition processOutput :: "JSONOutput \<Rightarrow> txStats \<Rightarrow> txStats" where
  "processOutput o' s = s\<lparr>ts_vetTransferCount := ts_vetTransferCount s + length (out_Transfers o'),
     ts_eventCount := ts_eventCount s + length (out_Events o')\<rparr>"

definition processTransf :: "JSONTransfer \<Rightarrow> txStats \<Rightarrow> txStats" where
  "processTransf transf s =
     s\<lparr>ts_vetTransfersAmount := big_Add (ts_vetTransfersAmount s) (big_SetInt (tr_Amount transf))\<rparr>"

section \<open>coef\_stats.go\<close>

record coefStats =
  cs_Average :: f64
  cs_Max :: f64
  cs_Min :: f64
  cs_Mode :: f64
  cs_Median :: f64
  cs_Total :: nat
  cs_coefs :: "f64 list"
  cs_coefCount :: "(f64, nat) gomap"
  cs_sum :: nat

definition coef_processTx :: "JSONTx \<Rightarrow> coefStats \<Rightarrow> coefStats outcome" where
  "coef_processTx t s =
     (if tx_Type t \<noteq> TypeLegacy then Ok s
      else case tx_GasPriceCoef t of
             None \<Rightarrow> Panic NilDereference
           | Some coef \<Rightarrow>
               let c = f64_of_int (uint coef);
                   n = (case map_of (cs_coefCount s) c of None \<Rightarrow> 0 | Some n \<Rightarrow> n) in
               Ok (s\<lparr>cs_coefs := cs_coefs s @ [c], cs_coefCount := AList.update c (n + 1) (cs_coefCount s),
                     cs_sum := cs_sum s + unat coef\<rparr>))"

text \<open>\<open>sort.Slice\<close>: equal numbers are indistinguishable, so any sort gives the same list.\<close>

fun insort_f64 :: "f64 \<Rightarrow> f64 list \<Rightarrow> f64 list" where
  "insort_f64 x [] = [x]"
| "insort_f64 x (y # ys) = (if y < x then y # insort_f64 x ys else x # y # ys)"

fun sort_f64 :: "f64 list \<Rightarrow> f64 list" where
  "sort_f64 [] = []"
| "sort_f64 (x # xs) = insort_f64 x (sort_f64 xs)"

text \<open>The loop over the counts: the first strictly larger count wins.\<close>

definition mode_of :: "(f64 \<times> nat) list \<Rightarrow> f64" where
  "mode_of counts =
     fst (foldl (\<lambda>(mode, maxCount) (coef, count). if maxCount < count then (coef, count) else (mode, maxCount))
       (Fin 0, 0) counts)"

definition finalizeCalc :: "((f64, nat) gomap \<Rightarrow> (f64 \<times> nat) list) \<Rightarrow> coefStats \<Rightarrow> coefStats" where
  "finalizeCalc iter s =
     (if cs_coefs s = [] then s else
      let coefs = sort_f64 (cs_coefs s) in
      s\<lparr>cs_coefs := coefs, cs_Min := coefs ! 0, cs_Max := coefs ! (length coefs - 1),
        cs_Median := coefs ! (length coefs div 2),
        cs_Average := f64_div (f64_of_int (int (cs_sum s))) (f64_of_int (int (length coefs))),
        cs_Mode := mode_of (iter (cs_coefCount s))\<rparr>)"

section \<open>priority\_fee\_stats.go\<close>

record priorityFeeStats =
  pf_candlestickCount :: nat
  pf_openFee :: f64
  pf_highFee :: f64
  pf_lowFee :: f64
  pf_closeFee :: f64

definition gwei :: "int \<Rightarrow> f64" where
  "gwei feeWei = f64_div (f64_of_int feeWei) (Fin (10 ^ 9))"

definition fee_processTx :: "JSONTx \<Rightarrow> priorityFeeStats \<Rightarrow> priorityFeeStats" where
  "fee_processTx t s =
     (case tx_MaxPriorityFeePerGas t of
        None \<Rightarrow> s
      | Some feeWei \<Rightarrow>
          let fee = gwei feeWei;
              s1 = (if pf_candlestickCount s = 0 then s\<lparr>pf_openFee := fee, pf_highFee := fee, pf_lowFee := fee\<rparr>
                    else s\<lparr>pf_highFee := (if pf_highFee s < fee then fee else pf_highFee s),
                           pf_lowFee := (if fee < pf_lowFee s then fee else pf_lowFee s)\<rparr>) in
          s1\<lparr>pf_closeFee := fee, pf_candlestickCount := pf_candlestickCount s1 + 1\<rparr>)"

section \<open>transactions.go\<close>

record txAll =
  ta_tx :: txStats
  ta_coef :: coefStats
  ta_fee :: priorityFeeStats

definition initial_stats :: "nat \<Rightarrow> txAll" where
  "initial_stats txCount =
     \<lparr>ta_tx = \<lparr>ts_legacyCount = 0, ts_dynamicFeeCount = 0, ts_clauseCount = 0, ts_vetTransferCount = 0,
        ts_eventCount = 0, ts_vetTransfersAmount = big_zero, ts_totalRewards = Fin 0\<rparr>,
      ta_coef = \<lparr>cs_Average = Fin 0, cs_Max = Fin 0, cs_Min = Fin 0, cs_Mode = Fin 0, cs_Median = Fin 0,
        cs_Total = txCount, cs_coefs = [], cs_coefCount = [], cs_sum = 0\<rparr>,
      ta_fee = \<lparr>pf_candlestickCount = 0, pf_openFee = Fin 0, pf_highFee = Fin 0, pf_lowFee = Fin 0, pf_closeFee = Fin 0\<rparr>\<rparr>"

definition process_outputs :: "JSONOutput list \<Rightarrow> txStats \<Rightarrow> txStats" where
  "process_outputs outs s = fold (\<lambda>o' s. fold processTransf (out_Transfers o') (processOutput o' s)) outs s"

fun process_txs :: "JSONTx list \<Rightarrow> txAll \<Rightarrow> txAll outcome" where
  "process_txs [] a = Ok a"
| "process_txs (t # ts) a =
     (let tx1 = txStats_processTx t (ta_tx a) in
      bind_outcome (coef_processTx t (ta_coef a)) (\<lambda>coef.
        process_txs ts \<lparr>ta_tx = process_outputs (tx_Outputs t) tx1, ta_coef = coef,
          ta_fee = fee_processTx t (ta_fee a)\<rparr>))"

definition stat_fields :: "nat \<Rightarrow> txStats \<Rightarrow> coefStats \<Rightarrow> priorityFeeStats \<Rightarrow> (fkey, val) gomap" where
  "stat_fields txCount t c f =
     [(KStr ''total_txs'', VInt (int txCount)), (KStr ''total_clauses'', VInt (int (ts_clauseCount t))),
      (KStr ''vet_transfers'', VInt (int (ts_vetTransferCount t))),
      (KStr ''vet_transfers_amount'', VRat (bg_val (ts_vetTransfersAmount t))),
      (KStr ''validator_rewards'', VF64 (f64_div (ts_totalRewards t) (Fin (10 ^ 18)))),
      (KStr ''coef_average'', VF64 (cs_Average c)), (KStr ''coef_max'', VF64 (cs_Max c)),
      (KStr ''coef_min'', VF64 (cs_Min c)), (KStr ''coef_mode'', VF64 (cs_Mode c)),
      (KStr ''coef_median'', VF64 (cs_Median c))] @
     (if 0 < pf_candlestickCount f then
        [(KStr ''priority_fee_open'', VF64 (pf_openFee f)), (KStr ''priority_fee_close'', VF64 (pf_closeFee f)),
         (KStr ''priority_fee_high'', VF64 (pf_highFee f)), (KStr ''priority_fee_low'', VF64 (pf_lowFee f)),
         (KStr ''candlestick_tx_count'', VInt (int (pf_candlestickCount f)))]
      else []) @
     [(KStr ''legacy_txs'', VInt (int (ts_legacyCount t))), (KStr ''dyn_fee_txs'', VInt (int (ts_dynamicFeeCount t)))]"

definition transactions_Write :: "((f64, nat) gomap \<Rightarrow> (f64 \<times> nat) list) \<Rightarrow> Event \<Rightarrow> point list outcome" where
  "transactions_Write iter ev =
     (let txs = blk_Transactions (e_Block ev) in
      bind_outcome (process_txs txs (initial_stats (length txs))) (\<lambda>a.
        Ok [\<lparr>pt_Measurement = ''transactions'', pt_Tags = e_DefaultTags ev,
             pt_Fields = stat_fields (length txs) (ta_tx a) (finalizeCalc iter (ta_coef a)) (ta_fee a),
             pt_Time = e_Timestamp ev\<rparr>]))"

section \<open>Counting\<close>

text \<open>What the three accumulators are after the transactions \<open>ts\<close>.\<close>

definition all_outputs :: "JSONTx list \<Rightarrow> JSONOutput list" where
  "all_outputs ts = concat (map tx_Outputs ts)"

definition legacy_coefs :: "JSONTx list \<Rightarrow> u8 list" where
  "legacy_coefs ts = map (\<lambda>t. the (tx_GasPriceCoef t)) (filter (\<lambda>t. tx_Type t = TypeLegacy) ts)"

definition coefs_present :: "JSONTx list \<Rightarrow> bool" where
  "coefs_present ts \<longleftrightarrow> list_all (\<lambda>t. tx_Type t = TypeLegacy \<longrightarrow> tx_GasPriceCoef t \<noteq> None) ts"

lemma transf_counts:
  "ts_legacyCount (fold processTransf xs s) = ts_legacyCount s"
  "ts_dynamicFeeCount (fold processTransf xs s) = ts_dynamicFeeCount s"
  "ts_clauseCount (fold processTransf xs s) = ts_clauseCount s"
  "ts_vetTransferCount (fold processTransf xs s) = ts_vetTransferCount s"
  by (induction xs arbitrary: s) (simp_all add: processTransf_def)

lemma outputs_counts:
  "ts_legacyCount (process_outputs outs s) = ts_legacyCount s"
  "ts_dynamicFeeCount (process_outputs outs s) = ts_dynamicFeeCount s"
  "ts_clauseCount (process_outputs outs s) = ts_clauseCount s"
  "ts_vetTransferCount (process_outputs outs s) = ts_vetTransferCount s + sum_list (map (\<lambda>o'. length (out_Transfers o')) outs)"
  by (induction outs arbitrary: s) (simp_all add: process_outputs_def transf_counts processOutput_def)

lemma processTx_counts:
  "ts_legacyCount (txStats_processTx t s) = ts_legacyCount s + (if tx_Type t = TypeLegacy then 1 else 0)"
  "ts_dynamicFeeCount (txStats_processTx t s) = ts_dynamicFeeCount s + (if tx_Type t = TypeDynamicFee then 1 else 0)"
  "ts_clauseCount (txStats_processTx t s) = ts_clauseCount s + tx_ClauseCount t"
  "ts_vetTransferCount (txStats_processTx t s) = ts_vetTransferCount s"
  by (simp_all add: txStats_processTx_def Let_def split: option.split tx_type.split)

lemma process_txs_counts:
  "process_txs ts a = Ok a' \<Longrightarrow>
     ts_legacyCount (ta_tx a') = ts_legacyCount (ta_tx a) + length (filter (\<lambda>t. tx_Type t = TypeLegacy) ts) \<and>
     ts_dynamicFeeCount (ta_tx a') = ts_dynamicFeeCount (ta_tx a) + length (filter (\<lambda>t. tx_Type t = TypeDynamicFee) ts) \<and>
     ts_clauseCount (ta_tx a') = ts_clauseCount (ta_tx a) + sum_list (map tx_ClauseCount ts) \<and>
     ts_vetTransferCount (ta_tx a') = ts_vetTransferCount (ta_tx a) + sum_list (map (\<lambda>o'. length (out_Transfers o')) (all_outputs ts))"
proof (induction ts arbitrary: a)
  case Nil
  then show ?case by (simp add: all_outputs_def)
next
  case (Cons t ts)
  from Cons.prems obtain coef where
    "process_txs ts \<lparr>ta_tx = process_outputs (tx_Outputs t) (txStats_processTx t (ta_tx a)), ta_coef = coef,
       ta_fee = fee_processTx t (ta_fee a)\<rparr> = Ok a'"
    by (auto simp: outcome_simps Let_def)
  from Cons.IH [OF this] show ?case
    by (simp add: outputs_counts processTx_counts all_outputs_def)
qed

lemma process_txs_Ok_iff: "(\<exists>a'. process_txs ts a = Ok a') \<longleftrightarrow> coefs_present ts"
proof (induction ts arbitrary: a)
  case (Cons t ts)
  then show ?case
    by (auto simp: coefs_present_def coef_processTx_def outcome_simps Let_def split: option.splits)
qed (simp add: coefs_present_def)

lemma process_txs_not_Err: "process_txs ts a \<noteq> Err e"
proof (induction ts arbitrary: a)
  case (Cons t ts)
  have "coef_processTx t (ta_coef a) \<noteq> Err e" by (auto simp: coef_processTx_def Let_def split: option.splits)
  then show ?case using Cons by (cases "coef_processTx t (ta_coef a)") (auto simp: Let_def)
qed simp

section \<open>Coefficients\<close>

lemma mset_sort_f64: "mset (sort_f64 xs) = mset xs"
proof -
  have "mset (insort_f64 x xs) = add_mset x (mset xs)" for x xs by (induction xs) auto
  then show ?thesis by (induction xs) auto
qed

definition finite_f64 :: "f64 \<Rightarrow> bool" where
  "finite_f64 x \<longleftrightarrow> (\<exists>q. x = Fin q)"

lemma sorted_sort_f64: "list_all finite_f64 xs \<Longrightarrow> sorted_wrt (\<le>) (sort_f64 xs)"
proof -
  have le: "x \<le> y \<longleftrightarrow> \<not> y < x" if "finite_f64 x" "finite_f64 y" for x y
    using that by (auto simp: finite_f64_def less_eq_f64_def)
  have tr: "x \<le> z" if "finite_f64 x" "finite_f64 y" "finite_f64 z" "x \<le> y" "y \<le> z" for x y z
    using that by (auto simp: finite_f64_def less_eq_f64_def)
  have ins: "sorted_wrt (\<le>) ys \<Longrightarrow> finite_f64 x \<Longrightarrow> list_all finite_f64 ys \<Longrightarrow> sorted_wrt (\<le>) (insort_f64 x ys)" for x ys
  proof (induction ys)
    case (Cons y ys)
    have set: "set (insort_f64 x ys) = insert x (set ys)" by (induction ys) auto
    from Cons show ?case
      using le [of x y] le [of y x] tr [of x y] by (auto simp: set list_all_iff less_eq_f64_def)
  qed simp
  have "set (sort_f64 xs) = set xs" for xs using mset_sort_f64 by (metis set_mset_mset)
  then show "list_all finite_f64 xs \<Longrightarrow> ?thesis" by (induction xs) (auto intro!: ins simp: list_all_iff)
qed

text \<open>What the coefficient statistics hold after the coefficients \<open>cs\<close>.\<close>

definition coefs_seen :: "u8 list \<Rightarrow> f64 list" where
  "coefs_seen cs = map (\<lambda>c. f64_of_int (uint c)) cs"

definition coef_inv :: "f64 list \<Rightarrow> coefStats \<Rightarrow> bool" where
  "coef_inv xs s \<longleftrightarrow> cs_coefs s = xs \<and> distinct (map fst (cs_coefCount s)) \<and>
     (\<forall>c. map_of (cs_coefCount s) c = (if c \<in> set xs then Some (count (mset xs) c) else None))"

lemma coef_inv_step:
  assumes "coef_inv xs s" and "coef_processTx t s = Ok s'"
  shows "coef_inv (xs @ coefs_seen (legacy_coefs [t])) s'"
proof (cases "tx_Type t = TypeLegacy")
  case False
  with assms show ?thesis by (simp add: coef_processTx_def legacy_coefs_def coefs_seen_def)
next
  case True
  with assms(2) obtain coef where coef: "tx_GasPriceCoef t = Some coef"
    by (auto simp: coef_processTx_def split: option.splits)
  with True assms show ?thesis
    by (auto simp: coef_processTx_def legacy_coefs_def coefs_seen_def coef_inv_def update_conv' distinct_update
        count_eq_zero_iff Let_def)
qed

lemma process_txs_coef:
  "process_txs ts a = Ok a' \<Longrightarrow> coef_inv xs (ta_coef a) \<Longrightarrow> coef_inv (xs @ coefs_seen (legacy_coefs ts)) (ta_coef a')"
proof (induction ts arbitrary: a xs)
  case Nil
  then show ?case by (simp add: legacy_coefs_def coefs_seen_def)
next
  case (Cons t ts)
  from Cons.prems(1) obtain coef where coef: "coef_processTx t (ta_coef a) = Ok coef" and
    rest: "process_txs ts \<lparr>ta_tx = process_outputs (tx_Outputs t) (txStats_processTx t (ta_tx a)), ta_coef = coef,
       ta_fee = fee_processTx t (ta_fee a)\<rparr> = Ok a'"
    by (auto simp: outcome_simps Let_def)
  have "coefs_seen (legacy_coefs (t # ts)) = coefs_seen (legacy_coefs [t]) @ coefs_seen (legacy_coefs ts)"
    by (simp add: legacy_coefs_def coefs_seen_def)
  with Cons.IH [OF rest, of "xs @ coefs_seen (legacy_coefs [t])"] coef_inv_step [OF Cons.prems(2) coef]
  show ?case by simp
qed

text \<open>Coefficients are below 256, so as floating-point numbers they are exact, distinct and in the same order.\<close>

definition coef_f64 :: "u8 \<Rightarrow> f64" where
  "coef_f64 c = Fin (of_int (uint c))"

lemma coefs_seen_eq: "coefs_seen cs = map coef_f64 cs"
proof -
  have "f64_of_int (uint (c :: u8)) = coef_f64 c" for c
    using unsigned_less [of c, where ?'a = int] unfolding coef_f64_def by (intro f64_of_int_exact) auto
  then show ?thesis by (simp add: coefs_seen_def)
qed

lemma coef_f64_less: "coef_f64 c < coef_f64 d \<longleftrightarrow> c < d"
  unfolding coef_f64_def less_f64.simps of_int_less_iff word_less_def ..

lemma coef_f64_eq: "coef_f64 c = coef_f64 d \<longleftrightarrow> c = d"
  unfolding coef_f64_def f64.inject of_int_eq_iff word_uint_eq_iff ..

lemma sort_coefs: "sort_f64 (map coef_f64 cs) = map coef_f64 (sort cs)"
proof -
  have "insort_f64 (coef_f64 c) (map coef_f64 ds) = map coef_f64 (insort c ds)" if "sorted ds" for c ds
    using that by (induction ds) (auto simp: coef_f64_less not_le not_less sorted_insort dest: order_antisym)
  then show ?thesis by (induction cs) (simp_all add: sort_key_simps)
qed

lemma count_coefs: "count (mset (map coef_f64 cs)) (coef_f64 c) = count (mset cs) c"
  by (induction cs) (simp_all add: coef_f64_eq)

lemma sorted_ends:
  assumes "sorted ys" and "ys \<noteq> []"
  shows "Min (set ys) = ys ! 0" and "Max (set ys) = ys ! (length ys - 1)"
proof -
  have "ys ! 0 \<le> y \<and> y \<le> ys ! (length ys - 1)" if "y \<in> set ys" for y
    using that assms(1) by (auto simp: in_set_conv_nth intro!: sorted_nth_mono)
  then show "Min (set ys) = ys ! 0" "Max (set ys) = ys ! (length ys - 1)"
    using assms(2) by (auto intro!: Min_eqI Max_eqI)
qed

lemma process_txs_sum:
  "process_txs ts a = Ok a' \<Longrightarrow> cs_sum (ta_coef a') = cs_sum (ta_coef a) + sum_list (map unat (legacy_coefs ts))"
proof (induction ts arbitrary: a)
  case (Cons t ts)
  from Cons.prems obtain coef where coef: "coef_processTx t (ta_coef a) = Ok coef" and
    rest: "process_txs ts \<lparr>ta_tx = process_outputs (tx_Outputs t) (txStats_processTx t (ta_tx a)), ta_coef = coef,
      ta_fee = fee_processTx t (ta_fee a)\<rparr> = Ok a'"
    by (auto simp: outcome_simps Let_def)
  have "cs_sum coef = cs_sum (ta_coef a) + sum_list (map unat (legacy_coefs [t]))"
    using coef by (auto simp: coef_processTx_def legacy_coefs_def Let_def split: if_splits option.splits)
  moreover have "legacy_coefs (t # ts) = legacy_coefs [t] @ legacy_coefs ts" by (simp add: legacy_coefs_def)
  ultimately show ?case using Cons.IH [OF rest] by simp
qed (simp add: legacy_coefs_def)

lemma mode_of_max:
  assumes "counts \<noteq> []" and "\<And>c n. (c, n) \<in> set counts \<Longrightarrow> 0 < n"
  shows "\<exists>m. (mode_of counts, m) \<in> set counts \<and> (\<forall>c n. (c, n) \<in> set counts \<longrightarrow> n \<le> m)"
proof -
  let ?f = "\<lambda>(mode, maxCount) (coef, count). if maxCount < count then (coef, count) else (mode, maxCount :: nat)"
  have inv: "(foldl ?f acc xs \<in> set xs \<or> foldl ?f acc xs = acc) \<and> snd acc \<le> snd (foldl ?f acc xs) \<and>
      (\<forall>c n. (c, n) \<in> set xs \<longrightarrow> n \<le> snd (foldl ?f acc xs))" for acc :: "f64 \<times> nat" and xs
  proof (induction xs arbitrary: acc)
    case (Cons x xs)
    obtain m k c n where acc: "acc = (m, k)" and x: "x = (c, n)" by fastforce
    from Cons.IH [of "?f acc x"] show ?case by (auto simp: acc x split: if_splits)
  qed simp
  let ?r = "foldl ?f (Fin 0, 0) counts"
  obtain c n where "(c, n) \<in> set counts" using assms(1) by (cases counts) auto
  then have "0 < snd ?r" using inv [of "(Fin 0, 0)" counts] assms(2) by fastforce
  then have "?r \<in> set counts" using inv [of "(Fin 0, 0)" counts] by fastforce
  then show ?thesis
    using inv [of "(Fin 0, 0)" counts] unfolding mode_of_def by (intro exI [of _ "snd ?r"]) auto
qed

lemma mode_summary:
  assumes inv: "coef_inv xs s" and "xs \<noteq> []" and iter: "\<And>m. mset (iter m) = mset m"
  shows "mode_of (iter (cs_coefCount s)) \<in> set xs"
    and "x \<in> set xs \<Longrightarrow> count (mset xs) x \<le> count (mset xs) (mode_of (iter (cs_coefCount s)))"
proof -
  let ?counts = "iter (cs_coefCount s)"
  have "set ?counts = set (cs_coefCount s)" using iter by (rule mset_eq_setD)
  moreover have "(c, n) \<in> set (cs_coefCount s) \<longleftrightarrow> map_of (cs_coefCount s) c = Some n" for c n
    using inv map_of_eq_Some_iff [of "cs_coefCount s" c n] unfolding coef_inv_def by blast
  ultimately have counts: "(c, n) \<in> set ?counts \<longleftrightarrow> c \<in> set xs \<and> n = count (mset xs) c" for c n
    using inv by (auto simp: coef_inv_def)
  have "?counts \<noteq> []"
  proof
    assume "?counts = []"
    then have "hd xs \<notin> set xs" using counts [of "hd xs" "count (mset xs) (hd xs)"] by simp
    then show False using assms(2) by simp
  qed
  moreover have "0 < n" if "(c, n) \<in> set ?counts" for c n using that counts by (simp add: count_greater_zero_iff)
  ultimately obtain m where "(mode_of ?counts, m) \<in> set ?counts" "\<forall>c n. (c, n) \<in> set ?counts \<longrightarrow> n \<le> m"
    using mode_of_max [of ?counts] by blast
  then show "mode_of ?counts \<in> set xs"
    and "x \<in> set xs \<Longrightarrow> count (mset xs) x \<le> count (mset xs) (mode_of ?counts)"
    using counts by auto
qed

section \<open>Fees\<close>

text \<open>A fee in gwei is never NaN; such numbers are totally ordered.\<close>

lemma gwei_not_NaN: "gwei x \<noteq> NaN"
proof -
  have "f64_of_int x \<noteq> NaN" by (simp add: f64_of_int_def f64_round_not_NaN)
  then show ?thesis by (cases "f64_of_int x") (auto simp: gwei_def f64_round_not_NaN f64_inf_def)
qed

definition candle_ok :: "priorityFeeStats \<Rightarrow> bool" where
  "candle_ok s \<longleftrightarrow> pf_candlestickCount s = 0 \<or>
     pf_lowFee s \<noteq> NaN \<and> pf_highFee s \<noteq> NaN \<and>
     pf_lowFee s \<le> pf_openFee s \<and> pf_openFee s \<le> pf_highFee s \<and>
     pf_lowFee s \<le> pf_closeFee s \<and> pf_closeFee s \<le> pf_highFee s"

lemma candle_step: "candle_ok s \<Longrightarrow> candle_ok (fee_processTx t s)"
proof (cases "tx_MaxPriorityFeePerGas t")
  case (Some x)
  assume ok: "candle_ok s"
  note n = gwei_not_NaN [of x]
  show ?thesis
  proof (cases "pf_candlestickCount s = 0")
    case True
    then show ?thesis using Some n by (simp add: candle_ok_def fee_processTx_def Let_def f64_le_refl)
  next
    case False
    with ok have lo: "pf_lowFee s \<noteq> NaN" "pf_lowFee s \<le> pf_openFee s" and hi: "pf_highFee s \<noteq> NaN" "pf_openFee s \<le> pf_highFee s"
      by (auto simp: candle_ok_def)
    have lo': "(if gwei x < pf_lowFee s then gwei x else pf_lowFee s) \<le> pf_lowFee s"
      "(if gwei x < pf_lowFee s then gwei x else pf_lowFee s) \<le> gwei x"
      using f64_le_total [of "gwei x" "pf_lowFee s"] n lo(1) by (auto simp: f64_le_refl f64_less_imp_le)
    have hi': "pf_highFee s \<le> (if pf_highFee s < gwei x then gwei x else pf_highFee s)"
      "gwei x \<le> (if pf_highFee s < gwei x then gwei x else pf_highFee s)"
      using f64_le_total [of "pf_highFee s" "gwei x"] n hi(1) by (auto simp: f64_le_refl f64_less_imp_le)
    show ?thesis
      using False Some n lo(1) hi(1) lo' hi' f64_le_trans [OF lo'(1) lo(2)] f64_le_trans [OF hi(2) hi'(1)]
      by (auto simp: candle_ok_def fee_processTx_def Let_def)
  qed
qed (simp add: fee_processTx_def)

lemma process_txs_candle: "process_txs ts a = Ok a' \<Longrightarrow> candle_ok (ta_fee a) \<Longrightarrow> candle_ok (ta_fee a')"
proof (induction ts arbitrary: a)
  case (Cons t ts)
  from Cons.prems(1) obtain coef where
    "process_txs ts \<lparr>ta_tx = process_outputs (tx_Outputs t) (txStats_processTx t (ta_tx a)), ta_coef = coef,
       ta_fee = fee_processTx t (ta_fee a)\<rparr> = Ok a'"
    by (auto simp: outcome_simps Let_def)
  from Cons.IH [OF this] candle_step [OF Cons.prems(2)] show ?case by simp
qed simp

section \<open>Properties\<close>

lemma transactions_Write_Ok:
  assumes "transactions_Write iter ev = Ok ps"
  obtains a where "process_txs (blk_Transactions (e_Block ev)) (initial_stats (length (blk_Transactions (e_Block ev)))) = Ok a"
    and "ps = [\<lparr>pt_Measurement = ''transactions'', pt_Tags = e_DefaultTags ev,
             pt_Fields = stat_fields (length (blk_Transactions (e_Block ev))) (ta_tx a) (finalizeCalc iter (ta_coef a)) (ta_fee a),
             pt_Time = e_Timestamp ev\<rparr>]"
  using assms by (auto simp: transactions_Write_def Let_def outcome_simps)

text \<open>The transaction statistics fail exactly when a legacy transaction has no gas price coefficient, and
  then with a nil dereference; otherwise they are one point.\<close>

theorem transactions_return:
  "if coefs_present (blk_Transactions (e_Block ev))
   then \<exists>p. transactions_Write iter ev = Ok [p] else (\<exists>x. transactions_Write iter ev = Panic x)"
proof -
  let ?r = "process_txs (blk_Transactions (e_Block ev)) (initial_stats (length (blk_Transactions (e_Block ev))))"
  have "coefs_present (blk_Transactions (e_Block ev)) = (\<exists>a. ?r = Ok a)" by (simp add: process_txs_Ok_iff)
  then show ?thesis
    using process_txs_not_Err [of "blk_Transactions (e_Block ev)"] by (cases ?r) (auto simp: transactions_Write_def Let_def)
qed

text \<open>C38: The counts of the point are those of the block: its transactions, its legacy and dynamic-fee ones,
  the clauses of all of them and the transfers in all their outputs.\<close>

theorem transactions_counts:
  assumes "transactions_Write iter ev = Ok ps"
  defines "txs \<equiv> blk_Transactions (e_Block ev)"
  shows "\<exists>p. ps = [p] \<and> field p ''total_txs'' = Some (VInt (int (length txs))) \<and>
    field p ''legacy_txs'' = Some (VInt (int (length (filter (\<lambda>t. tx_Type t = TypeLegacy) txs)))) \<and>
    field p ''dyn_fee_txs'' = Some (VInt (int (length (filter (\<lambda>t. tx_Type t = TypeDynamicFee) txs)))) \<and>
    field p ''total_clauses'' = Some (VInt (int (sum_list (map tx_ClauseCount txs)))) \<and>
    field p ''vet_transfers'' = Some (VInt (int (sum_list (map (\<lambda>o'. length (out_Transfers o')) (all_outputs txs)))))"
  using assms(1)
proof (rule transactions_Write_Ok)
  fix a
  assume "process_txs (blk_Transactions (e_Block ev)) (initial_stats (length (blk_Transactions (e_Block ev)))) = Ok a"
    and "ps = [\<lparr>pt_Measurement = ''transactions'', pt_Tags = e_DefaultTags ev,
             pt_Fields = stat_fields (length (blk_Transactions (e_Block ev))) (ta_tx a) (finalizeCalc iter (ta_coef a)) (ta_fee a),
             pt_Time = e_Timestamp ev\<rparr>]"
  with process_txs_counts [OF this(1)] show ?thesis
    by (auto simp: field_def stat_fields_def initial_stats_def txs_def)
qed

text \<open>C39: With at least one legacy transaction the reported coefficients are these: the least, the greatest, and as median
  the one in the middle of the coefficients in ascending order (the upper one of the two middle ones when their
  number is even), all exact as floating-point numbers; the average is their sum divided by their number; and no
  coefficient occurs more often than the mode, whatever order the counts are visited in.\<close>

theorem coefficient_summary:
  assumes "transactions_Write iter ev = Ok ps" and "\<And>m. mset (iter m) = mset m"
    and "legacy_coefs (blk_Transactions (e_Block ev)) \<noteq> []"
  defines "cs \<equiv> legacy_coefs (blk_Transactions (e_Block ev))"
  shows "\<exists>p mode. ps = [p] \<and>
    field p ''coef_min'' = Some (VF64 (coef_f64 (Min (set cs)))) \<and>
    field p ''coef_max'' = Some (VF64 (coef_f64 (Max (set cs)))) \<and>
    field p ''coef_median'' = Some (VF64 (coef_f64 (sort cs ! (length cs div 2)))) \<and>
    field p ''coef_average'' = Some (VF64 (f64_div (f64_of_int (int (sum_list (map unat cs)))) (f64_of_int (int (length cs))))) \<and>
    field p ''coef_mode'' = Some (VF64 (coef_f64 mode)) \<and> mode \<in> set cs \<and>
    (\<forall>c \<in> set cs. count (mset cs) c \<le> count (mset cs) mode)"
  using assms(1)
proof (rule transactions_Write_Ok)
  fix a
  assume a: "process_txs (blk_Transactions (e_Block ev)) (initial_stats (length (blk_Transactions (e_Block ev)))) = Ok a"
    and ps: "ps = [\<lparr>pt_Measurement = ''transactions'', pt_Tags = e_DefaultTags ev,
             pt_Fields = stat_fields (length (blk_Transactions (e_Block ev))) (ta_tx a) (finalizeCalc iter (ta_coef a)) (ta_fee a),
             pt_Time = e_Timestamp ev\<rparr>]"
  have ne: "cs \<noteq> []" "map coef_f64 cs \<noteq> []" using assms(3) by (simp_all add: cs_def)
  have inv: "coef_inv (map coef_f64 cs) (ta_coef a)"
    using process_txs_coef [OF a, of "[]"] by (simp add: cs_def coefs_seen_eq coef_inv_def initial_stats_def)
  have sum: "cs_sum (ta_coef a) = sum_list (map unat cs)"
    using process_txs_sum [OF a] by (simp add: cs_def initial_stats_def)
  let ?mode = "mode_of (iter (cs_coefCount (ta_coef a)))"
  obtain mode where mode: "mode \<in> set cs" "?mode = coef_f64 mode" using mode_summary(1) [OF inv ne(2) assms(2)] by auto
  have most: "count (mset cs) c \<le> count (mset cs) mode" if "c \<in> set cs" for c
    using mode_summary(2) [OF inv ne(2) assms(2), of "coef_f64 c"] that unfolding mode(2) count_coefs by simp
  have ends: "sort cs ! 0 = Min (set cs)" "sort cs ! (length cs - Suc 0) = Max (set cs)"
  proof -
    have "sort cs \<noteq> []" using ne(1) by (metis length_0_conv length_sort)
    then show "sort cs ! 0 = Min (set cs)" "sort cs ! (length cs - Suc 0) = Max (set cs)"
      using sorted_ends [of "sort cs"] by simp_all
  qed
  have fin: "finalizeCalc iter (ta_coef a) = (ta_coef a)\<lparr>cs_coefs := map coef_f64 (sort cs), cs_Min := coef_f64 (Min (set cs)),
      cs_Max := coef_f64 (Max (set cs)), cs_Median := coef_f64 (sort cs ! (length cs div 2)),
      cs_Average := f64_div (f64_of_int (int (sum_list (map unat cs)))) (f64_of_int (int (length cs))), cs_Mode := coef_f64 mode\<rparr>"
    using ne(1) inv by (simp add: finalizeCalc_def Let_def coef_inv_def sort_coefs sum mode(2) ends)
  obtain q where q: "ps = [q]"
    "pt_Fields q = stat_fields (length (blk_Transactions (e_Block ev))) (ta_tx a) (finalizeCalc iter (ta_coef a)) (ta_fee a)"
    using ps by simp
  show ?thesis
    using mode(1) most by (intro exI [of _ q] exI [of _ mode]) (simp add: q fin field_def stat_fields_def)
qed

text \<open>When the block has priority fees, the reported candle is one: the opening and closing fee lie
  between the lowest and the highest.\<close>

theorem fee_candle:
  assumes "transactions_Write iter ev = Ok [p]" and "field p ''priority_fee_open'' = Some (VF64 opening)"
  shows "\<exists>closing high low. field p ''priority_fee_close'' = Some (VF64 closing) \<and>
    field p ''priority_fee_high'' = Some (VF64 high) \<and> field p ''priority_fee_low'' = Some (VF64 low) \<and>
    low \<le> opening \<and> opening \<le> high \<and> low \<le> closing \<and> closing \<le> high"
  using assms(1)
proof (rule transactions_Write_Ok)
  fix a
  assume a: "process_txs (blk_Transactions (e_Block ev)) (initial_stats (length (blk_Transactions (e_Block ev)))) = Ok a"
    and ps: "[p] = [\<lparr>pt_Measurement = ''transactions'', pt_Tags = e_DefaultTags ev,
             pt_Fields = stat_fields (length (blk_Transactions (e_Block ev))) (ta_tx a) (finalizeCalc iter (ta_coef a)) (ta_fee a),
             pt_Time = e_Timestamp ev\<rparr>]"
  have "candle_ok (ta_fee a)" using process_txs_candle [OF a] by (simp add: candle_ok_def initial_stats_def)
  then show ?thesis
    using ps assms(2) by (auto simp: field_def stat_fields_def candle_ok_def split: if_splits)
qed

section \<open>Instances\<close>

text \<open>A block with three legacy transactions and one with a priority fee.\<close>

definition legacy_tx :: "u8 \<Rightarrow> JSONTx" where
  "legacy_tx coef = \<lparr>tx_Type = TypeLegacy, tx_GasPriceCoef = Some coef, tx_MaxPriorityFeePerGas = None,
     tx_Reward = None, tx_ClauseCount = 2, tx_Outputs = [\<lparr>out_Events = [], out_Transfers = []\<rparr>]\<rparr>"

definition mixed_input :: Event where
  "mixed_input = sample_input (main2\<lparr>blk_Transactions := [legacy_tx 5, legacy_tx 0, legacy_tx 5,
     (legacy_tx 0)\<lparr>tx_Type := TypeDynamicFee, tx_MaxPriorityFeePerGas := Some 3\<rparr>]\<rparr>) None"

lemma mixed_txs: "blk_Transactions (e_Block mixed_input) = [legacy_tx 5, legacy_tx 0, legacy_tx 5,
     (legacy_tx 0)\<lparr>tx_Type := TypeDynamicFee, tx_MaxPriorityFeePerGas := Some 3\<rparr>]"
  by (simp add: mixed_input_def sample_input_def)

lemma mixed_Write: "\<exists>p. transactions_Write (\<lambda>m. m) mixed_input = Ok [p] \<and>
    (\<exists>x. field p ''priority_fee_open'' = Some (VF64 x))"
  by (simp add: transactions_Write_def mixed_txs coef_processTx_def legacy_tx_def Let_def field_def stat_fields_def
      fee_processTx_def initial_stats_def)

theorem transactions_counts_witness:
  "\<exists>p. transactions_Write (\<lambda>m. m) mixed_input = Ok [p] \<and> field p ''legacy_txs'' = Some (VInt 3) \<and>
     field p ''total_clauses'' = Some (VInt 8)"
proof -
  obtain p where p: "transactions_Write (\<lambda>m. m) mixed_input = Ok [p]" using mixed_Write by blast
  with transactions_counts [OF p] show ?thesis by (simp add: mixed_txs legacy_tx_def)
qed

theorem coefficient_summary_witness:
  "\<exists>p. transactions_Write (\<lambda>m. m) mixed_input = Ok [p] \<and> field p ''coef_mode'' = Some (VF64 (Fin 5)) \<and>
     field p ''coef_median'' = Some (VF64 (Fin 5)) \<and> field p ''coef_min'' = Some (VF64 (Fin 0))"
proof -
  obtain p where p: "transactions_Write (\<lambda>m. m) mixed_input = Ok [p]" using mixed_Write by blast
  have cs: "legacy_coefs (blk_Transactions (e_Block mixed_input)) = [5, 0, 5]"
    by (simp add: mixed_txs legacy_coefs_def legacy_tx_def)
  let ?cs = "[5, 0, 5] :: u8 list"
  obtain q :: point and mode where m: "[p] = [q]" "field q ''coef_mode'' = Some (VF64 (coef_f64 mode))" "mode \<in> set ?cs"
    "\<forall>c \<in> set ?cs. count (mset ?cs) c \<le> count (mset ?cs) mode"
    "field q ''coef_median'' = Some (VF64 (coef_f64 (sort ?cs ! (length ?cs div 2))))"
    "field q ''coef_min'' = Some (VF64 (coef_f64 (Min (set ?cs))))"
    using coefficient_summary [OF p, unfolded cs, OF refl list.distinct(2)] by blast
  from m(3,4) have "mode = 5" by auto
  moreover have "sort ?cs ! (length ?cs div 2) = 5" "Min (set ?cs) = 0" by simp_all
  ultimately show ?thesis using p m(1,2,5,6) by (intro exI [of _ p]) (simp add: coef_f64_def)
qed

theorem fee_candle_witness:
  "\<exists>p high low. transactions_Write (\<lambda>m. m) mixed_input = Ok [p] \<and>
     field p ''priority_fee_high'' = Some (VF64 high) \<and> field p ''priority_fee_low'' = Some (VF64 low) \<and>
     (\<exists>x. low \<le> x \<and> x \<le> high)"
proof -
  obtain p x where p: "transactions_Write (\<lambda>m. m) mixed_input = Ok [p]"
    and x: "field p ''priority_fee_open'' = Some (VF64 x)" using mixed_Write by blast
  from fee_candle [OF p x] p show ?thesis by blast
qed

end
