(* ===== verification/SlotCalculator.thy ===== *)
theory SlotCalculator
  imports Samples
begin

text \<open>
  \<^verbatim>\<open>stats/slots/calculator.go\<close>: predicting the next block proposers by shuffling the
  authority nodes (proof of authority) or the validators (proof of stake) with the chain's
  algorithms. The hash, the pseudo-random generator and the logarithm are libraries.
\<close>

record slot_env =
  sv_Blake2b :: "bytes \<Rightarrow> bytes32"
  sv_Float64 :: "bytes32 \<Rightarrow> nat \<Rightarrow> f64"
  sv_Log :: "f64 \<Rightarrow> f64"

section \<open>Shuffling by a key\<close>

text \<open>
  Both authority shuffles sort by a hash with \<open>sort.Slice\<close>, which is not stable: what a client
  may rely on is that the result is a sorted permutation.
\<close>

locale keyed_shuffle =
  fixes key :: "'a \<Rightarrow> 'k::linorder"
    and shuffle :: "'a list \<Rightarrow> 'a list"
  assumes shuffle_perm: "mset (shuffle xs) = mset xs"
    and shuffle_sorted: "sorted (map key (shuffle xs))"
begin

lemma shuffle_set: "set (shuffle xs) = set xs"
  using shuffle_perm by (rule mset_eq_setD)

lemma shuffle_length: "length (shuffle xs) = length xs"
  using shuffle_perm by (rule mset_eq_length)

lemma shuffle_prefix:
  assumes "x \<in> set (take n (shuffle xs))" and "y \<in> set (drop n (shuffle xs))"
  shows "key x \<le> key y"
proof -
  have "sorted (map key (take n (shuffle xs)) @ map key (drop n (shuffle xs)))"
    using shuffle_sorted [of xs] by (simp flip: map_append)
  with assms show ?thesis by (simp add: sorted_append)
qed

lemma shuffle_first: "shuffle xs = x # ys \<Longrightarrow> y \<in> set xs \<Longrightarrow> key x \<le> key y"
  using shuffle_sorted [of xs] shuffle_set [of xs] by auto

text \<open>Without collisions of the key the result is determined.\<close>

lemma shuffle_unique:
  assumes "mset ys = mset xs" and "sorted (map key ys)" and "inj_on key (set xs)"
  shows "ys = shuffle xs"
proof -
  have "mset (map key ys) = mset (map key (shuffle xs))" using assms(1) shuffle_perm by simp
  then have "map key ys = map key (shuffle xs)"
    using assms(2) shuffle_sorted by (metis properties_for_sort)
  moreover have "inj_on key (set ys \<union> set (shuffle xs))"
    using assms(1,3) shuffle_set mset_eq_setD [OF assms(1)] by simp
  ultimately show ?thesis by (rule map_inj_on)
qed

end

interpretation sort_key: keyed_shuffle key "sort_key key" for key :: "'a \<Rightarrow> 'k::linorder"
  by unfold_locales simp_all

section \<open>Proof of authority\<close>

definition node_hash :: "slot_env \<Rightarrow> bytes \<Rightarrow> u32 \<Rightarrow> address \<Rightarrow> bytes32" where
  "node_hash env seed blockNumber a = sv_Blake2b env (seed @ put_uint32 blockNumber @ address_bytes a)"

definition shuffleAuthorityNodes ::
  "slot_env \<Rightarrow> AuthorityNodeList \<Rightarrow> bytes \<Rightarrow> u32 \<Rightarrow> AuthorityNodeList" where
  "shuffleAuthorityNodes env nodes seed blockNumber =
     map fst (sort_key snd (map (\<lambda>node. (node, node_hash env seed blockNumber (an_Master node))) nodes))"

record FutureProposer =
  fp_Master :: address
  fp_Endorsor :: address
  fp_Active :: bool
  fp_Position :: nat

definition number_proposers :: "AuthorityNode list \<Rightarrow> nat \<Rightarrow> FutureProposer list" where
  "number_proposers shuffled maxCount =
     map (\<lambda>i. \<lparr>fp_Master = an_Master (shuffled ! i), fp_Endorsor = an_Endorsor (shuffled ! i),
              fp_Active = an_Active (shuffled ! i), fp_Position = i + 1\<rparr>)
       [0..<(if length shuffled < maxCount then length shuffled else maxCount)]"

definition NextBlockProposersPoA ::
  "slot_env \<Rightarrow> AuthorityNodeList \<Rightarrow> bytes \<Rightarrow> u32 \<Rightarrow> nat \<Rightarrow> FutureProposer list" where
  "NextBlockProposersPoA env nodes seed blockNumber maxCount =
     number_proposers (shuffleAuthorityNodes env nodes seed blockNumber) maxCount"

interpretation authority: keyed_shuffle "\<lambda>node :: AuthorityNode. node_hash env seed n (an_Master node)"
  "\<lambda>nodes. shuffleAuthorityNodes env nodes seed n" for env seed n
proof
  fix nodes :: "AuthorityNode list"
  let ?pair = "\<lambda>node. (node, node_hash env seed n (an_Master node))"
  let ?sorted = "sort_key snd (map ?pair nodes)"
  have snd: "snd p = node_hash env seed n (an_Master (fst p))" if "p \<in> set ?sorted" for p
    using that by auto
  have "mset (map fst ?sorted) = image_mset fst (mset (map ?pair nodes))" by simp
  then show "mset (shuffleAuthorityNodes env nodes seed n) = mset nodes"
    by (simp add: shuffleAuthorityNodes_def image_mset.compositionality comp_def)
  have "map (\<lambda>node. node_hash env seed n (an_Master node)) (map fst ?sorted) = map snd ?sorted"
    using snd by simp
  moreover have "sorted (map snd ?sorted)" by (rule sort_key.shuffle_sorted)
  ultimately show "sorted (map (\<lambda>node. node_hash env seed n (an_Master node)) (shuffleAuthorityNodes env nodes seed n))"
    unfolding shuffleAuthorityNodes_def by (simp only:)
qed

section \<open>Proof of stake\<close>

record PosNode =
  pn_Master :: address
  pn_Endorsor :: address
  pn_Active :: bool
  pn_Weight :: u64

definition ToAuthorityNode :: "PosNode \<Rightarrow> AuthorityNode" where
  "ToAuthorityNode p = \<lparr>an_Master = pn_Master p, an_Endorsor = pn_Endorsor p, an_Active = pn_Active p\<rparr>"

text \<open>The random number of the \<open>i\<close>-th node; zero is replaced to keep the logarithm finite.\<close>

definition node_random :: "slot_env \<Rightarrow> bytes32 \<Rightarrow> nat \<Rightarrow> f64" where
  "node_random env hashedSeed i =
     (let random = sv_Float64 env hashedSeed i in if random = Fin 0 then f64_round (1 / 10 ^ 10) else random)"

definition node_score :: "slot_env \<Rightarrow> bytes32 \<Rightarrow> nat \<Rightarrow> u64 \<Rightarrow> f64" where
  "node_score env hashedSeed i weight =
     f64_div (f64_neg (sv_Log env (node_random env hashedSeed i))) (f64_of_u64 weight)"

text \<open>Every node takes a number from the generator, whether it is then skipped or not.\<close>

fun pos_entries :: "slot_env \<Rightarrow> bytes32 \<Rightarrow> nat \<Rightarrow> PosNode list \<Rightarrow> (PosNode \<times> f64) list" where
  "pos_entries env hashedSeed i [] = []"
| "pos_entries env hashedSeed i (node # nodes) =
     (if \<not> pn_Active node \<or> pn_Weight node = 0 then pos_entries env hashedSeed (i + 1) nodes
      else (node, node_score env hashedSeed i (pn_Weight node)) # pos_entries env hashedSeed (i + 1) nodes)"

text \<open>\<open>slices.SortStableFunc\<close> by the score: an insertion sort that keeps equals in order.\<close>

fun insert_entry :: "PosNode \<times> f64 \<Rightarrow> (PosNode \<times> f64) list \<Rightarrow> (PosNode \<times> f64) list" where
  "insert_entry e [] = [e]"
| "insert_entry e (x # xs) = (if snd x < snd e then x # insert_entry e xs else e # x # xs)"

fun sort_entries :: "(PosNode \<times> f64) list \<Rightarrow> (PosNode \<times> f64) list" where
  "sort_entries [] = []"
| "sort_entries (e # es) = insert_entry e (sort_entries es)"

definition shufflePosNodes :: "slot_env \<Rightarrow> PosNode list \<Rightarrow> bytes \<Rightarrow> u32 \<Rightarrow> PosNode list" where
  "shufflePosNodes env nodes seed blockNumber =
     (if nodes = [] then nodes
      else map fst (sort_entries (pos_entries env (sv_Blake2b env (seed @ put_uint32 blockNumber)) 0 nodes)))"

definition NextBlockProposersPoS :: "slot_env \<Rightarrow> PosNode list \<Rightarrow> bytes \<Rightarrow> u32 \<Rightarrow> nat \<Rightarrow> FutureProposer list" where
  "NextBlockProposersPoS env nodes seed blockNumber maxCount =
     number_proposers (map ToAuthorityNode (shufflePosNodes env nodes seed blockNumber)) maxCount"

section \<open>The weighted shuffle\<close>

text \<open>The nodes that may propose.\<close>

definition eligible :: "PosNode \<Rightarrow> bool" where
  "eligible node \<longleftrightarrow> pn_Active node \<and> pn_Weight node \<noteq> 0"

lemma map_fst_pos_entries: "map fst (pos_entries env h i nodes) = filter eligible nodes"
  by (induction nodes arbitrary: i) (auto simp: eligible_def)

text \<open>The score of a node depends on its own index, weight and the seed, not on the other nodes.\<close>

lemma set_pos_entries:
  "set (pos_entries env h i nodes) =
     {(nodes ! k, node_score env h (i + k) (pn_Weight (nodes ! k))) | k. k < length nodes \<and> eligible (nodes ! k)}"
proof (induction nodes arbitrary: i)
  case (Cons node nodes)
  have split: "{f k | k. k < Suc n \<and> P k} = (if P 0 then {f 0} else {}) \<union> {f (Suc k) | k. k < n \<and> P (Suc k)}"
    for f :: "nat \<Rightarrow> PosNode \<times> f64" and n P
    by (auto simp: less_Suc_eq_0_disj)
  show ?case
    using split [of "\<lambda>k. ((node # nodes) ! k, node_score env h (i + k) (pn_Weight ((node # nodes) ! k)))" "length nodes"
        "\<lambda>k. eligible ((node # nodes) ! k)"]
    by (simp add: Cons.IH eligible_def)
qed simp

lemma mset_sort_entries: "mset (sort_entries es) = mset es"
proof -
  have "mset (insert_entry e es) = add_mset e (mset es)" for e es by (induction es) auto
  then show ?thesis by (induction es) auto
qed

lemma sorted_sort_entries:
  assumes "\<forall>e \<in> set es. snd e \<noteq> NaN"
  shows "sorted_wrt (\<lambda>a b. snd a \<le> snd b) (sort_entries es)"
proof -
  have ins: "sorted_wrt (\<lambda>a b. snd a \<le> snd b) xs \<Longrightarrow> snd e \<noteq> NaN \<Longrightarrow> \<forall>x \<in> set xs. snd x \<noteq> NaN \<Longrightarrow>
      sorted_wrt (\<lambda>a b. snd a \<le> snd b) (insert_entry e xs)" for e :: "PosNode \<times> f64" and xs
  proof (induction xs)
    case (Cons x xs)
    have mem: "set (insert_entry e xs) = insert e (set xs)" by (induction xs) auto
    show ?case
    proof (cases "snd x < snd e")
      case True
      with Cons show ?thesis by (auto simp: mem f64_less_imp_le)
    next
      case False
      then have "snd e \<le> snd x" using f64_le_total Cons.prems by fastforce
      then show ?thesis using False Cons.prems f64_le_trans by fastforce
    qed
  qed simp
  have "set (sort_entries xs) = set xs" for xs using mset_sort_entries by (metis set_mset_mset)
  then show ?thesis using assms by (induction es) (auto intro!: ins)
qed

lemma mset_shufflePosNodes: "mset (shufflePosNodes env nodes seed n) = mset (filter eligible nodes)"
proof -
  have "mset (map fst (sort_entries es)) = mset (map fst es)" for es :: "(PosNode \<times> f64) list"
    using mset_sort_entries by (metis mset_map)
  then show ?thesis by (simp add: shufflePosNodes_def map_fst_pos_entries del: mset_map mset_filter)
qed

text \<open>What the libraries guarantee: random numbers in \<open>[0, 1)\<close> and a logarithm that is finite and not
  positive there.\<close>

definition env_laws :: "slot_env \<Rightarrow> bool" where
  "env_laws env \<longleftrightarrow>
     (\<forall>h i. \<exists>q. sv_Float64 env h i = Fin q \<and> 0 \<le> q \<and> q < 1) \<and>
     (\<forall>q. 0 < q \<longrightarrow> q < 1 \<longrightarrow> (\<exists>l. sv_Log env (Fin q) = Fin l \<and> l \<le> 0))"

lemma score_not_NaN:
  assumes "env_laws env" and "weight \<noteq> 0"
  shows "node_score env h i weight \<noteq> NaN"
proof -
  have "\<exists>q > 0. q < 1 \<and> node_random env h i = Fin q"
  proof (cases "sv_Float64 env h i = Fin 0")
    case True
    then have "node_random env h i = Fin (7737125245533627 / 77371252455336267181195264)"
      unfolding node_random_def Let_def tiny_f64 by (rule if_P)
    then show ?thesis by (intro exI [of _ "7737125245533627 / 77371252455336267181195264"]) simp
  next
    case False
    obtain q where "sv_Float64 env h i = Fin q" "0 \<le> q" "q < 1"
      using assms unfolding env_laws_def by blast
    with False show ?thesis by (auto simp: node_random_def less_le)
  qed
  then obtain l where "sv_Log env (node_random env h i) = Fin l"
    using assms(1) unfolding env_laws_def by metis
  then show ?thesis
    using f64_of_u64_pos [OF assms(2)] by (auto simp: node_score_def f64_round_not_NaN)
qed

lemma pos_entries_not_NaN:
  assumes "env_laws env"
  shows "\<forall>e \<in> set (pos_entries env h i nodes). snd e \<noteq> NaN"
  using score_not_NaN [OF assms] by (auto simp: set_pos_entries eligible_def)

text \<open>Taking entries out before or after sorting is the same.\<close>

lemma filter_insert_entry:
  assumes "sorted_wrt (\<lambda>a b. snd a \<le> snd b) xs" and "\<forall>x \<in> set (e # xs). snd x \<noteq> NaN"
  shows "filter P (insert_entry e xs) = (if P e then insert_entry e (filter P xs) else filter P xs)"
  using assms
proof (induction xs)
  case (Cons x xs)
  show ?case
  proof (cases "snd x < snd e")
    case True
    with Cons show ?thesis by auto
  next
    case False
    then have le: "snd e \<le> snd x" using f64_le_total Cons.prems(2) by fastforce
    have "insert_entry e ys = e # ys" if "set ys \<subseteq> set (x # xs)" for ys
    proof (cases ys)
      case (Cons y zs)
      then have "snd e \<le> snd y" using that \<open>sorted_wrt _ (x # xs)\<close> le f64_le_trans by fastforce
      then have "\<not> snd y < snd e" by (cases "snd e"; cases "snd y") (auto simp: less_eq_f64_def)
      with Cons show ?thesis by simp
    qed simp
    moreover have "set (filter P (x # xs)) \<subseteq> set (x # xs)" by auto
    ultimately have I: "insert_entry e (filter P (x # xs)) = e # filter P (x # xs)" by blast
    have "insert_entry e (x # xs) = e # x # xs" using False by simp
    then show ?thesis unfolding I by (cases "P e") simp_all
  qed
qed simp

lemma filter_sort_entries:
  assumes "\<forall>e \<in> set es. snd e \<noteq> NaN"
  shows "filter P (sort_entries es) = sort_entries (filter P es)"
  using assms
proof (induction es)
  case (Cons e es)
  have "set (sort_entries es) = set es" using mset_sort_entries by (metis set_mset_mset)
  then show ?case
    using Cons sorted_sort_entries [of es] filter_insert_entry [of "sort_entries es" e P] by auto
qed simp

lemma sort_entries_short: "sort_entries [] = []" "sort_entries [e] = [e]"
  by simp_all

lemma shufflePosNodes_entries:
  "shufflePosNodes env nodes seed n =
     map fst (sort_entries (pos_entries env (sv_Blake2b env (seed @ put_uint32 n)) 0 nodes))"
  by (simp add: shufflePosNodes_def)

lemma pos_entries_update:
  assumes "k < length nodes" and "distinct (map pn_Master nodes)"
  shows "pos_entries env h i (nodes[k := (nodes ! k)\<lparr>pn_Active := False\<rparr>]) =
    filter (\<lambda>e. pn_Master (fst e) \<noteq> pn_Master (nodes ! k)) (pos_entries env h i nodes)"
  using assms
proof (induction nodes arbitrary: k i)
  case (Cons node nodes)
  have mem: "fst e \<in> set nodes" if "e \<in> set (pos_entries env h j nodes)" for e j
    using that by (auto simp: set_pos_entries)
  show ?case
  proof (cases k)
    case 0
    have "filter (\<lambda>e. pn_Master (fst e) \<noteq> pn_Master node) (pos_entries env h j nodes) = pos_entries env h j nodes" for j
    proof (rule filter_True, rule ballI)
      fix e assume "e \<in> set (pos_entries env h j nodes)"
      then have "pn_Master (fst e) \<in> pn_Master ` set nodes" using mem by blast
      then show "pn_Master (fst e) \<noteq> pn_Master node" using Cons.prems(2) by auto
    qed
    then show ?thesis using 0 by simp
  next
    case (Suc k')
    with Cons.prems have "pn_Master node \<noteq> pn_Master (nodes ! k')" by (auto dest: nth_mem)
    then show ?thesis using Suc Cons by auto
  qed
qed simp

section \<open>Properties\<close>

lemma number_proposers_simps:
  "map fp_Master (number_proposers ns m) = take m (map an_Master ns)"
  "map fp_Position (number_proposers ns m) = [1..<min (length ns) m + 1]"
  "length (number_proposers ns m) = min (length ns) m"
proof -
  have l: "(if length ns < m then length ns else m) = min (length ns) m" by simp
  show "map fp_Master (number_proposers ns m) = take m (map an_Master ns)"
    by (rule nth_equalityI) (auto simp: number_proposers_def l)
  show "map fp_Position (number_proposers ns m) = [1..<min (length ns) m + 1]"
    by (rule nth_equalityI) (auto simp: number_proposers_def l simp del: upt_Suc)
  show "length (number_proposers ns m) = min (length ns) m"
    by (simp add: number_proposers_def)
qed

text \<open>Every predicted validator is one of those that may propose.\<close>

lemma NextBlockProposersPoS_mem:
  assumes "p \<in> set (NextBlockProposersPoS env nodes seed n m)"
  shows "\<exists>q \<in> set nodes. eligible q \<and> pn_Master q = fp_Master p"
proof -
  have "fp_Master p \<in> set (map fp_Master (NextBlockProposersPoS env nodes seed n m))" using assms by simp
  then have "fp_Master p \<in> set (map (\<lambda>q. an_Master (ToAuthorityNode q)) (shufflePosNodes env nodes seed n))"
    by (simp only: NextBlockProposersPoS_def number_proposers_simps map_map comp_def) (rule in_set_takeD)
  then have "fp_Master p \<in> pn_Master ` set (filter eligible nodes)"
    using mset_eq_setD [OF mset_shufflePosNodes, of env nodes seed n] by (simp add: ToAuthorityNode_def)
  then show ?thesis by auto
qed

text \<open>The predicted authority proposers are the nodes with the smallest hashes, in that order and numbered
  from one: any other list of the nodes sorted by hash gives the same prediction, when hashes do not
  collide.\<close>

theorem PoA_proposers_determined:
  assumes "mset ys = mset nodes" and "sorted (map (\<lambda>node. node_hash env seed n (an_Master node)) ys)"
    and "inj_on (\<lambda>node. node_hash env seed n (an_Master node)) (set nodes)"
  shows "map fp_Master (NextBlockProposersPoA env nodes seed n m) = take m (map an_Master ys) \<and>
    map fp_Position (NextBlockProposersPoA env nodes seed n m) = [1..<min (length nodes) m + 1]"
proof -
  have "ys = shuffleAuthorityNodes env nodes seed n" using assms by (rule authority.shuffle_unique)
  then show ?thesis
    using authority.shuffle_length [of env nodes seed n] by (simp add: NextBlockProposersPoA_def number_proposers_simps)
qed

text \<open>The authority prediction does not look at which nodes are active: with the same hashes, switching
  every node off changes nothing, so an inactive node can be predicted as the next proposer.\<close>

theorem PoA_ignores_activity:
  "map fp_Master (NextBlockProposersPoA env (map (\<lambda>node. node\<lparr>an_Active := False\<rparr>) nodes) seed n m) =
     map fp_Master (NextBlockProposersPoA env nodes seed n m)"
proof -
  let ?off = "\<lambda>node :: AuthorityNode. node\<lparr>an_Active := False\<rparr>" and ?off2 = "\<lambda>p :: AuthorityNode \<times> bytes32. ((fst p)\<lparr>an_Active := False\<rparr>, snd p)"
  have ins: "insort_key snd (?off2 p) (map ?off2 xs) = map ?off2 (insort_key snd p xs)" for p xs
    by (induction xs) auto
  have srt: "sort_key snd (map ?off2 xs) = map ?off2 (sort_key snd xs)" for xs
    by (induction xs) (simp_all only: list.map sort_key_simps ins)
  have "shuffleAuthorityNodes env (map ?off nodes) seed n = map ?off (shuffleAuthorityNodes env nodes seed n)"
    using srt [of "map (\<lambda>node. (node, node_hash env seed n (an_Master node))) nodes"]
    by (simp add: shuffleAuthorityNodes_def comp_def)
  then show ?thesis by (simp add: NextBlockProposersPoA_def number_proposers_simps comp_def)
qed

text \<open>C35: The predicted proof-of-stake proposers are eligible validators (online, with weight), each at most
  as often as it is listed, in the order of their scores; the score of a validator is computed from its
  own place in the list and weight alone.\<close>

theorem PoS_proposers_by_score:
  assumes "env_laws env"
  shows "\<exists>es. map fp_Master (NextBlockProposersPoS env nodes seed n m) = take m (map (\<lambda>e. pn_Master (fst e)) es) \<and>
    mset (map fst es) = mset (filter eligible nodes) \<and> sorted_wrt (\<lambda>a b. snd a \<le> snd b) es \<and>
    set es = {(nodes ! k, node_score env (sv_Blake2b env (seed @ put_uint32 n)) k (pn_Weight (nodes ! k))) |
      k. k < length nodes \<and> eligible (nodes ! k)}"
proof -
  let ?es = "pos_entries env (sv_Blake2b env (seed @ put_uint32 n)) 0 nodes"
  have "mset (map fst (sort_entries ?es)) = mset (map fst ?es)" by (simp add: mset_sort_entries)
  then have "mset (map fst (sort_entries ?es)) = mset (filter eligible nodes)" by (simp only: map_fst_pos_entries)
  moreover have "sorted_wrt (\<lambda>a b. snd a \<le> snd b) (sort_entries ?es)"
    using pos_entries_not_NaN [OF assms] by (rule sorted_sort_entries)
  moreover have "set (sort_entries ?es) = set ?es" using mset_sort_entries by (rule mset_eq_setD)
  moreover have "map fp_Master (NextBlockProposersPoS env nodes seed n m)
      = take m (map (\<lambda>e. pn_Master (fst e)) (sort_entries ?es))"
    by (simp add: NextBlockProposersPoS_def shufflePosNodes_entries number_proposers_simps comp_def ToAuthorityNode_def)
  ultimately show ?thesis by (intro exI [of _ "sort_entries ?es"]) (simp add: set_pos_entries)
qed

text \<open>C36: A validator that goes offline only drops out of the order: since it still takes its random number,
  the others keep their relative places.\<close>

theorem offline_keeps_order:
  assumes "env_laws env" and "k < length nodes" and "distinct (map pn_Master nodes)"
  shows "map pn_Master (shufflePosNodes env (nodes[k := (nodes ! k)\<lparr>pn_Active := False\<rparr>]) seed n) =
    filter (\<lambda>a. a \<noteq> pn_Master (nodes ! k)) (map pn_Master (shufflePosNodes env nodes seed n))"
proof -
  let ?es = "pos_entries env (sv_Blake2b env (seed @ put_uint32 n)) 0 nodes"
  have "sort_entries (filter (\<lambda>e. pn_Master (fst e) \<noteq> pn_Master (nodes ! k)) ?es) =
      filter (\<lambda>e. pn_Master (fst e) \<noteq> pn_Master (nodes ! k)) (sort_entries ?es)"
    using filter_sort_entries [OF pos_entries_not_NaN [OF assms(1)]] by simp
  then show ?thesis
    unfolding shufflePosNodes_entries pos_entries_update [OF assms(2,3)] by (simp add: filter_map comp_def)
qed

section \<open>Sample instances\<close>

text \<open>A hash that keeps the last byte, and a generator that always gives one half.\<close>

definition sample_slot_env :: slot_env where
  "sample_slot_env = \<lparr>sv_Blake2b = \<lambda>bs. Bytes32 (if bs = [] then 0 else ucast (last bs)),
     sv_Float64 = \<lambda>h i. Fin (1 / 2), sv_Log = \<lambda>x. Fin (- 1)\<rparr>"

definition sample_nodes :: AuthorityNodeList where
  "sample_nodes = map (\<lambda>a. \<lparr>an_Master = Address a, an_Endorsor = Address 9, an_Active = True\<rparr>) [3, 1, 2]"

definition sample_pos :: "PosNode list" where
  "sample_pos = map (\<lambda>a. \<lparr>pn_Master = Address a, pn_Endorsor = Address 9, pn_Active = True, pn_Weight = 5\<rparr>) [3, 1, 2]"

lemma sample_slot_env_laws: "env_laws sample_slot_env"
  unfolding env_laws_def sample_slot_env_def by (auto intro: exI [of _ "1 / 2"])

lemma sample_hashes:
  "map (\<lambda>node. b32_word (node_hash sample_slot_env [] 7 (an_Master node))) sample_nodes = [3, 1, 2]"
  by code_simp

theorem PoA_proposers_determined_witness:
  "map fp_Master (NextBlockProposersPoA sample_slot_env sample_nodes [] 7 2) = [Address 1, Address 2]"
proof -
  let ?ys = "[sample_nodes ! 1, sample_nodes ! 2, sample_nodes ! 0]"
  have "mset ?ys = mset sample_nodes" by (simp add: sample_nodes_def)
  moreover have "sorted (map (\<lambda>node. node_hash sample_slot_env [] 7 (an_Master node)) ?ys)" by code_simp
  moreover have "inj_on (\<lambda>node. node_hash sample_slot_env [] 7 (an_Master node)) (set sample_nodes)"
    using sample_hashes by (auto simp: inj_on_def sample_nodes_def)
  ultimately have "map fp_Master (NextBlockProposersPoA sample_slot_env sample_nodes [] 7 2) = take 2 (map an_Master ?ys)"
    using PoA_proposers_determined by blast
  then show ?thesis by (simp add: sample_nodes_def)
qed

theorem PoS_proposers_by_score_witness:
  "\<exists>es :: (PosNode \<times> f64) list. map fp_Master (NextBlockProposersPoS sample_slot_env sample_pos [] 7 2) = take 2 (map (\<lambda>e. pn_Master (fst e)) es) \<and>
    mset (map fst es) = mset sample_pos"
proof -
  have "filter eligible sample_pos = sample_pos" by (simp add: sample_pos_def eligible_def)
  moreover obtain es :: "(PosNode \<times> f64) list" where "map fp_Master (NextBlockProposersPoS sample_slot_env sample_pos [] 7 2) = take 2 (map (\<lambda>e. pn_Master (fst e)) es)"
      and "mset (map fst es) = mset (filter eligible sample_pos)"
    using PoS_proposers_by_score [OF sample_slot_env_laws, where nodes = sample_pos and m = 2 and seed = "[]" and n = 7] by blast
  ultimately show ?thesis by (intro exI [of _ es]) (simp only: simp_thms)
qed

theorem offline_keeps_order_witness:
  "map pn_Master (shufflePosNodes sample_slot_env (sample_pos[1 := (sample_pos ! 1)\<lparr>pn_Active := False\<rparr>]) [] 7) =
    filter (\<lambda>a. a \<noteq> pn_Master (sample_pos ! 1)) (map pn_Master (shufflePosNodes sample_slot_env sample_pos [] 7))"
  by (rule offline_keeps_order [OF sample_slot_env_laws]) (simp_all add: sample_pos_def)

end
