(* ===== verification/SlotsWriter.thy ===== *)
theory SlotsWriter
  imports SlotCalculator
begin

text \<open>
  \<^verbatim>\<open>stats/slots/writer.go\<close>: the points that predict who signs the next blocks. The
  number of predictions is a natural number; it is 10 unless \<open>SetFutureProposerCount\<close> changes it.
\<close>

definition DefaultFutureProposerCount :: nat where
  "DefaultFutureProposerCount = 10"

record slots_writer =
  sw_futureProposerCount :: nat

definition slots_New :: slots_writer where
  "slots_New = \<lparr>sw_futureProposerCount = DefaultFutureProposerCount\<rparr>"

definition SetFutureProposerCount :: "nat \<Rightarrow> slots_writer \<Rightarrow> slots_writer" where
  "SetFutureProposerCount n w = w\<lparr>sw_futureProposerCount := n\<rparr>"

section \<open>Converting the validators\<close>

definition pos_weight :: "Validation \<Rightarrow> u64" where
  "pos_weight v =
     (case v_TotalLockedWeight v of
        Some x \<Rightarrow> if 0 < x then ScaleToVET (Some x) else 0
      | None \<Rightarrow> 0)"

fun convert_validations :: "Validation list \<Rightarrow> PosNode list" where
  "convert_validations [] = []"
| "convert_validations (v # vs) =
     (if pos_weight v = 0 then convert_validations vs
      else \<lparr>pn_Master = v_Address v, pn_Endorsor = v_Endorser v, pn_Active = v_Online v,
            pn_Weight = pos_weight v\<rparr> # convert_validations vs)"

definition convertStakerToPosNodes :: "StakerInformation option \<Rightarrow> PosNode list" where
  "convertStakerToPosNodes info =
     (case info of None \<Rightarrow> [] | Some si \<Rightarrow> convert_validations (si_Validations si))"

section \<open>The proposers\<close>

text \<open>The predicted proposers, the expected signer of this block, and the number of active nodes.\<close>

type_synonym prediction = "FutureProposer list \<times> address \<times> nat"

definition calculatePoaProposers :: "slot_env \<Rightarrow> slots_writer \<Rightarrow> Event \<Rightarrow> prediction outcome" where
  "calculatePoaProposers env w ev =
     (let n = blk_Number (e_Block ev);
          expected = NextBlockProposersPoA env (e_ParentAuthNodes ev) (e_Seed ev) (n - 1) (sw_futureProposerCount w) in
      if GetActiveNodes (e_ParentAuthNodes ev) = [] then Ok ([], Address 0, 0)
      else bind_outcome (nth_or_panic expected 0) (\<lambda>first.
        Ok (NextBlockProposersPoA env (e_AuthNodes ev) (e_FutureSeed ev) n (sw_futureProposerCount w),
            fp_Master first, GetActiveCount (e_AuthNodes ev))))"

definition calculatePosProposers :: "slot_env \<Rightarrow> slots_writer \<Rightarrow> Event \<Rightarrow> prediction" where
  "calculatePosProposers env w ev =
     (if e_Staker ev = None then ([], Address 0, 0)
      else
        let n = blk_Number (e_Block ev);
            expected = (if e_ParentStaker ev = None then []
              else NextBlockProposersPoS env (convertStakerToPosNodes (e_ParentStaker ev)) (e_Seed ev) (n - 1) 1);
            posNodes = convertStakerToPosNodes (e_Staker ev) in
        if posNodes = [] then ([], Address 0, 0)
        else (NextBlockProposersPoS env posNodes (e_FutureSeed ev) n (sw_futureProposerCount w),
              (case expected of [] \<Rightarrow> Address 0 | p # ps \<Rightarrow> fp_Master p), length posNodes))"

section \<open>Write\<close>

definition weight_millions :: "Event \<Rightarrow> (address, Validation) gomap \<Rightarrow> address \<Rightarrow> f64" where
  "weight_millions ev validationMap a =
     (if hs_Active (e_HayabusaStatus ev) \<and> e_Staker ev \<noteq> None
      then (case map_of validationMap a of
              Some v \<Rightarrow> f64_of_u64 (ScaleToMillionVET (v_TotalLockedWeight v))
            | None \<Rightarrow> Fin 25)
      else Fin 25)"

definition slot_point ::
  "Event \<Rightarrow> (address, Validation) gomap \<Rightarrow> address \<Rightarrow> nat \<Rightarrow> FutureProposer \<Rightarrow> point" where
  "slot_point ev validationMap expected active p =
     \<lparr>pt_Measurement = ''slots'',
      pt_Tags = [(''block_number'', VU32 (blk_Number (e_Block ev))), (''position'', VInt (int (fp_Position p))),
        (''pos_active'', VStr (FormatBool (hs_Active (e_HayabusaStatus ev))))],
      pt_Fields = [(KStr ''authority_node'', VAddr (fp_Master p)), (KStr ''endorsor_node'', VAddr (fp_Endorsor p)),
        (KStr ''current_signer'', VAddr (blk_Signer (e_Block ev))), (KStr ''total_active_nodes'', VInt (int active)),
        (KStr ''weight'', VF64 (weight_millions ev validationMap (fp_Master p))),
        (KStr ''expected_block_signer'', VAddr expected)],
      pt_Time = unix_time (blk_Timestamp (e_Block ev))\<rparr>"

text \<open>With a nil \<open>Staker\<close> the proof-of-stake branch dereferences it in \<open>ValidationMap\<close>.\<close>

definition slots_Write :: "slot_env \<Rightarrow> slots_writer \<Rightarrow> Event \<Rightarrow> point list outcome" where
  "slots_Write env w ev =
     (if e_Prev ev = None then Ok []
      else bind_outcome
        (if hs_Active (e_HayabusaStatus ev)
         then (case e_Staker ev of
                 None \<Rightarrow> Panic NilDereference
               | Some si \<Rightarrow> Ok (calculatePosProposers env w ev, ValidationMap si))
         else bind_outcome (calculatePoaProposers env w ev) (\<lambda>r. Ok (r, [])))
        (\<lambda>((proposers, expected, active), validationMap).
           Ok (map (slot_point ev validationMap expected active) proposers)))"

section \<open>Lemmas\<close>

lemma convert_validations_eq:
  "convert_validations vs = map (\<lambda>v. \<lparr>pn_Master = v_Address v, pn_Endorsor = v_Endorser v,
     pn_Active = v_Online v, pn_Weight = pos_weight v\<rparr>) (filter (\<lambda>v. pos_weight v \<noteq> 0) vs)"
  by (induction vs) auto

lemma PoA_nonempty:
  assumes "GetActiveNodes nodes \<noteq> []" and "0 < m"
  shows "\<exists>p ps. NextBlockProposersPoA env nodes seed n m = p # ps"
proof -
  have "nodes \<noteq> []" using assms(1) by auto
  then have "length (NextBlockProposersPoA env nodes seed n m) \<noteq> 0"
    using assms(2) authority.shuffle_length [of env nodes seed n]
    by (simp add: NextBlockProposersPoA_def number_proposers_simps)
  then show ?thesis by (cases "NextBlockProposersPoA env nodes seed n m") auto
qed

lemma slots_Write_PoA:
  assumes "e_Prev ev \<noteq> None" and "\<not> hs_Active (e_HayabusaStatus ev)" and "0 < sw_futureProposerCount w"
  shows "\<exists>expected active. slots_Write env w ev = Ok (if GetActiveNodes (e_ParentAuthNodes ev) = [] then []
    else map (slot_point ev [] expected active)
      (NextBlockProposersPoA env (e_AuthNodes ev) (e_FutureSeed ev) (blk_Number (e_Block ev)) (sw_futureProposerCount w)))"
proof (cases "GetActiveNodes (e_ParentAuthNodes ev) = []")
  case True
  with assms show ?thesis by (auto simp: slots_Write_def calculatePoaProposers_def Let_def)
next
  case False
  then obtain p ps where "NextBlockProposersPoA env (e_ParentAuthNodes ev) (e_Seed ev)
      (blk_Number (e_Block ev) - 1) (sw_futureProposerCount w) = p # ps"
    using PoA_nonempty assms(3) by blast
  with assms False show ?thesis
    by (auto simp: slots_Write_def calculatePoaProposers_def Let_def nth_or_panic_def)
qed

text \<open>Points numbered from one on, at most \<open>m\<close> of them.\<close>

definition numbered_points :: "nat \<Rightarrow> point list \<Rightarrow> bool" where
  "numbered_points m ps \<longleftrightarrow> length ps \<le> m \<and>
     map (\<lambda>p. map_of (pt_Tags p) ''position'') ps = map (\<lambda>i. Some (VInt (int i))) [1..<length ps + 1]"

lemma numbered_points_Nil: "numbered_points m []"
  by (simp add: numbered_points_def)

lemma numbered_slot_points: "numbered_points m (map (slot_point ev vm ex ac) (number_proposers ns m))"
proof -
  let ?ps = "map (slot_point ev vm ex ac) (number_proposers ns m)"
  have "map (\<lambda>p. map_of (pt_Tags p) ''position'') ?ps =
      map (\<lambda>i. Some (VInt (int i))) (map fp_Position (number_proposers ns m))"
    by (simp add: slot_point_def)
  then show ?thesis unfolding numbered_points_def by (simp only: number_proposers_simps length_map) simp
qed

lemma NextBlockProposersPoS_weight:
  assumes "p \<in> set (NextBlockProposersPoS env (convert_validations vs) seed n m)"
  shows "\<exists>v \<in> set vs. v_Online v \<and> pos_weight v \<noteq> 0 \<and> v_Address v = fp_Master p"
  using NextBlockProposersPoS_mem [OF assms] by (auto simp: convert_validations_eq eligible_def)

section \<open>Properties\<close>

text \<open>For every event the publisher makes, when proof of stake never starts before the fork, the slots
  handler returns without a panic: nothing for the first blocks, and otherwise points that are numbered
  from one on and never more than the configured number.\<close>

theorem slots_Write_returns:
  assumes "0 < sw_futureProposerCount w"
    and "hs_Active (e_HayabusaStatus ev) \<Longrightarrow> e_Staker ev \<noteq> None"
  shows "\<exists>ps. slots_Write env w ev = Ok ps \<and> numbered_points (sw_futureProposerCount w) ps \<and>
    (e_Prev ev = None \<longrightarrow> ps = [])"
proof (cases "e_Prev ev = None")
  case False
  show ?thesis
  proof (cases "hs_Active (e_HayabusaStatus ev)")
    case True
    with assms(2) obtain si where "e_Staker ev = Some si" by auto
    with True False show ?thesis
      by (auto simp: slots_Write_def calculatePosProposers_def Let_def NextBlockProposersPoS_def
          numbered_points_Nil numbered_slot_points)
  next
    case poa: False
    from slots_Write_PoA [OF False poa assms(1), of env] False show ?thesis
      by (auto simp: NextBlockProposersPoA_def numbered_points_Nil numbered_slot_points split: if_splits)
  qed
qed (simp add: slots_Write_def numbered_points_Nil)

text \<open>Under proof of stake every predicted proposer is a validator of the staker contract that is online
  and has weight, and the weight shown for it is its own locked weight in millions of VET.\<close>

theorem slots_Write_PoS_weights:
  assumes "slots_Write env w ev = Ok ps" and "p \<in> set ps" and "hs_Active (e_HayabusaStatus ev)"
    and "e_Staker ev = Some si" and "distinct (map v_Address (si_Validations si))"
  shows "\<exists>v \<in> set (si_Validations si). v_Online v \<and> field p ''authority_node'' = Some (VAddr (v_Address v)) \<and>
    field p ''weight'' = Some (VF64 (f64_of_u64 (ScaleToMillionVET (v_TotalLockedWeight v))))"
proof -
  from assms obtain q ex ac where q: "q \<in> set (NextBlockProposersPoS env (convert_validations (si_Validations si))
        (e_FutureSeed ev) (blk_Number (e_Block ev)) (sw_futureProposerCount w))"
      and p: "p = slot_point ev (ValidationMap si) ex ac q"
    by (auto simp: slots_Write_def calculatePosProposers_def convertStakerToPosNodes_def Let_def split: if_splits)
  from NextBlockProposersPoS_weight [OF q] obtain v
    where v: "v \<in> set (si_Validations si)" "v_Online v" "v_Address v = fp_Master q" by blast
  with ValidationMap_lookup [OF v(1) assms(5)] assms(3,4) p show ?thesis
    by (intro bexI [of _ v]) (simp_all add: slot_point_def field_def weight_millions_def)
qed

section \<open>Sample instances\<close>

text \<open>Two active validators, the second one offline, with 30 and 20 VET of their own, the first with 10
  delegated.\<close>

definition sample_validation :: "160 word \<Rightarrow> bool \<Rightarrow> Validation" where
  "sample_validation a online =
     \<lparr>v_Endorser = Address 9, v_Period = 180, v_CompletedPeriods = 3, v_Status = StatusActive, v_StartBlock = 0,
      v_ExitBlock = None, v_OfflineBlock = (if online then None else Some 5), v_LockedVET = 30, v_PendingUnlockVET = 0,
      v_QueuedVET = 0, v_CooldownVET = 0, v_WithdrawableVET = 0, v_Weight = 75,
      v_TotalLockedStake = Some (40 * VET), v_TotalLockedWeight = Some (75 * VET), v_TotalQueuedStake = Some 0,
      v_TotalExitingStake = Some 0, v_NextPeriodWeight = Some (75 * VET), v_Address = Address a, v_Online = online,
      v_DelegatorStake = Some (10 * VET), v_DelegatorWeight = Some (15 * VET), v_DelegatorQueuedStake = Some 0,
      v_DelegatorQueuedWeight = Some 0\<rparr>"

definition sample_staker :: StakerInformation where
  "sample_staker = \<lparr>si_Validations = [sample_validation 1 True, sample_validation 2 False],
     si_ContractBalance = Some (80 * VET), si_QueuedVET = Some 0, si_TotalVET = Some (80 * VET),
     si_TotalWeight = Some (150 * VET),
     si_VTHO = \<lparr>vtho_TotalSupply = Some (1000 * VET), vtho_TotalBurned = Some (100 * VET)\<rparr>,
     si_CooldownVET = 0, si_WithdrawableVET = 0\<rparr>"

definition pos_input :: Event where
  "pos_input = (sample_input main2 (Some main1))\<lparr>e_HayabusaStatus := \<lparr>hs_Active = True, hs_Forked = True\<rparr>,
     e_Staker := Some sample_staker, e_ParentStaker := Some sample_staker\<rparr>"

lemma pos_input_simps [simp]:
  "e_Block pos_input = main2" "e_Prev pos_input = Some main1" "e_Staker pos_input = Some sample_staker"
  "e_ParentStaker pos_input = Some sample_staker" "hs_Active (e_HayabusaStatus pos_input)"
  "hs_Forked (e_HayabusaStatus pos_input)" "e_Seed pos_input = []" "e_FutureSeed pos_input = []"
  by (simp_all add: pos_input_def sample_input_def)

lemma sample_convert:
  "convert_validations (si_Validations sample_staker) =
     [\<lparr>pn_Master = Address 1, pn_Endorsor = Address 9, pn_Active = True, pn_Weight = 75\<rparr>,
      \<lparr>pn_Master = Address 2, pn_Endorsor = Address 9, pn_Active = False, pn_Weight = 75\<rparr>]"
  by (simp add: sample_staker_def sample_validation_def pos_weight_def ScaleToVET_def VET_def big_Uint64_def)

theorem slots_Write_returns_witness:
  "\<exists>ps. slots_Write sample_slot_env slots_New pos_input = Ok ps \<and> numbered_points 10 ps"
proof -
  have "0 < sw_futureProposerCount slots_New" by (simp add: slots_New_def DefaultFutureProposerCount_def)
  from slots_Write_returns [OF this, of pos_input sample_slot_env] show ?thesis
    by (auto simp: slots_New_def DefaultFutureProposerCount_def)
qed

lemma sample_slots_Write:
  "\<exists>p. slots_Write sample_slot_env slots_New pos_input = Ok [p]"
proof -
  have "shufflePosNodes sample_slot_env (convert_validations (si_Validations sample_staker)) [] 2 =
      [\<lparr>pn_Master = Address 1, pn_Endorsor = Address 9, pn_Active = True, pn_Weight = 75\<rparr>]"
    unfolding sample_convert by (simp add: shufflePosNodes_def)
  then show ?thesis
    by (simp add: slots_Write_def calculatePosProposers_def Let_def NextBlockProposersPoS_def sample_convert
        convertStakerToPosNodes_def number_proposers_def slots_New_def DefaultFutureProposerCount_def sample_blocks)
qed

theorem slots_Write_PoS_weights_witness:
  "\<exists>p. slots_Write sample_slot_env slots_New pos_input = Ok [p] \<and>
     (\<exists>v \<in> set (si_Validations sample_staker). v_Online v \<and> field p ''authority_node'' = Some (VAddr (v_Address v)))"
proof -
  obtain p where p: "slots_Write sample_slot_env slots_New pos_input = Ok [p]" using sample_slots_Write by blast
  have "distinct (map v_Address (si_Validations sample_staker))"
    by (simp add: sample_staker_def sample_validation_def)
  with slots_Write_PoS_weights [OF p, of p sample_staker] p show ?thesis by auto
qed

end
