(* ===== verification/PosStaker.thy ===== *)
theory PosStaker
  imports SlotsWriter
begin

text \<open>
  The schedule part of \<^verbatim>\<open>stats/pos/staker.go\<close>: which validators missed a slot before a
  block, and who signs the rest of the epoch. The scheduler of the thor library is a parameter: a
  constructor that fails or gives the test \<open>IsScheduled\<close>. The fetching part of the file is in
  \<open>StakerFetch\<close>.
\<close>

record Proposer =
  pp_Address :: address
  pp_Active :: bool
  pp_Weight :: u64

type_synonym scheduler = "u64 \<Rightarrow> address \<Rightarrow> bool"

type_synonym new_scheduler =
  "address \<Rightarrow> Proposer list \<Rightarrow> u32 \<Rightarrow> u64 \<Rightarrow> bytes \<Rightarrow> gerror + scheduler"

record pos_env =
  pe_slots :: slot_env
  pe_NewScheduler :: new_scheduler
  pe_BlockInterval :: u64
  pe_EpochLength :: u32

record MissedSlot =
  ms_Signer :: address
  ms_WasOnline :: bool

section \<open>MissedSlots\<close>

fun active_proposers :: "Validation list \<Rightarrow> Proposer list" where
  "active_proposers [] = []"
| "active_proposers (v # vs) =
     (if v_Status v = StatusActive
      then \<lparr>pp_Address = v_Address v, pp_Active = v_Online v, pp_Weight = v_Weight v\<rparr> # active_proposers vs
      else active_proposers vs)"

text \<open>The times of the empty slots, in \<open>uint64\<close>: the loop runs forever when the addition wraps.\<close>

partial_function (option) slot_times :: "u64 \<Rightarrow> u64 \<Rightarrow> u64 \<Rightarrow> u64 list option" where
  "slot_times interval i stop =
     (if i < stop
      then Option.bind (slot_times interval (i + interval) stop) (\<lambda>ts. Some (i # ts))
      else Some [])"

declare slot_times.simps [code]

text \<open>Nobody sets \<open>WasOnline\<close>.\<close>

definition missed_at :: "scheduler \<Rightarrow> Proposer list \<Rightarrow> u64 \<Rightarrow> MissedSlot list" where
  "missed_at sched proposers i =
     map (\<lambda>p. \<lparr>ms_Signer = pp_Address p, ms_WasOnline = False\<rparr>) (filter (\<lambda>p. sched i (pp_Address p)) proposers)"

text \<open>The second loop, over the validators; \<open>now\<close> and \<open>signer\<close> are the block's.\<close>

fun missed_offline ::
  "(address \<Rightarrow> gerror + scheduler) \<Rightarrow> u64 \<Rightarrow> address \<Rightarrow> Validation list \<Rightarrow> gerror + MissedSlot list" where
  "missed_offline schedule now signer [] = Inr []"
| "missed_offline schedule now signer (v # vs) =
     (if v_Status v \<noteq> StatusActive then missed_offline schedule now signer vs
      else if v_OfflineBlock v \<noteq> None then missed_offline schedule now signer vs
      else
        (case schedule (v_Address v) of
           Inl e \<Rightarrow> Inl e
         | Inr sched \<Rightarrow>
             (case missed_offline schedule now signer vs of
                Inl e \<Rightarrow> Inl e
              | Inr missed \<Rightarrow>
                  Inr (if sched now (v_Address v) \<and> signer \<noteq> v_Address v
                       then \<lparr>ms_Signer = v_Address v, ms_WasOnline = False\<rparr> # missed else missed))))"

definition MissedSlots ::
  "pos_env \<Rightarrow> Block \<Rightarrow> Validation list \<Rightarrow> Block \<Rightarrow> bytes \<Rightarrow> (gerror + MissedSlot list \<times> MissedSlot list) option" where
  "MissedSlots env parent validators b seed =
     (let proposers = active_proposers validators;
          schedule = (\<lambda>a. pe_NewScheduler env a proposers (blk_Number parent) (blk_Timestamp parent) seed) in
      case schedule (blk_Signer b) of
        Inl e \<Rightarrow> Some (Inl e)
      | Inr sched \<Rightarrow>
          (case slot_times (pe_BlockInterval env) (blk_Timestamp parent + pe_BlockInterval env) (blk_Timestamp b) of
             None \<Rightarrow> None
           | Some slotTimes \<Rightarrow>
               (case missed_offline schedule (blk_Timestamp b) (blk_Signer b) validators of
                  Inl e \<Rightarrow> Some (Inl e)
                | Inr offline \<Rightarrow> Some (Inr (concat (map (missed_at sched proposers) slotTimes), offline)))))"

section \<open>FutureSlots\<close>

fun createSlotsProposers :: "Validation list \<Rightarrow> PosNode list" where
  "createSlotsProposers [] = []"
| "createSlotsProposers (v # vs) =
     (if v_Status v = StatusActive
      then \<lparr>pn_Master = v_Address v, pn_Endorsor = v_Endorser v, pn_Active = v_Online v, pn_Weight = v_Weight v\<rparr>
             # createSlotsProposers vs
      else createSlotsProposers vs)"

record FutureSlot =
  fs_Block :: u32
  fs_Signer :: address
  fs_Index :: u32

definition future_slot :: "pos_env \<Rightarrow> PosNode list \<Rightarrow> bytes \<Rightarrow> u32 \<Rightarrow> u32 \<Rightarrow> FutureSlot outcome" where
  "future_slot env proposers seed n i =
     bind_outcome (nth_or_panic (NextBlockProposersPoS (pe_slots env) proposers seed (n + i) 101) 0) (\<lambda>first.
       Ok \<lparr>fs_Block = n + i + 1, fs_Signer = fp_Master first, fs_Index = i + 1\<rparr>)"

fun future_slots :: "(u32 \<Rightarrow> FutureSlot outcome) \<Rightarrow> nat list \<Rightarrow> FutureSlot list outcome" where
  "future_slots slot [] = Ok []"
| "future_slots slot (i # is) =
     bind_outcome (slot (word_of_nat i)) (\<lambda>s. bind_outcome (future_slots slot is) (\<lambda>ss. Ok (s # ss)))"

definition predictable :: "u32 \<Rightarrow> u32 \<Rightarrow> u32" where
  "predictable epochLength n = epochLength - n mod epochLength - 1"

definition FutureSlots :: "pos_env \<Rightarrow> Validation list \<Rightarrow> Block \<Rightarrow> bytes \<Rightarrow> FutureSlot list outcome" where
  "FutureSlots env validators b seed =
     (if pe_EpochLength env = 0 then Panic DivideByZero
      else future_slots (future_slot env (createSlotsProposers validators) seed (blk_Number b))
        [0..<unat (predictable (pe_EpochLength env) (blk_Number b))])"

section \<open>Lemmas\<close>

lemma active_proposers_eq:
  "active_proposers vs = map (\<lambda>v. \<lparr>pp_Address = v_Address v, pp_Active = v_Online v, pp_Weight = v_Weight v\<rparr>)
     (filter (\<lambda>v. v_Status v = StatusActive) vs)"
  by (induction vs) auto

lemma active_addresses: "pp_Address ` set (active_proposers vs) = v_Address ` {v \<in> set vs. v_Status v = StatusActive}"
  by (simp add: active_proposers_eq image_image)

lemma missed_signers:
  "ms_Signer ` set (concat (map (missed_at sched ps) ts)) = {a \<in> pp_Address ` set ps. \<exists>t \<in> set ts. sched t a}"
proof -
  have "ms_Signer ` set (missed_at sched ps t) = {a \<in> pp_Address ` set ps. sched t a}" for t
    by (auto simp: missed_at_def image_image)
  then show ?thesis by (auto simp: image_UN)
qed

lemma createSlotsProposers_eq:
  "createSlotsProposers vs = map (\<lambda>v. \<lparr>pn_Master = v_Address v, pn_Endorsor = v_Endorser v, pn_Active = v_Online v,
     pn_Weight = v_Weight v\<rparr>) (filter (\<lambda>v. v_Status v = StatusActive) vs)"
  by (induction vs) auto

text \<open>The loop over the slots returns when the block's time leaves room for the last addition.\<close>

lemma slot_times_Some:
  assumes "0 < interval" and "unat stop + unat interval < 2 ^ 64"
  shows "\<exists>ts. slot_times interval i stop = Some ts \<and>
    set ts = {t. t < stop \<and> (\<exists>k. unat t = unat i + k * unat interval)}"
  using assms
proof (induction "unat stop - unat i" arbitrary: i rule: less_induct)
  case less
  let ?times = "\<lambda>i. {t. t < stop \<and> (\<exists>k. unat t = unat i + k * unat interval)}"
  show ?case
  proof (cases "i < stop")
    case False
    then have "?times i = {}" by (auto simp: word_less_nat_alt)
    with False show ?thesis by (simp add: slot_times.simps)
  next
    case True
    have sum: "unat (i + interval) = unat i + unat interval"
      using True less.prems by (intro unat_add_lem [THEN iffD1]) (simp add: word_less_nat_alt)
    have "0 < unat interval" using less.prems by (simp add: word_less_nat_alt)
    then have "unat stop - unat (i + interval) < unat stop - unat i"
      using True sum by (simp add: word_less_nat_alt)
    with less obtain ts where ts: "slot_times interval (i + interval) stop = Some ts" "set ts = ?times (i + interval)"
      by blast
    have "(\<exists>k. unat t = unat i + k * unat interval) \<longleftrightarrow>
        t = i \<or> (\<exists>k. unat t = unat (i + interval) + k * unat interval)" for t
    proof
      assume "\<exists>k. unat t = unat i + k * unat interval"
      then obtain k where k: "unat t = unat i + k * unat interval" ..
      show "t = i \<or> (\<exists>k. unat t = unat (i + interval) + k * unat interval)"
      proof (cases k)
        case 0
        with k show ?thesis by (simp add: word_unat_eq_iff)
      next
        case (Suc j)
        with k sum have "unat t = unat (i + interval) + j * unat interval" by simp
        then show ?thesis by blast
      qed
    next
      assume "t = i \<or> (\<exists>k. unat t = unat (i + interval) + k * unat interval)"
      then show "\<exists>k. unat t = unat i + k * unat interval"
      proof
        assume "t = i"
        then show ?thesis by (intro exI [of _ 0]) simp
      next
        assume "\<exists>k. unat t = unat (i + interval) + k * unat interval"
        then obtain k where "unat t = unat (i + interval) + k * unat interval" ..
        then show ?thesis using sum by (intro exI [of _ "Suc k"]) simp
      qed
    qed
    then have "?times i = {t. t < stop \<and> (t = i \<or> (\<exists>k. unat t = unat (i + interval) + k * unat interval))}"
      by (intro Collect_cong conj_cong refl)
    then have "?times i = insert i (?times (i + interval))" using True by blast
    then show ?thesis using True ts by (simp add: slot_times.simps [of interval i])
  qed
qed

text \<open>The slot times themselves, in order.\<close>

lemma slot_times_eq:
  assumes "unat stop + unat interval < 2 ^ 64" and "\<And>k. k < n \<Longrightarrow> unat i + k * unat interval < unat stop"
    and "unat stop \<le> unat i + n * unat interval"
  shows "slot_times interval i stop = Some (map (\<lambda>k. i + word_of_nat k * interval) [0..<n])"
  using assms(2,3)
proof (induction n arbitrary: i)
  case 0
  then have "\<not> i < stop" by (simp add: word_less_nat_alt)
  then show ?case by (simp add: slot_times.simps)
next
  case (Suc n)
  have less: "i < stop" using Suc.prems(1) [of 0] by (simp add: word_less_nat_alt)
  then have sum: "unat (i + interval) = unat i + unat interval"
    using assms(1) by (intro unat_add_lem [THEN iffD1]) (simp add: word_less_nat_alt)
  have "slot_times interval (i + interval) stop = Some (map (\<lambda>k. i + interval + word_of_nat k * interval) [0..<n])"
    by (rule Suc.IH) (use Suc.prems(1) [of "Suc k" for k] Suc.prems(2) in \<open>simp_all add: sum add.assoc\<close>)
  moreover have "map (\<lambda>k. i + word_of_nat k * interval) [0..<Suc n] =
      i # map (\<lambda>k. i + interval + word_of_nat k * interval) [0..<n]"
    unfolding upt_conv_Cons [OF zero_less_Suc] map_Suc_upt [symmetric] by (simp add: algebra_simps comp_def)
  ultimately show ?case using less by (simp add: slot_times.simps [of interval i])
qed

lemma missed_offline_eq:
  assumes "\<And>v. v \<in> set vs \<Longrightarrow> v_Status v = StatusActive \<Longrightarrow> v_OfflineBlock v = None \<Longrightarrow>
    schedule (v_Address v) = Inr (sched (v_Address v))"
  shows "missed_offline schedule now signer vs =
    Inr (map (\<lambda>v. \<lparr>ms_Signer = v_Address v, ms_WasOnline = False\<rparr>)
      (filter (\<lambda>v. v_Status v = StatusActive \<and> v_OfflineBlock v = None \<and> sched (v_Address v) now (v_Address v) \<and>
        signer \<noteq> v_Address v) vs))"
  using assms by (induction vs) auto

lemma missed_at_eq:
  "missed_at sched (active_proposers vs) t =
     map (\<lambda>v. \<lparr>ms_Signer = v_Address v, ms_WasOnline = False\<rparr>)
       (filter (\<lambda>v. v_Status v = StatusActive \<and> sched t (v_Address v)) vs)"
  by (induction vs) (auto simp: missed_at_def)

lemma missed_offline_sound:
  assumes "missed_offline schedule now signer vs = Inr missed" and "m \<in> set missed"
  shows "\<not> ms_WasOnline m \<and> ms_Signer m \<noteq> signer \<and>
    (\<exists>v \<in> set vs. v_Status v = StatusActive \<and> v_OfflineBlock v = None \<and> v_Address v = ms_Signer m)"
  using assms
proof (induction vs arbitrary: missed)
  case (Cons v vs)
  then show ?case by (auto split: if_splits sum.splits)
qed simp

lemma future_slots_Ok:
  "list_all (\<lambda>i. slot (word_of_nat i) = Ok (f i)) is \<Longrightarrow> future_slots slot is = Ok (map f is)"
  by (induction "is") auto

lemma first_proposer:
  assumes "eligible p" and "p \<in> set nodes"
  shows "\<exists>q ps. NextBlockProposersPoS env nodes seed n 101 = q # ps"
proof -
  have "p \<in># mset (filter eligible nodes)" using assms by simp
  then have "shufflePosNodes env nodes seed n \<noteq> []"
    using mset_shufflePosNodes [of env nodes seed n] by (metis set_mset_mset empty_iff list.set(1))
  then have "length (NextBlockProposersPoS env nodes seed n 101) \<noteq> 0"
    by (simp add: NextBlockProposersPoS_def number_proposers_simps)
  then show ?thesis by (cases "NextBlockProposersPoS env nodes seed n 101") auto
qed

text \<open>The first proposer has the lowest score.\<close>

lemma first_proposer_lowest:
  assumes "env_laws env" and "NextBlockProposersPoS env nodes seed n m = q # ps"
  defines "score \<equiv> \<lambda>k. node_score env (sv_Blake2b env (seed @ put_uint32 n)) k (pn_Weight (nodes ! k))"
  shows "\<exists>k < length nodes. eligible (nodes ! k) \<and> pn_Master (nodes ! k) = fp_Master q \<and>
    (\<forall>j < length nodes. eligible (nodes ! j) \<longrightarrow> score k \<le> score j)"
proof -
  let ?es = "pos_entries env (sv_Blake2b env (seed @ put_uint32 n)) 0 nodes"
  have masters: "map fp_Master (q # ps) = take m (map (\<lambda>e. pn_Master (fst e)) (sort_entries ?es))"
    unfolding assms(2) [symmetric]
    by (simp add: NextBlockProposersPoS_def shufflePosNodes_entries number_proposers_simps comp_def ToAuthorityNode_def)
  then obtain e es where es: "sort_entries ?es = e # es" "pn_Master (fst e) = fp_Master q"
    by (cases "sort_entries ?es"; cases m) auto
  have set_es: "set (e # es) = {(nodes ! k, score k) | k. k < length nodes \<and> eligible (nodes ! k)}"
    using mset_eq_setD [OF mset_sort_entries, of ?es] unfolding es(1) by (simp add: set_pos_entries score_def)
  have ok: "\<forall>x \<in> set (e # es). snd x \<noteq> NaN"
    using pos_entries_not_NaN [OF assms(1)] mset_eq_setD [OF mset_sort_entries, of ?es] unfolding es(1) by metis
  have "sorted_wrt (\<lambda>a b. snd a \<le> snd b) (e # es)"
    using sorted_sort_entries [OF pos_entries_not_NaN [OF assms(1)]] unfolding es(1) [symmetric] .
  then have low: "snd e \<le> snd x" if "x \<in> set (e # es)" for x
    using that ok f64_le_refl by auto
  have "e \<in> set (e # es)" by simp
  then obtain k where k: "e = (nodes ! k, score k)" "k < length nodes" "eligible (nodes ! k)" unfolding set_es by blast
  have "score k \<le> score j" if "j < length nodes" "eligible (nodes ! j)" for j
    using low [of "(nodes ! j, score j)"] that k(1) unfolding set_es by auto
  then show ?thesis using k es(2) by auto
qed

lemma no_first_proposer:
  "list_all (\<lambda>p. \<not> eligible p) nodes \<Longrightarrow> NextBlockProposersPoS env nodes seed n m = []"
proof -
  assume "list_all (\<lambda>p. \<not> eligible p) nodes"
  then have "filter eligible nodes = []" by (induction nodes) auto
  then have "shufflePosNodes env nodes seed n = []" using mset_shufflePosNodes [of env nodes seed n] by simp
  then show ?thesis by (simp add: NextBlockProposersPoS_def number_proposers_def)
qed

text \<open>The slots that can be predicted are the blocks left in the epoch.\<close>

lemma unat_predictable:
  assumes "0 < epochLength"
  shows "unat (predictable epochLength n) = (unat n div unat epochLength + 1) * unat epochLength - (unat n + 1)"
proof -
  let ?e = "unat epochLength"
  have "0 < ?e" using assms by (simp add: word_less_nat_alt)
  then have m: "unat n mod ?e < ?e" by simp
  have "unat (epochLength - n mod epochLength) = ?e - unat n mod ?e"
    using m by (simp add: unat_sub unat_mod_distrib word_le_nat_alt)
  then have "unat (predictable epochLength n) = ?e - unat n mod ?e - 1"
    unfolding predictable_def using m by (subst unat_sub) (simp_all add: word_le_nat_alt)
  moreover have "(unat n div ?e + 1) * ?e = unat n - unat n mod ?e + ?e"
    by (simp add: minus_mod_eq_div_mult [symmetric])
  moreover have "unat n mod ?e \<le> unat n" by simp
  ultimately show ?thesis using m by linarith
qed

lemma future_numbers:
  assumes "0 < epochLength" and "unat n + unat epochLength < 2 ^ 32" and "i < unat (predictable epochLength (n :: u32))"
  shows "unat (n + word_of_nat i + 1) = unat n + i + 1" and "unat (word_of_nat i + 1 :: u32) = i + 1"
proof -
  have "unat (predictable epochLength n) < unat epochLength"
  proof -
    have "unat n < (unat n div unat epochLength + 1) * unat epochLength"
      using assms(1) dividend_less_div_times [of "unat epochLength" "unat n"] by (simp add: word_less_nat_alt)
    moreover have "unat n div unat epochLength * unat epochLength \<le> unat n" by (rule div_times_less_eq_dividend)
    ultimately show ?thesis unfolding unat_predictable [OF assms(1)] by (auto simp del: div_times_less_eq_dividend)
  qed
  then have i: "unat n + i + 1 < 2 ^ 32" using assms(2,3) by linarith
  then have "n + word_of_nat i + 1 = word_of_nat (unat n + i + 1)" by simp
  then show "unat (n + word_of_nat i + 1) = unat n + i + 1"
    using i by (simp only: unat_of_nat) simp
  have "word_of_nat i + 1 = (word_of_nat (i + 1) :: u32)" by simp
  then show "unat (word_of_nat i + 1 :: u32) = i + 1"
    using i by (simp only: unat_of_nat) simp
qed

lemma no_slots:
  assumes "0 < epochLength"
  shows "unat (predictable epochLength n) = 0 \<longleftrightarrow> (unat n + 1) mod unat epochLength = 0"
proof -
  let ?e = "unat epochLength"
  have e: "0 < ?e" using assms by (simp add: word_less_nat_alt)
  then have lt: "unat n < (unat n div ?e + 1) * ?e" using dividend_less_div_times [of ?e "unat n"] by simp
  have "(unat n + 1) mod ?e = 0 \<longleftrightarrow> unat n + 1 = (unat n div ?e + 1) * ?e"
  proof
    assume "(unat n + 1) mod ?e = 0"
    then obtain k where k: "unat n + 1 = k * ?e" by (metis mod_0_imp_dvd dvd_div_mult_self)
    then obtain j where j: "k = Suc j" by (cases k) auto
    with k e have n: "unat n = (?e - 1) + j * ?e" by simp
    have "unat n div ?e = j" unfolding n by (subst div_mult_self1) (use e in simp_all)
    with k j show "unat n + 1 = (unat n div ?e + 1) * ?e" by simp
  next
    assume "unat n + 1 = (unat n div ?e + 1) * ?e"
    then show "(unat n + 1) mod ?e = 0" by (metis mod_mult_self2_is_0)
  qed
  then show ?thesis unfolding unat_predictable [OF assms] using lt by auto
qed

section \<open>Properties\<close>

text \<open>C33: Below the end of time the search for missed slots ends, and its two lists are these. The first goes through the
  slot times strictly between the parent and the block, one interval apart and in order, and names for each of them the
  active validators that the scheduler of the block's signer has at that time, in their order. The second names the
  active validators without an offline block, other than the signer, whom a scheduler made for them has at the
  block's own time.\<close>

theorem MissedSlots_online:
  assumes "0 < pe_BlockInterval env" and "unat (blk_Timestamp b) + unat (pe_BlockInterval env) < 2 ^ 64"
    and "blk_Timestamp parent < blk_Timestamp b"
    and "\<And>a. a = blk_Signer b \<or> (\<exists>v \<in> set vs. v_Address v = a \<and> v_Status v = StatusActive \<and> v_OfflineBlock v = None) \<Longrightarrow>
      pe_NewScheduler env a (active_proposers vs) (blk_Number parent) (blk_Timestamp parent) seed = Inr (sched a)"
  defines "slot \<equiv> \<lambda>k. blk_Timestamp parent + word_of_nat k * pe_BlockInterval env"
    and "missed \<equiv> \<lambda>v. \<lparr>ms_Signer = v_Address v, ms_WasOnline = False\<rparr>"
  shows "MissedSlots env parent vs b seed = Some (Inr
    (concat (map (\<lambda>k. map missed (filter (\<lambda>v. v_Status v = StatusActive \<and> sched (blk_Signer b) (slot k) (v_Address v)) vs))
       [1..<(unat (blk_Timestamp b) - unat (blk_Timestamp parent) - 1) div unat (pe_BlockInterval env) + 1]),
     map missed (filter (\<lambda>v. v_Status v = StatusActive \<and> v_OfflineBlock v = None \<and>
       sched (v_Address v) (blk_Timestamp b) (v_Address v) \<and> blk_Signer b \<noteq> v_Address v) vs)))"
proof -
  let ?i = "pe_BlockInterval env" and ?p = "blk_Timestamp parent" and ?t = "blk_Timestamp b"
  define n where "n = (unat ?t - unat ?p - 1) div unat ?i"
  have i: "0 < unat ?i" and less: "unat ?p < unat ?t" using assms(1,3) by (simp_all add: word_less_nat_alt)
  have sum: "unat (?p + ?i) = unat ?p + unat ?i"
    using assms(2) less by (intro unat_add_lem [THEN iffD1]) simp
  have upper: "unat ?t \<le> unat (?p + ?i) + n * unat ?i"
    using dividend_less_div_times [OF i, of "unat ?t - unat ?p - 1"] less unfolding n_def sum by linarith
  have lower: "unat (?p + ?i) + k * unat ?i < unat ?t" if "k < n" for k
  proof -
    have "Suc k * unat ?i \<le> n * unat ?i" using that by (intro mult_le_mono1) simp
    also have "\<dots> \<le> unat ?t - unat ?p - 1" unfolding n_def by (rule div_times_less_eq_dividend)
    finally show ?thesis using less unfolding sum by simp
  qed
  have "slot_times ?i (?p + ?i) ?t = Some (map (\<lambda>k. ?p + ?i + word_of_nat k * ?i) [0..<n])"
    using slot_times_eq [OF assms(2) lower upper] .
  moreover have "map slot [1..<n + 1] = map slot (map Suc [0..<n])" by (simp add: map_Suc_upt del: upt_Suc map_map)
  then have "map (\<lambda>k. ?p + ?i + word_of_nat k * ?i) [0..<n] = map slot [1..<n + 1]"
    by (simp add: slot_def algebra_simps comp_def del: upt_Suc)
  ultimately have times: "slot_times ?i (?p + ?i) ?t = Some (map slot [1..<n + 1])" by simp
  define schedule where "schedule a = pe_NewScheduler env a (active_proposers vs) (blk_Number parent) ?p seed" for a
  have "schedule (v_Address v) = Inr (sched (v_Address v))"
    if "v \<in> set vs" "v_Status v = StatusActive" "v_OfflineBlock v = None" for v
    unfolding schedule_def by (rule assms(4)) (use that in auto)
  from missed_offline_eq [where schedule = schedule and sched = sched and vs = vs and now = ?t and signer = "blk_Signer b", OF this]
  have offline: "missed_offline schedule ?t (blk_Signer b) vs =
      Inr (map missed (filter (\<lambda>v. v_Status v = StatusActive \<and> v_OfflineBlock v = None \<and>
        sched (v_Address v) ?t (v_Address v) \<and> blk_Signer b \<noteq> v_Address v) vs))"
    unfolding missed_def by blast
  have same: "(\<lambda>a. pe_NewScheduler env a (active_proposers vs) (blk_Number parent) ?p seed) = schedule"
    by (simp add: schedule_def fun_eq_iff)
  have "pe_NewScheduler env (blk_Signer b) (active_proposers vs) (blk_Number parent) ?p seed = Inr (sched (blk_Signer b))"
    by (rule assms(4)) simp
  then show ?thesis
    unfolding MissedSlots_def Let_def same times offline n_def [symmetric]
    by (simp add: missed_at_eq comp_def missed_def del: upt_Suc)
qed

text \<open>Whoever is reported as having missed a slot while offline was in fact online: the loop over the
  offline validators skips exactly those.\<close>

theorem missed_offline_are_online:
  assumes "MissedSlots env parent vs b seed = Some (Inr (online, offline))" and "m \<in> set offline"
  shows "\<exists>v \<in> set vs. v_Address v = ms_Signer m \<and> v_Status v = StatusActive \<and> v_OfflineBlock v = None \<and>
    ms_Signer m \<noteq> blk_Signer b"
proof -
  from assms(1) have "missed_offline (\<lambda>a. pe_NewScheduler env a (active_proposers vs) (blk_Number parent)
      (blk_Timestamp parent) seed) (blk_Timestamp b) (blk_Signer b) vs = Inr offline"
    by (auto simp: MissedSlots_def Let_def split: sum.splits option.splits)
  from missed_offline_sound [OF this assms(2)] show ?thesis by blast
qed

text \<open>C34: As long as one active validator is online with weight, the future slots are the blocks left in the
  epoch, numbered from one on. The signer of each is an active online validator that has the lowest score among
  all of them in the draw that is seeded with the number of that slot's parent; without any such validator
  the prediction panics, unless the block is the last of its epoch.\<close>

theorem FutureSlots_epoch:
  fixes vs :: "Validation list" and seed :: bytes
  assumes "0 < pe_EpochLength env" and "unat (blk_Number b) + unat (pe_EpochLength env) < 2 ^ 32" and "env_laws (pe_slots env)"
  defines "nodes \<equiv> createSlotsProposers vs"
    and "score \<equiv> \<lambda>parent k. node_score (pe_slots env) (sv_Blake2b (pe_slots env) (seed @ put_uint32 parent)) k
      (pn_Weight (createSlotsProposers vs ! k))"
  shows "if \<exists>v \<in> set vs. v_Status v = StatusActive \<and> v_Online v \<and> v_Weight v \<noteq> 0
    then \<exists>fs. FutureSlots env vs b seed = Ok fs \<and>
      map (\<lambda>f. unat (fs_Block f)) fs =
        [unat (blk_Number b) + 1..<(unat (blk_Number b) div unat (pe_EpochLength env) + 1) * unat (pe_EpochLength env)] \<and>
      map (\<lambda>f. unat (fs_Index f)) fs = [1..<length fs + 1] \<and>
      (\<forall>f \<in> set fs. (\<exists>v \<in> set vs. v_Address v = fs_Signer f \<and> v_Status v = StatusActive \<and> v_Online v) \<and>
        (\<exists>k < length nodes. eligible (nodes ! k) \<and> pn_Master (nodes ! k) = fs_Signer f \<and>
          (\<forall>j < length nodes. eligible (nodes ! j) \<longrightarrow> score (fs_Block f - 1) k \<le> score (fs_Block f - 1) j)))
    else FutureSlots env vs b seed =
      (if (unat (blk_Number b) + 1) mod unat (pe_EpochLength env) = 0 then Ok [] else Panic IndexOutOfRange)"
proof (cases "\<exists>v \<in> set vs. v_Status v = StatusActive \<and> v_Online v \<and> v_Weight v \<noteq> 0")
  case True
  let ?slots = "[0..<unat (predictable (pe_EpochLength env) (blk_Number b))]"
  let ?first = "\<lambda>i. hd (NextBlockProposersPoS (pe_slots env) (createSlotsProposers vs) seed (blk_Number b + word_of_nat i) 101)"
  define f where "f i = \<lparr>fs_Block = blk_Number b + word_of_nat i + 1, fs_Signer = fp_Master (?first i),
    fs_Index = word_of_nat i + 1\<rparr>" for i
  from True obtain v where v: "v \<in> set vs" "v_Status v = StatusActive" "v_Online v" "v_Weight v \<noteq> 0" by blast
  define p where "p = \<lparr>pn_Master = v_Address v, pn_Endorsor = v_Endorser v, pn_Active = v_Online v, pn_Weight = v_Weight v\<rparr>"
  have p: "p \<in> set (createSlotsProposers vs)" "eligible p"
    using v by (simp_all add: p_def createSlotsProposers_eq eligible_def)
  have first: "?first i \<in> set (NextBlockProposersPoS (pe_slots env) (createSlotsProposers vs) seed (blk_Number b + word_of_nat i) 101)"
    and "future_slot env (createSlotsProposers vs) seed (blk_Number b) (word_of_nat i) = Ok (f i)" for i
    using first_proposer [OF p(2,1), of "pe_slots env" seed "blk_Number b + word_of_nat i"]
    by (auto simp: future_slot_def f_def nth_or_panic_def)
  then have F: "FutureSlots env vs b seed = Ok (map f ?slots)"
    using assms(1) by (simp add: FutureSlots_def future_slots_Ok list_all_iff)
  have lowest: "\<exists>k < length nodes. eligible (nodes ! k) \<and> pn_Master (nodes ! k) = fs_Signer (f i) \<and>
      (\<forall>j < length nodes. eligible (nodes ! j) \<longrightarrow> score (fs_Block (f i) - 1) k \<le> score (fs_Block (f i) - 1) j)" for i
  proof -
    obtain q ps where q: "NextBlockProposersPoS (pe_slots env) nodes seed (blk_Number b + word_of_nat i) 101 = q # ps"
      using first_proposer [OF p(2,1), folded nodes_def] by blast
    then show ?thesis using first_proposer_lowest [OF assms(3) q]
      unfolding f_def score_def nodes_def by simp
  qed
  have num: "unat (blk_Number b + word_of_nat i + 1) = unat (blk_Number b) + i + 1"
    "unat (word_of_nat i + 1 :: u32) = i + 1" if "i < unat (predictable (pe_EpochLength env) (blk_Number b))" for i
    using future_numbers [OF assms(1,2) that] by simp_all
  have next_epoch: "unat (predictable (pe_EpochLength env) (blk_Number b)) + (unat (blk_Number b) + 1) =
      (unat (blk_Number b) div unat (pe_EpochLength env) + 1) * unat (pe_EpochLength env)"
    using assms(1) dividend_less_div_times [of "unat (pe_EpochLength env)" "unat (blk_Number b)"]
    by (simp add: unat_predictable word_less_nat_alt)
  have "map (\<lambda>f. unat (fs_Block f)) (map f ?slots) = map (\<lambda>i. i + (unat (blk_Number b) + 1)) ?slots"
    using num(1) by (simp add: f_def)
  then have "map (\<lambda>f. unat (fs_Block f)) (map f ?slots) = [unat (blk_Number b) + 1..<(unat (blk_Number b) div unat (pe_EpochLength env) + 1) * unat (pe_EpochLength env)]"
    using next_epoch by (simp only: map_add_upt add_0)
  moreover have "map (\<lambda>f. unat (fs_Index f)) (map f ?slots) = map (\<lambda>i. i + 1) ?slots"
    using num(2) by (simp add: f_def)
  then have "map (\<lambda>f. unat (fs_Index f)) (map f ?slots) = [1..<length (map f ?slots) + 1]"
    by (simp only: map_add_upt length_map length_upt) simp
  moreover have "\<exists>v \<in> set vs. v_Address v = fs_Signer (f i) \<and> v_Status v = StatusActive \<and> v_Online v" for i
    using NextBlockProposersPoS_mem [OF first] by (auto simp: f_def createSlotsProposers_eq eligible_def)
  ultimately show ?thesis using True F lowest by auto
next
  case False
  then have "list_all (\<lambda>p. \<not> eligible p) (createSlotsProposers vs)" by (auto simp: createSlotsProposers_eq eligible_def list_all_iff)
  then have "future_slot env (createSlotsProposers vs) seed (blk_Number b) i = Panic IndexOutOfRange" for i
    by (simp add: future_slot_def no_first_proposer nth_or_panic_def)
  then have "future_slots (future_slot env (createSlotsProposers vs) seed (blk_Number b)) is = (if is = [] then Ok [] else Panic IndexOutOfRange)" for "is"
    by (cases "is") simp_all
  then have "FutureSlots env vs b seed =
      (if unat (predictable (pe_EpochLength env) (blk_Number b)) = 0 then Ok [] else Panic IndexOutOfRange)"
    using assms(1) by (auto simp: FutureSlots_def)
  then show ?thesis using False no_slots [OF assms(1)] by auto
qed

section \<open>Sample instances\<close>

text \<open>A scheduler that has validator 1 at every time.\<close>

definition sample_pos_env :: pos_env where
  "sample_pos_env = \<lparr>pe_slots = sample_slot_env, pe_NewScheduler = \<lambda>a ps n t seed. Inr (\<lambda>time b. b = Address 1),
     pe_BlockInterval = 10, pe_EpochLength = 180\<rparr>"

definition late_block :: Block where
  "late_block = main2\<lparr>blk_Timestamp := 45\<rparr>"

lemma late_block_simps [simp]: "blk_Timestamp late_block = 45" "blk_Number late_block = 2"
  "blk_Signer late_block = Address 7" "blk_Timestamp main1 = 10"
  by (simp_all add: late_block_def sample_blocks)

lemma sample_validation_simps [simp]:
  "v_Address (sample_validation a b) = Address a" "v_Status (sample_validation a b) = StatusActive"
  "v_Online (sample_validation a b) = b" "v_Weight (sample_validation a b) = 75"
  "v_OfflineBlock (sample_validation a b) = (if b then None else Some 5)"
  by (simp_all add: sample_validation_def)

text \<open>Between time 10 and time 45 there are three slots, and validator 1 is missed in each.\<close>

theorem MissedSlots_online_witness:
  "MissedSlots sample_pos_env main1 [sample_validation 1 True, sample_validation 2 True] late_block [] =
     Some (Inr (replicate 3 \<lparr>ms_Signer = Address 1, ms_WasOnline = False\<rparr>, [\<lparr>ms_Signer = Address 1, ms_WasOnline = False\<rparr>]))"
  using MissedSlots_online [of sample_pos_env late_block main1 "[sample_validation 1 True, sample_validation 2 True]" "[]"
      "\<lambda>a time b. b = Address 1"]
  by (simp add: sample_pos_env_def word_less_nat_alt upt_rec numeral_3_eq_3)

theorem missed_offline_are_online_witness:
  "\<exists>online offline. MissedSlots sample_pos_env main1 [sample_validation 1 True] late_block [] = Some (Inr (online, offline)) \<and>
     map ms_Signer offline = [Address 1] \<and> (\<exists>v \<in> {sample_validation 1 True}. v_OfflineBlock v = None)"
proof -
  obtain r where r: "MissedSlots sample_pos_env main1 [sample_validation 1 True] late_block [] = Some r"
    using slot_times_Some [of 10 45 20] by (auto simp: MissedSlots_def sample_pos_env_def)
  then obtain online where o: "MissedSlots sample_pos_env main1 [sample_validation 1 True] late_block [] =
      Some (Inr (online, [\<lparr>ms_Signer = Address 1, ms_WasOnline = False\<rparr>]))"
    by (auto simp: MissedSlots_def sample_pos_env_def split: option.splits)
  from missed_offline_are_online [OF o] have "\<exists>v \<in> {sample_validation 1 True}. v_OfflineBlock v = None" by auto
  with o show ?thesis by auto
qed

theorem FutureSlots_epoch_witness:
  "\<exists>fs. FutureSlots sample_pos_env [sample_validation 1 True] (main2\<lparr>blk_Number := 177\<rparr>) [] = Ok fs \<and>
     map (\<lambda>f. unat (fs_Block f)) fs = [178, 179] \<and> (\<forall>f \<in> set fs. fs_Signer f = Address 1)"
proof -
  have "0 < pe_EpochLength sample_pos_env" "unat (blk_Number (main2\<lparr>blk_Number := 177\<rparr>)) + unat (pe_EpochLength sample_pos_env) < 2 ^ 32"
    "env_laws (pe_slots sample_pos_env)"
    by (simp_all add: sample_pos_env_def word_less_nat_alt sample_slot_env_laws)
  from FutureSlots_epoch [OF this, of "[sample_validation 1 True]" "[]"] show ?thesis
    by (auto simp: sample_pos_env_def upt_rec)
qed

end
