(* ===== verification/PosEvents.thy ===== *)
theory PosEvents
  imports PosStaker
begin

text \<open>
  \<^verbatim>\<open>stats/pos/event_processors.go\<close>: the points made of the logs of the staker contract.
  The contract's ABI and the contract calls of the thor client are parameters; a cast that fails
  returns no point and no error, because \<open>err\<close> is nil there. Go maps are walked in any order: the
  orders are arguments.
\<close>

section \<open>The libraries\<close>

record abi_event =
  ab_Name :: string
  ab_UnpackValues :: "bytes \<Rightarrow> gerror + abi_value list"

record Delegation =
  dl_Validator :: address
  dl_Stake :: int
  dl_Multiplier :: u8

record DelegationPeriod =
  dp_StartPeriod :: u32
  dp_EndPeriod :: u32

record ValidationPeriod =
  vp_Period :: u32
  vp_StartBlock :: u32
  vp_CompletedPeriods :: u32

text \<open>The calls of the staker contract at a revision.\<close>

record 'w staker_api =
  sa_GetDelegation :: "bytes32 \<Rightarrow> int \<Rightarrow> 'w \<Rightarrow> (gerror + Delegation) \<times> 'w"
  sa_GetDelegationPeriodDetails :: "bytes32 \<Rightarrow> int \<Rightarrow> 'w \<Rightarrow> (gerror + DelegationPeriod) \<times> 'w"
  sa_GetValidation :: "bytes32 \<Rightarrow> address \<Rightarrow> 'w \<Rightarrow> (gerror + status) \<times> 'w"
  sa_GetValidationPeriodDetails :: "bytes32 \<Rightarrow> address \<Rightarrow> 'w \<Rightarrow> (gerror + ValidationPeriod) \<times> 'w"

record 'w event_env =
  ee_codec :: codec
  ee_staker :: "'w staker_api"
  ee_logs :: "(bytes32, JSONEvent list) gomap \<Rightarrow> (bytes32 \<times> JSONEvent list) list"
  ee_counts :: "(string, nat) gomap \<Rightarrow> (string \<times> nat) list"

section \<open>Reading a log\<close>

definition BytesToAddress :: "bytes32 \<Rightarrow> address" where
  "BytesToAddress h = Address (ucast (b32_word h))"

definition topic :: "JSONEvent \<Rightarrow> nat \<Rightarrow> bytes32 outcome" where
  "topic ev i = nth_or_panic (ev_Topics ev) i"

definition delegation_id :: "bytes32 \<Rightarrow> int" where
  "delegation_id h = int (be_nat (bytes32_bytes h))"

definition unpack_log :: "codec \<Rightarrow> JSONEvent \<Rightarrow> abi_event \<Rightarrow> abi_value list outcome" where
  "unpack_log cd ev abi = bind_outcome (MustDecode cd (ev_Data ev)) (\<lambda>bs. of_sum (ab_UnpackValues abi bs))"

fun as_thor_address :: "abi_value \<Rightarrow> address option" where
  "as_thor_address (AbiThorAddress a) = Some a"
| "as_thor_address _ = None"

fun as_uint32 :: "abi_value \<Rightarrow> u32 option" where
  "as_uint32 (AbiUint32 x) = Some x"
| "as_uint32 _ = None"

fun as_uint8 :: "abi_value \<Rightarrow> u8 option" where
  "as_uint8 (AbiUint8 x) = Some x"
| "as_uint8 _ = None"

fun as_big :: "abi_value \<Rightarrow> int option" where
  "as_big (AbiBig x) = Some x"
| "as_big _ = None"

text \<open>\<open>x, ok := out[i].(T)\<close>, returning \<open>nil, err\<close> with the nil error when the cast fails.\<close>

definition with_cast ::
  "abi_value list \<Rightarrow> nat \<Rightarrow> (abi_value \<Rightarrow> 'a option) \<Rightarrow> ('a \<Rightarrow> point option outcome) \<Rightarrow> point option outcome" where
  "with_cast out i cast f =
     bind_outcome (nth_or_panic out i) (\<lambda>v. case cast v of None \<Rightarrow> Ok None | Some x \<Rightarrow> f x)"

definition mk_point :: "string \<Rightarrow> (string, val) gomap \<Rightarrow> (fkey, val) gomap \<Rightarrow> int \<Rightarrow> point option outcome" where
  "mk_point m tags fs t = Ok (Some \<lparr>pt_Measurement = m, pt_Tags = tags, pt_Fields = fs, pt_Time = t\<rparr>)"

definition delegation_weight :: "u8 \<Rightarrow> int \<Rightarrow> int" where
  "delegation_weight multiplier stake = uint multiplier * stake div 100"

section \<open>The processors that only read the log\<close>

definition processBeneficiarySet :: "codec \<Rightarrow> JSONEvent \<Rightarrow> abi_event \<Rightarrow> int \<Rightarrow> point option outcome" where
  "processBeneficiarySet cd ev abi t =
     bind_outcome (topic ev 1) (\<lambda>validator.
     bind_outcome (unpack_log cd ev abi) (\<lambda>out.
     with_cast out 0 as_thor_address (\<lambda>beneficiary.
       mk_point ''beneficiary_set''
         [(''validator'', VAddr (BytesToAddress validator)), (''beneficiary'', VAddr beneficiary)]
         [(KStr ''null'', VBool True)] t)))"

definition processValidationQueued :: "codec \<Rightarrow> JSONEvent \<Rightarrow> abi_event \<Rightarrow> int \<Rightarrow> point option outcome" where
  "processValidationQueued cd ev abi t =
     bind_outcome (topic ev 1) (\<lambda>validator.
     bind_outcome (topic ev 2) (\<lambda>endorsor.
     bind_outcome (unpack_log cd ev abi) (\<lambda>out.
     with_cast out 0 as_uint32 (\<lambda>period.
     with_cast out 1 as_big (\<lambda>stake.
       mk_point ''validation_queued''
         [(''validator'', VAddr (BytesToAddress validator)), (''endorsor'', VAddr (BytesToAddress endorsor))]
         [(KStr ''period'', VU32 period), (KStr ''stake'', VU64 (ScaleToVET (Some stake)))] t)))))"

definition processValidationWithdrawn :: "codec \<Rightarrow> JSONEvent \<Rightarrow> abi_event \<Rightarrow> int \<Rightarrow> point option outcome" where
  "processValidationWithdrawn cd ev abi t =
     bind_outcome (topic ev 1) (\<lambda>validator.
     bind_outcome (unpack_log cd ev abi) (\<lambda>out.
     with_cast out 0 as_big (\<lambda>stake.
       mk_point ''validation_withdrawn'' [(''validator'', VAddr (BytesToAddress validator))]
         [(KStr ''stake'', VU64 (ScaleToVET (Some stake)))] t)))"

definition processValidationSignaledExit :: "JSONEvent \<Rightarrow> int \<Rightarrow> point option outcome" where
  "processValidationSignaledExit ev t =
     bind_outcome (topic ev 1) (\<lambda>validator.
       mk_point ''validation_signaled_exit'' [(''validator'', VAddr (BytesToAddress validator))]
         [(KStr ''null'', VBool True)] t)"

definition processStakeIncreased :: "codec \<Rightarrow> JSONEvent \<Rightarrow> abi_event \<Rightarrow> int \<Rightarrow> point option outcome" where
  "processStakeIncreased cd ev abi t =
     bind_outcome (topic ev 1) (\<lambda>validator.
     bind_outcome (unpack_log cd ev abi) (\<lambda>out.
     with_cast out 0 as_big (\<lambda>added.
       mk_point ''stake_increased'' [(''validator'', VAddr (BytesToAddress validator))]
         [(KStr ''added'', VBig added)] t)))"

definition processStakeDecreased :: "codec \<Rightarrow> JSONEvent \<Rightarrow> abi_event \<Rightarrow> int \<Rightarrow> point option outcome" where
  "processStakeDecreased cd ev abi t =
     bind_outcome (topic ev 1) (\<lambda>validator.
     bind_outcome (unpack_log cd ev abi) (\<lambda>out.
     with_cast out 0 as_big (\<lambda>removed.
       mk_point ''stake_decreased'' [(''validator'', VAddr (BytesToAddress validator))]
         [(KStr ''removed'', VBig removed)] t)))"

section \<open>The processors that ask the contract\<close>

definition processDelegationAdded ::
  "'w event_env \<Rightarrow> bytes32 \<Rightarrow> JSONEvent \<Rightarrow> abi_event \<Rightarrow> int \<Rightarrow> 'w \<Rightarrow> point option outcome \<times> 'w" where
  "processDelegationAdded env revision ev abi t w =
     bindW (topic ev 1, w) (\<lambda>validator w.
     bindW (topic ev 2, w) (\<lambda>delegationID w.
     bindW (callW (sa_GetDelegationPeriodDetails (ee_staker env) revision (delegation_id delegationID) w)) (\<lambda>delegation w.
     (bind_outcome (unpack_log (ee_codec env) ev abi) (\<lambda>out.
      with_cast out 0 as_big (\<lambda>stake.
      with_cast out 1 as_uint8 (\<lambda>multiplier.
        mk_point ''delegation_added''
          [(''validator'', VAddr (BytesToAddress validator)), (''delegation_id'', VBig (delegation_id delegationID))]
          [(KStr ''stake'', VU64 (ScaleToVET (Some stake))), (KStr ''multiplier'', VU8 multiplier),
           (KStr ''weight'', VU64 (ScaleToVET (Some (delegation_weight multiplier stake)))),
           (KStr ''start_period'', VU32 (dp_StartPeriod delegation))] t))), w))))"

definition validation_current :: "status \<Rightarrow> u32 \<Rightarrow> u32" where
  "validation_current status completed = (if status = StatusActive then completed + 1 else completed)"

definition processDelegationWithdrawn ::
  "'w event_env \<Rightarrow> bytes32 \<Rightarrow> JSONEvent \<Rightarrow> abi_event \<Rightarrow> int \<Rightarrow> 'w \<Rightarrow> point option outcome \<times> 'w" where
  "processDelegationWithdrawn env revision ev abi t w =
     (let st = ee_staker env in
      bindW (topic ev 1, w) (\<lambda>delegationID w.
      bindW (callW (sa_GetDelegation st revision (delegation_id delegationID) w)) (\<lambda>delegation w.
      bindW (callW (sa_GetDelegationPeriodDetails st revision (delegation_id delegationID) w)) (\<lambda>details w.
      bindW (callW (sa_GetValidation st revision (dl_Validator delegation) w)) (\<lambda>status w.
      bindW (callW (sa_GetValidationPeriodDetails st revision (dl_Validator delegation) w)) (\<lambda>complete w.
      (bind_outcome (unpack_log (ee_codec env) ev abi) (\<lambda>out.
       with_cast out 0 as_big (\<lambda>stake.
         mk_point ''delegation_withdrawn''
           [(''validator'', VAddr (dl_Validator delegation)), (''delegation_id'', VBig (delegation_id delegationID))]
           [(KStr ''stake'', VU64 (ScaleToVET (Some stake))), (KStr ''multiplier'', VU8 (dl_Multiplier delegation)),
            (KStr ''weight'', VU64 (ScaleToVET (Some (delegation_weight (dl_Multiplier delegation) stake)))),
            (KStr ''started'', VStr (FormatBool (dp_StartPeriod details < validation_current status (vp_CompletedPeriods complete)))),
            (KStr ''block'', VU32 (id_uint32 revision))] t)), w)))))))"

definition delegation_exit_block :: "ValidationPeriod \<Rightarrow> DelegationPeriod \<Rightarrow> u32" where
  "delegation_exit_block v d = vp_StartBlock v + vp_Period v * dp_EndPeriod d"

definition processDelegationSignaledExit ::
  "'w event_env \<Rightarrow> bytes32 \<Rightarrow> JSONEvent \<Rightarrow> int \<Rightarrow> 'w \<Rightarrow> point option outcome \<times> 'w" where
  "processDelegationSignaledExit env revision ev t w =
     (let st = ee_staker env in
      bindW (topic ev 1, w) (\<lambda>delegationID w.
      bindW (callW (sa_GetDelegation st revision (delegation_id delegationID) w)) (\<lambda>delegation w.
      bindW (callW (sa_GetDelegationPeriodDetails st revision (delegation_id delegationID) w)) (\<lambda>details w.
      bindW (callW (sa_GetValidationPeriodDetails st revision (dl_Validator delegation) w)) (\<lambda>validation w.
      (mk_point ''delegation_signaled_exit''
         [(''validator'', VAddr (dl_Validator delegation)), (''delegation_id'', VBig (delegation_id delegationID))]
         [(KStr ''exit_period'', VU32 (dp_EndPeriod details)), (KStr ''first_period'', VU32 (dp_StartPeriod details)),
          (KStr ''exit_block'', VU32 (delegation_exit_block validation details)),
          (KStr ''stake'', VU64 (ScaleToVET (Some (dl_Stake delegation)))),
          (KStr ''multiplier'', VU8 (dl_Multiplier delegation)),
          (KStr ''weight'', VU64 (ScaleToVET (Some (delegation_weight (dl_Multiplier delegation) (dl_Stake delegation))))),
          (KStr ''block'', VU32 (id_uint32 revision)), (KStr ''validator_start_block'', VU32 (vp_StartBlock validation)),
          (KStr ''validator_staking_period'', VU32 (vp_Period validation))] t, w))))))"

section \<open>ProcessEvents\<close>

text \<open>The switch on the event's name; \<open>None\<close> is the default branch.\<close>

definition processor ::
  "'w event_env \<Rightarrow> bytes32 \<Rightarrow> JSONEvent \<Rightarrow> abi_event \<Rightarrow> int \<Rightarrow> ('w \<Rightarrow> point option outcome \<times> 'w) option" where
  "processor env revision ev abi t =
     (let cd = ee_codec env; name = ab_Name abi in
      if name = ''ValidationQueued'' then Some (Pair (processValidationQueued cd ev abi t))
      else if name = ''ValidationWithdrawn'' then Some (Pair (processValidationWithdrawn cd ev abi t))
      else if name = ''ValidationSignaledExit'' then Some (Pair (processValidationSignaledExit ev t))
      else if name = ''StakeIncreased'' then Some (Pair (processStakeIncreased cd ev abi t))
      else if name = ''StakeDecreased'' then Some (Pair (processStakeDecreased cd ev abi t))
      else if name = ''DelegationAdded'' then Some (processDelegationAdded env revision ev abi t)
      else if name = ''DelegationWithdrawn'' then Some (processDelegationWithdrawn env revision ev abi t)
      else if name = ''DelegationSignaledExit'' then Some (processDelegationSignaledExit env revision ev t)
      else if name = ''BeneficiarySet'' then Some (Pair (processBeneficiarySet cd ev abi t))
      else None)"

record event_state =
  es_points :: "point option list"
  es_eventCounts :: "(string, nat) gomap"

definition count_event :: "string \<Rightarrow> (string, nat) gomap \<Rightarrow> (string, nat) gomap" where
  "count_event name counts =
     AList.update name ((case map_of counts name of None \<Rightarrow> 0 | Some c \<Rightarrow> c) + 1) counts"

definition process_log ::
  "'w event_env \<Rightarrow> bytes32 \<Rightarrow> (bytes32, abi_event) gomap \<Rightarrow> int \<Rightarrow> JSONEvent \<Rightarrow> event_state \<Rightarrow> 'w \<Rightarrow>
     event_state outcome \<times> 'w" where
  "process_log env revision abis t ev s w =
     bindW (topic ev 0, w) (\<lambda>signature w.
       case map_of abis signature of
         None \<Rightarrow> (Ok s, w)
       | Some abi \<Rightarrow>
           (case processor env revision ev abi t of
              None \<Rightarrow> (Ok s, w)
            | Some process \<Rightarrow>
                let s1 = s\<lparr>es_eventCounts := count_event (ab_Name abi) (es_eventCounts s)\<rparr> in
                (case process w of
                   (Panic p, w) \<Rightarrow> (Panic p, w)
                 | (Err e, w) \<Rightarrow> (Ok s1, w)
                 | (Ok p, w) \<Rightarrow> (Ok (s1\<lparr>es_points := es_points s1 @ [p]\<rparr>), w))))"

fun process_logs ::
  "'w event_env \<Rightarrow> bytes32 \<Rightarrow> (bytes32, abi_event) gomap \<Rightarrow> int \<Rightarrow> JSONEvent list \<Rightarrow> event_state \<Rightarrow> 'w \<Rightarrow>
     event_state outcome \<times> 'w" where
  "process_logs env revision abis t [] s w = (Ok s, w)"
| "process_logs env revision abis t (ev # evs) s w =
     bindW (process_log env revision abis t ev s w) (\<lambda>s w. process_logs env revision abis t evs s w)"

text \<open>Every pass of the last loop writes to the same tag and the same field.\<close>

definition count_point :: "(string \<times> nat) list \<Rightarrow> int \<Rightarrow> point" where
  "count_point counts t =
     foldl (\<lambda>p (name, n). p\<lparr>pt_Tags := AList.update ''event'' (VStr name) (pt_Tags p),
         pt_Fields := AList.update (KStr ''count'') (VInt (int n)) (pt_Fields p)\<rparr>)
       \<lparr>pt_Measurement = ''staker_event_counts'', pt_Tags = [], pt_Fields = [], pt_Time = t\<rparr> counts"

definition initial_counts :: "(bytes32, abi_event) gomap \<Rightarrow> (string, nat) gomap" where
  "initial_counts abis = foldl (\<lambda>m e. AList.update (ab_Name (snd e)) 0 m) [] abis"

definition ProcessEvents ::
  "'w event_env \<Rightarrow> bytes32 \<Rightarrow> (bytes32, JSONEvent list) gomap \<Rightarrow> (bytes32, abi_event) gomap \<Rightarrow> int \<Rightarrow> 'w \<Rightarrow>
     point option list outcome \<times> 'w" where
  "ProcessEvents env revision events abis t w =
     bindW (process_logs env revision abis t (concat (map snd (ee_logs env events)))
       \<lparr>es_points = [], es_eventCounts = initial_counts abis\<rparr> w) (\<lambda>s w.
         (Ok (es_points s @
            (if es_eventCounts s = [] then [] else [Some (count_point (ee_counts env (es_eventCounts s)) t)])), w))"

section \<open>Counting the events\<close>

definition event_names :: "string set" where
  "event_names = {''ValidationQueued'', ''ValidationWithdrawn'', ''ValidationSignaledExit'', ''StakeIncreased'',
     ''StakeDecreased'', ''DelegationAdded'', ''DelegationWithdrawn'', ''DelegationSignaledExit'', ''BeneficiarySet''}"

text \<open>A log of the named event, one of those the program handles.\<close>

definition is_event :: "(bytes32, abi_event) gomap \<Rightarrow> string \<Rightarrow> JSONEvent \<Rightarrow> bool" where
  "is_event abis name ev \<longleftrightarrow> name \<in> event_names \<and>
     (case ev_Topics ev of [] \<Rightarrow> False | h # hs \<Rightarrow> map_option ab_Name (map_of abis h) = Some name)"

definition number_of :: "(string, nat) gomap \<Rightarrow> string \<Rightarrow> nat" where
  "number_of counts name = (case map_of counts name of None \<Rightarrow> 0 | Some n \<Rightarrow> n)"

lemma processor_None_iff: "processor env revision ev abi t = None \<longleftrightarrow> ab_Name abi \<notin> event_names"
  unfolding processor_def event_names_def Let_def by simp

lemma number_of_count_event:
  "number_of (count_event name counts) k = number_of counts k + (if k = name then 1 else 0)"
  by (simp add: number_of_def count_event_def update_conv')

lemma topic_0: "topic ev 0 = (case ev_Topics ev of [] \<Rightarrow> Panic IndexOutOfRange | h # hs \<Rightarrow> Ok h)"
  by (simp add: topic_def nth_or_panic_def split: list.split)

lemma process_log_Ok:
  assumes "process_log env revision abis t ev s w = (Ok s', w')"
  shows "number_of (es_eventCounts s') k = number_of (es_eventCounts s) k + (if is_event abis k ev then 1 else 0)"
    and "es_points s' = es_points s \<or> (\<exists>p. es_points s' = es_points s @ [p])"
    and "distinct (map fst (es_eventCounts s)) \<Longrightarrow> distinct (map fst (es_eventCounts s'))"
    and "es_eventCounts s' = [] \<Longrightarrow> es_eventCounts s = []"
proof -
  from assms obtain h hs where top: "ev_Topics ev = h # hs"
    by (auto simp: process_log_def topic_0 split: list.splits)
  show "number_of (es_eventCounts s') k = number_of (es_eventCounts s) k + (if is_event abis k ev then 1 else 0)"
    using assms top
    by (auto simp: process_log_def topic_0 is_event_def Let_def number_of_count_event processor_None_iff
        split: option.splits prod.splits outcome.splits)
      (metis processor_None_iff option.distinct(1))+
  show "es_points s' = es_points s \<or> (\<exists>p. es_points s' = es_points s @ [p])"
    using assms top
    by (auto simp: process_log_def topic_0 Let_def split: option.splits prod.splits outcome.splits)
  show "distinct (map fst (es_eventCounts s)) \<Longrightarrow> distinct (map fst (es_eventCounts s'))"
    using assms top
    by (auto simp: process_log_def topic_0 Let_def count_event_def distinct_update
        split: option.splits prod.splits outcome.splits)
  show "es_eventCounts s' = [] \<Longrightarrow> es_eventCounts s = []"
  proof -
    have "AList.update x y m \<noteq> []" for x :: string and y :: nat and m by (cases m) auto
    then show "es_eventCounts s' = [] \<Longrightarrow> es_eventCounts s = []"
      using assms top
      by (auto simp: process_log_def topic_0 Let_def count_event_def split: option.splits prod.splits outcome.splits)
  qed
qed

lemma process_logs_Ok:
  assumes "process_logs env revision abis t evs s w = (Ok s', w')"
  shows "number_of (es_eventCounts s') k = number_of (es_eventCounts s) k + length (filter (is_event abis k) evs)"
    and "distinct (map fst (es_eventCounts s)) \<Longrightarrow> distinct (map fst (es_eventCounts s'))"
    and "es_eventCounts s' = [] \<Longrightarrow> es_eventCounts s = []"
  using assms
proof (induction evs arbitrary: s w)
  case (Cons ev evs)
  {
    case 1
    then show ?case using Cons.IH(1) process_log_Ok(1) [of env revision abis t ev s w _ _ k]
      by (fastforce simp: outcome_simps)
  next
    case 2
    then show ?case using Cons.IH(2) process_log_Ok(3) by (fastforce simp: outcome_simps)
  next
    case 3
    then show ?case using Cons.IH(3) process_log_Ok(4) by (fastforce simp: outcome_simps)
  }
qed simp_all

lemma initial_counts_snoc:
  "initial_counts (abis @ [e]) = AList.update (ab_Name (snd e)) 0 (initial_counts abis)"
  by (simp add: initial_counts_def)

lemma initial_counts_facts:
  "number_of (initial_counts abis) k = 0 \<and> distinct (map fst (initial_counts abis)) \<and>
   (abis \<noteq> [] \<longrightarrow> initial_counts abis \<noteq> [])"
proof (induction abis rule: rev_induct)
  case Nil
  show ?case by (simp add: initial_counts_def number_of_def)
next
  case (snoc e es)
  have "AList.update x y m \<noteq> []" for x :: string and y :: nat and m by (cases m) auto
  with snoc show ?case
    by (auto simp: initial_counts_snoc distinct_update number_of_def update_conv' split: option.splits)
qed

text \<open>Only the last entry of the walk is left in the point.\<close>

lemma count_point_last:
  "counts \<noteq> [] \<Longrightarrow> count_point counts t = \<lparr>pt_Measurement = ''staker_event_counts'',
     pt_Tags = [(''event'', VStr (fst (last counts)))], pt_Fields = [(KStr ''count'', VInt (int (snd (last counts))))],
     pt_Time = t\<rparr>"
proof (induction counts rule: rev_induct)
  case (snoc c cs)
  have s: "count_point (cs @ [c]) t = (count_point cs t)\<lparr>
      pt_Tags := AList.update ''event'' (VStr (fst c)) (pt_Tags (count_point cs t)),
      pt_Fields := AList.update (KStr ''count'') (VInt (int (snd c))) (pt_Fields (count_point cs t))\<rparr>"
    by (simp add: count_point_def split: prod.split)
  show ?case
  proof (cases cs)
    case Nil
    then show ?thesis unfolding s by (simp add: count_point_def)
  next
    case (Cons c' cs')
    with snoc show ?thesis unfolding s by simp
  qed
qed simp

section \<open>Properties\<close>

text \<open>The event totals are right but only one survives: the last point tells, for some single event of the
  contract, how many of the block's logs it had; the totals of all other events are overwritten.\<close>

theorem ProcessEvents_counts:
  assumes "ProcessEvents env revision events abis t w = (Ok pts, w')" and "abis \<noteq> []"
    and "\<And>m. mset (ee_counts env m) = mset m"
  shows "\<exists>name p. last pts = Some p \<and> pt_Tags p = [(''event'', VStr name)] \<and>
    pt_Fields p = [(KStr ''count'',
      VInt (int (length (filter (is_event abis name) (concat (map snd (ee_logs env events)))))))]"
proof -
  let ?logs = "concat (map snd (ee_logs env events))" and ?s0 = "\<lparr>es_points = [], es_eventCounts = initial_counts abis\<rparr>"
  from assms(1) obtain s where s: "process_logs env revision abis t ?logs ?s0 w = (Ok s, w')"
      and pts: "pts = es_points s @ (if es_eventCounts s = [] then [] else [Some (count_point (ee_counts env (es_eventCounts s)) t)])"
    by (auto simp: ProcessEvents_def outcome_simps)
  let ?walk = "ee_counts env (es_eventCounts s)"
  have "es_eventCounts s \<noteq> []" using process_logs_Ok(3) [OF s] initial_counts_facts assms(2) by auto
  moreover from this assms(3) [of "es_eventCounts s"] have ne: "?walk \<noteq> []" by auto
  moreover have "last ?walk \<in> set (es_eventCounts s)"
    using ne assms(3) [of "es_eventCounts s"] by (metis last_in_set set_mset_mset)
  then have "map_of (es_eventCounts s) (fst (last ?walk)) = Some (snd (last ?walk))"
    using process_logs_Ok(2) [OF s] initial_counts_facts by (intro map_of_is_SomeI) auto
  then have "snd (last ?walk) = length (filter (is_event abis (fst (last ?walk))) ?logs)"
    using process_logs_Ok(1) [OF s, of "fst (last ?walk)"] initial_counts_facts [of abis "fst (last ?walk)"]
    by (simp add: number_of_def)
  ultimately show ?thesis
    unfolding pts by (intro exI [of _ "fst (last ?walk)"]) (simp add: count_point_last)
qed

text \<open>A beneficiary change never becomes a point: the ABI library unpacks an address as its own type, which
  is not the thor library's, so the cast fails and a nil point is returned without an error.\<close>

theorem beneficiary_never_written:
  assumes "\<And>bs vs. ab_UnpackValues abi bs = Inr vs \<Longrightarrow> list_all (\<lambda>v. as_thor_address v = None) vs"
    and "processBeneficiarySet cd ev abi t = Ok r"
  shows "r = None"
  using assms(2)
  by (auto simp: processBeneficiarySet_def unpack_log_def with_cast_def outcome_simps nth_or_panic_def
      dest!: assms(1) split: option.splits if_splits simp: list_all_length)

text \<open>A delegation that leaves is reported with the block where the validator's current period ends,
  unless the arithmetic wraps, and with its weight, the stake times its multiplier in percent.\<close>

theorem delegation_exit:
  assumes "processDelegationSignaledExit env revision ev t w = (Ok r, w')"
  shows "\<exists>p dl d v w1 w2. r = Some p \<and>
    sa_GetDelegation (ee_staker env) revision (delegation_id (ev_Topics ev ! 1)) w = (Inr dl, w1) \<and>
    sa_GetDelegationPeriodDetails (ee_staker env) revision (delegation_id (ev_Topics ev ! 1)) w1 = (Inr d, w2) \<and>
    sa_GetValidationPeriodDetails (ee_staker env) revision (dl_Validator dl) w2 = (Inr v, w') \<and>
    field p ''exit_block'' = Some (VU32 (delegation_exit_block v d)) \<and>
    field p ''weight'' = Some (VU64 (ScaleToVET (Some (uint (dl_Multiplier dl) * dl_Stake dl div 100)))) \<and>
    (unat (vp_StartBlock v) + unat (vp_Period v) * unat (dp_EndPeriod d) < 2 ^ 32 \<longrightarrow>
       unat (delegation_exit_block v d) = unat (vp_StartBlock v) + unat (vp_Period v) * unat (dp_EndPeriod d))"
proof -
  have exit: "unat (delegation_exit_block v d) = unat (vp_StartBlock v) + unat (vp_Period v) * unat (dp_EndPeriod d)"
    if "unat (vp_StartBlock v) + unat (vp_Period v) * unat (dp_EndPeriod d) < 2 ^ 32" for v d
  proof -
    have "delegation_exit_block v d = word_of_nat (unat (vp_StartBlock v) + unat (vp_Period v) * unat (dp_EndPeriod d))"
      by (simp add: delegation_exit_block_def)
    then show ?thesis using that by (simp only: unat_of_nat) simp
  qed
  have T: "topic ev (Suc 0) = Ok h \<Longrightarrow> h = ev_Topics ev ! 1" for h
    by (auto simp: topic_def nth_or_panic_def split: if_splits)
  have C: "callW m = (Ok x, w'') \<longleftrightarrow> m = (Inr x, w'')" for m :: "(gerror + 'c) \<times> 'a" and x w''
    by (cases m) (auto simp: callW_def)
  from assms obtain dl w1 d w2 v where
      calls: "sa_GetDelegation (ee_staker env) revision (delegation_id (ev_Topics ev ! 1)) w = (Inr dl, w1)"
        "sa_GetDelegationPeriodDetails (ee_staker env) revision (delegation_id (ev_Topics ev ! 1)) w1 = (Inr d, w2)"
        "sa_GetValidationPeriodDetails (ee_staker env) revision (dl_Validator dl) w2 = (Inr v, w')"
    by (auto simp: processDelegationSignaledExit_def Let_def outcome_simps mk_point_def C dest!: T)
  with assms show ?thesis
    by (intro exI [of _ "the r"] exI [of _ dl] exI [of _ d] exI [of _ v] exI [of _ w1] exI [of _ w2])
      (auto simp: processDelegationSignaledExit_def Let_def outcome_simps mk_point_def C field_def delegation_weight_def
        intro!: exit dest!: T)
qed

section \<open>Sample instances\<close>

definition sample_staker_api :: "int staker_api" where
  "sample_staker_api = \<lparr>
     sa_GetDelegation = \<lambda>revision i w. (Inr \<lparr>dl_Validator = Address 1, dl_Stake = 10 * VET, dl_Multiplier = 150\<rparr>, w),
     sa_GetDelegationPeriodDetails = \<lambda>revision i w. (Inr \<lparr>dp_StartPeriod = 2, dp_EndPeriod = 5\<rparr>, w),
     sa_GetValidation = \<lambda>revision a w. (Inr StatusActive, w),
     sa_GetValidationPeriodDetails = \<lambda>revision a w. (Inr \<lparr>vp_Period = 6, vp_StartBlock = 6, vp_CompletedPeriods = 4\<rparr>, w)\<rparr>"

definition sample_event_env :: "int event_env" where
  "sample_event_env = \<lparr>ee_codec = sample_codec, ee_staker = sample_staker_api, ee_logs = \<lambda>m. m, ee_counts = \<lambda>m. m\<rparr>"

definition exit_log :: JSONEvent where
  "exit_log = \<lparr>ev_Address = Address 8, ev_Topics = [Bytes32 5, Bytes32 1], ev_Data = ''0x''\<rparr>"

definition sample_abis :: "(bytes32, abi_event) gomap" where
  "sample_abis = [(Bytes32 5, \<lparr>ab_Name = ''ValidationSignaledExit'', ab_UnpackValues = \<lambda>bs. Inr []\<rparr>)]"

theorem ProcessEvents_counts_witness:
  "\<exists>pts w'. ProcessEvents sample_event_env (Bytes32 1) [(Bytes32 5, [exit_log, exit_log])] sample_abis 0 0 = (Ok pts, w') \<and>
     (\<exists>name p. last pts = Some p \<and> pt_Tags p = [(''event'', VStr name)])"
proof -
  have "\<exists>pts w'. ProcessEvents sample_event_env (Bytes32 1) [(Bytes32 5, [exit_log, exit_log])] sample_abis 0 0 = (Ok pts, w')"
    by (simp add: ProcessEvents_def process_log_def sample_event_env_def sample_abis_def exit_log_def topic_def
        nth_or_panic_def processor_def Let_def processValidationSignaledExit_def mk_point_def)
  then obtain pts w' where p: "ProcessEvents sample_event_env (Bytes32 1) [(Bytes32 5, [exit_log, exit_log])] sample_abis 0 0 = (Ok pts, w')"
    by blast
  have "sample_abis \<noteq> []" by (simp add: sample_abis_def)
  from ProcessEvents_counts [OF p this] p show ?thesis by (auto simp: sample_event_env_def)
qed

theorem beneficiary_never_written_witness:
  "processBeneficiarySet sample_codec exit_log \<lparr>ab_Name = ''BeneficiarySet'',
     ab_UnpackValues = \<lambda>bs. Inr [AbiAddress (Address 3)]\<rparr> 0 = Ok None"
proof -
  let ?abi = "\<lparr>ab_Name = ''BeneficiarySet'', ab_UnpackValues = \<lambda>bs. Inr [AbiAddress (Address 3)]\<rparr>"
  obtain r where r: "processBeneficiarySet sample_codec exit_log ?abi 0 = Ok r"
    by (simp add: processBeneficiarySet_def topic_def nth_or_panic_def exit_log_def unpack_log_def MustDecode_def
        sample_codec_def with_cast_def)
  from beneficiary_never_written [OF _ r] r show ?thesis by auto
qed

theorem delegation_exit_witness:
  "\<exists>p. processDelegationSignaledExit sample_event_env (Bytes32 1) exit_log 0 0 = (Ok (Some p), 0) \<and>
     field p ''exit_block'' = Some (VU32 36)"
proof -
  obtain r where r: "processDelegationSignaledExit sample_event_env (Bytes32 1) exit_log 0 0 = (Ok r, 0)"
    by (simp add: processDelegationSignaledExit_def sample_event_env_def sample_staker_api_def Let_def topic_def
        nth_or_panic_def exit_log_def mk_point_def)
  from delegation_exit [OF r] obtain p where "r = Some p" and
    "field p ''exit_block'' = Some (VU32 (delegation_exit_block \<lparr>vp_Period = 6, vp_StartBlock = 6, vp_CompletedPeriods = 4\<rparr>
       \<lparr>dp_StartPeriod = 2, dp_EndPeriod = 5\<rparr>))"
    by (auto simp: sample_event_env_def sample_staker_api_def)
  with r show ?thesis by (auto simp: delegation_exit_block_def)
qed

end
