(* ===== verification/PosWriter.thy ===== *)
theory PosWriter
  imports PosEvents
begin

text \<open>
  \<^verbatim>\<open>stats/pos/writer.go\<close>: the staker's points of a block. An operation on a nil
  \<open>*big.Int\<close> panics; \<open>ScaleToVET\<close> accepts one.
\<close>

record 'w staker =
  st_pos :: pos_env
  st_events :: "'w event_env"
  st_client :: "'w client"
  st_abis :: "(bytes32, abi_event) gomap"
  st_StakerAddress :: address
  st_validations :: "(address, Validation) gomap \<Rightarrow> (address \<times> Validation) list"

definition big_arg :: "int option \<Rightarrow> int outcome" where
  "big_arg x = (case x of None \<Rightarrow> Panic NilDereference | Some i \<Rightarrow> Ok i)"

section \<open>createBlockPoints\<close>

definition add_log :: "address \<Rightarrow> JSONEvent \<Rightarrow> (bytes32, JSONEvent list) gomap \<Rightarrow> (bytes32, JSONEvent list) gomap outcome" where
  "add_log stakerAddress lg m =
     (if ev_Address lg \<noteq> stakerAddress then Ok m
      else bind_outcome (topic lg 0) (\<lambda>h.
        Ok (AList.update h ((case map_of m h of None \<Rightarrow> [] | Some logs \<Rightarrow> logs) @ [lg]) m)))"

fun add_logs :: "address \<Rightarrow> JSONEvent list \<Rightarrow> (bytes32, JSONEvent list) gomap \<Rightarrow> (bytes32, JSONEvent list) gomap outcome" where
  "add_logs a [] m = Ok m"
| "add_logs a (lg # logs) m = bind_outcome (add_log a lg m) (add_logs a logs)"

definition block_logs :: "Block \<Rightarrow> JSONEvent list" where
  "block_logs b = concat (map (\<lambda>tx. concat (map out_Events (tx_Outputs tx))) (blk_Transactions b))"

definition event_flags ::
  "(bytes32, abi_event) gomap \<Rightarrow> (bytes32 \<times> JSONEvent list) list \<Rightarrow> (fkey, val) gomap" where
  "event_flags abis groups =
     foldl (\<lambda>m (signature, logs). case map_of abis signature of
         None \<Rightarrow> m
       | Some abi \<Rightarrow> AList.update (KStr (ab_Name abi)) (VInt (int (length logs))) m) [] groups"

definition createBlockPoints :: "'w staker \<Rightarrow> Event \<Rightarrow> 'w \<Rightarrow> point option list outcome \<times> 'w" where
  "createBlockPoints s ev w =
     bindW (add_logs (st_StakerAddress s) (block_logs (e_Block ev)) [], w) (\<lambda>eventsByTopic w.
     bindW (ProcessEvents (st_events s) (blk_ID (e_Block ev)) eventsByTopic (st_abis s) (e_Timestamp ev) w) (\<lambda>points w.
       let flags = event_flags (st_abis s) (ee_logs (st_events s) eventsByTopic) in
       (Ok (points @ (if 1 < length flags
          then [Some \<lparr>pt_Measurement = ''staker_events'', pt_Tags = e_DefaultTags ev, pt_Fields = flags,
                  pt_Time = e_Timestamp ev\<rparr>]
          else [])), w)))"

section \<open>createValidatorOverview\<close>

record overview =
  ov_leaderGroup :: "(address, Validation) gomap"
  ov_onlineValidators :: nat
  ov_onlineStake :: int
  ov_onlineWeight :: u64
  ov_accumulatedStake :: u64
  ov_accumulatedWeight :: u64
  ov_offlineValidators :: nat
  ov_offlineStake :: int
  ov_offlineWeight :: u64
  ov_exitingVET :: int

definition empty_overview :: overview where
  "empty_overview = \<lparr>ov_leaderGroup = [], ov_onlineValidators = 0, ov_onlineStake = 0, ov_onlineWeight = 0,
     ov_accumulatedStake = 0, ov_accumulatedWeight = 0, ov_offlineValidators = 0, ov_offlineStake = 0,
     ov_offlineWeight = 0, ov_exitingVET = 0\<rparr>"

definition overview_add :: "Validation \<Rightarrow> overview \<Rightarrow> overview outcome" where
  "overview_add v s =
     (if v_Status v \<noteq> StatusActive then Ok s
      else
        let s1 = s\<lparr>ov_accumulatedStake := ov_accumulatedStake s + v_LockedVET v + ScaleToVET (v_DelegatorStake v),
                   ov_leaderGroup := AList.update (v_Address v) v (ov_leaderGroup s)\<rparr> in
        bind_outcome (big_arg (v_TotalLockedStake v)) (\<lambda>total.
        bind_outcome (big_arg (v_DelegatorStake v)) (\<lambda>delegators.
        let s2 = (if v_Online v
                  then s1\<lparr>ov_onlineValidators := ov_onlineValidators s1 + 1,
                          ov_onlineStake := ov_onlineStake s1 + total + delegators,
                          ov_onlineWeight := ov_onlineWeight s1 + v_Weight v\<rparr>
                  else s1\<lparr>ov_offlineValidators := ov_offlineValidators s1 + 1,
                          ov_offlineStake := ov_offlineStake s1 + total + delegators,
                          ov_offlineWeight := ov_offlineWeight s1 + v_Weight v\<rparr>) in
        bind_outcome (if v_ExitBlock v = None then Ok 0 else big_arg (v_TotalExitingStake v)) (\<lambda>exiting.
          Ok (s2\<lparr>ov_exitingVET := ov_exitingVET s2 + exiting,
                 ov_accumulatedWeight := ov_accumulatedWeight s2 + v_Weight v\<rparr>)))))"

fun overview_all :: "Validation list \<Rightarrow> overview \<Rightarrow> overview outcome" where
  "overview_all [] s = Ok s"
| "overview_all (v # vs) s = bind_outcome (overview_add v s) (overview_all vs)"

definition withdrawn_funds :: "address \<Rightarrow> Block \<Rightarrow> int" where
  "withdrawn_funds stakerAddress b =
     sum_list (map tr_Amount (filter (\<lambda>t. tr_Sender t = stakerAddress)
       (concat (map (\<lambda>tx. concat (map out_Transfers (tx_Outputs tx))) (blk_Transactions b)))))"

definition signer_fields :: "Event \<Rightarrow> overview \<Rightarrow> (fkey, val) gomap" where
  "signer_fields ev s =
     (if hs_Active (e_HayabusaStatus ev)
      then (case map_of (ov_leaderGroup s) (blk_Signer (e_Block ev)) of
              None \<Rightarrow> []
            | Some signer \<Rightarrow>
                [(KStr ''signer_probability'', VF64 (f64_div (f64_mul (f64_of_u64 (v_Weight signer)) (Fin 100))
                    (f64_of_u64 (ov_onlineWeight s)))),
                 (KStr ''weight_processed'', VU64 (v_Weight signer))])
      else [])"

definition overview_fields :: "u32 \<Rightarrow> Block \<Rightarrow> StakerInformation \<Rightarrow> int \<Rightarrow> int \<Rightarrow> overview \<Rightarrow> (fkey, val) gomap" where
  "overview_fields epochLength b info totalStake withdrawnFunds s =
     [(KStr ''total_stake'', VU64 (ScaleToVET (Some totalStake))),
      (KStr ''active_stake'', VU64 (ScaleToVET (si_TotalVET info))),
      (KStr ''active_stake_accumulated'', VU64 (ov_accumulatedStake s)),
      (KStr ''active_weight'', VU64 (ScaleToVET (si_TotalWeight info))),
      (KStr ''active_weight_accumulated'', VU64 (ov_onlineWeight s)),
      (KStr ''accumulated_weight'', VU64 (ov_accumulatedWeight s)),
      (KStr ''queued_stake'', VU64 (ScaleToVET (si_QueuedVET info))),
      (KStr ''withdrawn_vet'', VU64 (ScaleToVET (Some withdrawnFunds))),
      (KStr ''contract_vet'', VU64 (ScaleToVET (si_ContractBalance info))),
      (KStr ''cooldown_vet_contract'', VU64 (si_CooldownVET info)),
      (KStr ''withdrawable_vet_contract'', VU64 (si_WithdrawableVET info)),
      (KStr ''exiting_vet'', VU64 (ScaleToVET (Some (ov_exitingVET s)))),
      (KStr ''online_stake'', VU64 (ScaleToVET (Some (ov_onlineStake s)))),
      (KStr ''offline_stake'', VU64 (ScaleToVET (Some (ov_offlineStake s)))),
      (KStr ''online_weight'', VU64 (ov_onlineWeight s)),
      (KStr ''offline_weight'', VU64 (ov_offlineWeight s)),
      (KStr ''epoch'', VU32 (blk_Number b div epochLength)),
      (KStr ''block_in_epoch'', VU32 (blk_Number b mod epochLength)),
      (KStr ''active_validators'', VInt (int (length (ov_leaderGroup s)))),
      (KStr ''online_validators'', VInt (int (ov_onlineValidators s))),
      (KStr ''offline_validators'', VInt (int (ov_offlineValidators s))),
      (KStr ''block_number'', VU32 (blk_Number b))]"

definition createValidatorOverview :: "'w staker \<Rightarrow> Event \<Rightarrow> StakerInformation \<Rightarrow> point list outcome" where
  "createValidatorOverview s ev info =
     bind_outcome (overview_all (si_Validations info) empty_overview) (\<lambda>ov.
     bind_outcome (big_arg (si_TotalVET info)) (\<lambda>total.
     bind_outcome (big_arg (si_QueuedVET info)) (\<lambda>queued.
       Ok [\<lparr>pt_Measurement = ''validator_overview'', pt_Tags = e_DefaultTags ev,
            pt_Fields = overview_fields (pe_EpochLength (st_pos s)) (e_Block ev) info (total + queued)
              (withdrawn_funds (st_StakerAddress s) (e_Block ev)) ov @ signer_fields ev ov,
            pt_Time = unix_time (blk_Timestamp (e_Block ev))\<rparr>])))"

section \<open>createEnergyStats\<close>

text \<open>\<open>big.Rat.Float64\<close> of the quotient is the nearest double.\<close>

definition issued_burned_ratio :: "int \<Rightarrow> int \<Rightarrow> f64" where
  "issued_burned_ratio issued burned =
     f64_round (of_int \<bar>issued\<bar> / of_int (if burned = 0 then 1 else burned))"

definition validators_share :: "int \<Rightarrow> int" where
  "validators_share issued = issued * 3 div 10"

definition energy_fields :: "u32 \<Rightarrow> int \<Rightarrow> int \<Rightarrow> (fkey, val) gomap" where
  "energy_fields epoch issued burned =
     [(KStr ''vtho_issued'', VU64 (ScaleToVET (Some issued))), (KStr ''vtho_burned'', VU64 (ScaleToVET (Some burned))),
      (KStr ''issued_burned_ratio'', VF64 (issued_burned_ratio issued burned)),
      (KStr ''validators_share'', VU64 (ScaleToVET (Some (validators_share issued)))),
      (KStr ''delegators_share'', VU64 (ScaleToVET (Some (issued - validators_share issued)))),
      (KStr ''epoch'', VBig (uint epoch))]"

definition createEnergyStats :: "'w staker \<Rightarrow> Event \<Rightarrow> StakerInformation \<Rightarrow> point list outcome" where
  "createEnergyStats s ev info =
     (if \<not> hs_Active (e_HayabusaStatus ev) then Ok []
      else
        (case e_ParentStaker ev of
           None \<Rightarrow> Panic NilDereference
         | Some parent \<Rightarrow>
             (case (vtho_TotalSupply (si_VTHO parent), vtho_TotalBurned (si_VTHO parent)) of
                (Some parentSupply, Some parentBurned) \<Rightarrow>
                  if parentSupply \<le> 0 \<or> parentBurned \<le> 0 then Ok []
                  else
                    bind_outcome (big_arg (vtho_TotalSupply (si_VTHO info))) (\<lambda>supply.
                    bind_outcome (big_arg (vtho_TotalBurned (si_VTHO info))) (\<lambda>burned.
                      Ok [\<lparr>pt_Measurement = ''hayabusa_gas'', pt_Tags = e_DefaultTags ev,
                           pt_Fields = energy_fields (blk_Number (e_Block ev) div pe_EpochLength (st_pos s))
                             (supply - parentSupply) (burned - parentBurned),
                           pt_Time = e_Timestamp ev\<rparr>]))
              | _ \<Rightarrow> Ok [])))"

section \<open>createSingleValidatorStats\<close>

fun statusToString :: "status \<Rightarrow> string" where
  "statusToString StatusQueued = ''queued''"
| "statusToString StatusActive = ''active''"
| "statusToString StatusExit = ''exited''"
| "statusToString (StatusOther x) = ''unknown''"

fun queue_orders :: "Validation list \<Rightarrow> nat \<Rightarrow> (address, nat) gomap \<Rightarrow> (address, nat) gomap" where
  "queue_orders [] queueCount m = m"
| "queue_orders (v # vs) queueCount m =
     (if v_Status v = StatusQueued then queue_orders vs (queueCount + 1) (AList.update (v_Address v) queueCount m)
      else queue_orders vs queueCount m)"

text \<open>A validator that was there before this block and no longer is.\<close>

definition exited_point :: "Event \<Rightarrow> address \<Rightarrow> Validation \<Rightarrow> point" where
  "exited_point ev addr v =
     (let exited = v_ExitBlock v \<noteq> None in
      \<lparr>pt_Measurement = ''individual_validators'',
       pt_Tags = [(''validator'', VAddr addr), (''endorsor'', VAddr (v_Endorser v)),
         (''status'', VStr (statusToString StatusExit)), (''signalled_exit'', VStr (FormatBool exited)),
         (''staking_period_length'', VU32 (v_Period v)),
         (''exit_type'', VStr (if exited then ''previously_active'' else ''previously_queued''))],
       pt_Fields = (KStr ''status_changed'', VStr (statusToString StatusExit)) #
         (if exited then [(KStr ''cooldown_vet'', VU64 (v_LockedVET v))] else []),
       pt_Time = e_Timestamp ev\<rparr>)"

text \<open>What changed against the parent block's entry, if there is one.\<close>

definition change_fields :: "Validation option \<Rightarrow> Validation \<Rightarrow> (fkey, val) gomap" where
  "change_fields prevEntry v =
     (case prevEntry of
        None \<Rightarrow> []
      | Some prev \<Rightarrow>
          (if v_Weight prev \<noteq> v_Weight v then [(KStr ''weight_changed'', VU64 (v_Weight v - v_Weight prev))] else []) @
          (if v_LockedVET prev \<noteq> v_LockedVET v then [(KStr ''stake_changed'', VU64 (v_LockedVET v - v_LockedVET prev))] else []) @
          (case (v_ExitBlock prev, v_ExitBlock v) of
             (Some x, Some y) \<Rightarrow> if x \<noteq> y then [(KStr ''exit_block_changed'', VU32 y)] else []
           | _ \<Rightarrow> [])) @
     (if (case prevEntry of None \<Rightarrow> True | Some prev \<Rightarrow> v_Online prev \<noteq> v_Online v)
      then [(KStr ''online_changed'', VStr (FormatBool (v_Online v)))] else []) @
     (if (case prevEntry of None \<Rightarrow> True | Some prev \<Rightarrow> v_Status prev \<noteq> v_Status v)
      then [(KStr ''status_changed'', VStr (statusToString (v_Status v)))] else [])"

definition validator_fields :: "u32 \<Rightarrow> u64 \<Rightarrow> Validation \<Rightarrow> (fkey, val) gomap" where
  "validator_fields n multiplier v =
     [(KStr ''online'', VBool (v_Online v)), (KStr ''start_block'', VU32 (v_StartBlock v)),
      (KStr ''completed_periods'', VU32 (v_CompletedPeriods v)), (KStr ''current_block'', VU32 n),
      (KStr ''total_staked'', VU64 (ScaleToVET (v_TotalLockedStake v))), (KStr ''total_weight'', VU64 (v_Weight v)),
      (KStr ''total_queued_vet'', VU64 (ScaleToVET (v_TotalQueuedStake v))),
      (KStr ''total_exiting_vet'', VU64 (ScaleToVET (v_TotalExitingStake v))),
      (KStr ''next_period_weight'', VU64 (ScaleToVET (v_NextPeriodWeight v))),
      (KStr ''validator_staked'', VU64 (v_LockedVET v)),
      (KStr ''validator_weight'', VU64 (v_LockedVET v * multiplier)),
      (KStr ''validator_queued_vet'', VU64 (v_QueuedVET v)),
      (KStr ''delegators_staked'', VU64 (ScaleToVET (v_DelegatorStake v))),
      (KStr ''delegators_weight'', VU64 (ScaleToVET (v_DelegatorWeight v))),
      (KStr ''delegator_queued_vet'', VU64 (ScaleToVET (v_DelegatorQueuedStake v)))] @
     (case v_OfflineBlock v of None \<Rightarrow> [] | Some b \<Rightarrow> [(KStr ''offline_block'', VU32 b)]) @
     (case v_ExitBlock v of None \<Rightarrow> [] | Some b \<Rightarrow> [(KStr ''exit_block'', VU32 b)])"

definition validator_point ::
  "Event \<Rightarrow> (address, nat) gomap \<Rightarrow> (address, Validation) gomap \<Rightarrow> Validation \<Rightarrow> point outcome" where
  "validator_point ev queueOrder prevValidators v =
     bind_outcome (big_arg (v_DelegatorStake v)) (\<lambda>delegators.
       Ok \<lparr>pt_Measurement = ''individual_validators'',
           pt_Tags = [(''validator'', VAddr (v_Address v)), (''endorsor'', VAddr (v_Endorser v)),
             (''status'', VStr (statusToString (v_Status v))), (''signalled_exit'', VStr (FormatBool (v_ExitBlock v \<noteq> None))),
             (''staking_period_length'', VU32 (v_Period v))],
           pt_Fields = validator_fields (blk_Number (e_Block ev)) (if 0 < delegators then 2 else 1) v @
             change_fields (map_of prevValidators (v_Address v)) v @
             (if v_Status v = StatusQueued
              then [(KStr ''queue_position'', VInt (case map_of queueOrder (v_Address v) of None \<Rightarrow> 0 | Some i \<Rightarrow> int i))]
              else []),
           pt_Time = e_Timestamp ev\<rparr>)"

fun validator_points ::
  "Event \<Rightarrow> (address, nat) gomap \<Rightarrow> (address, Validation) gomap \<Rightarrow> Validation list \<Rightarrow> point list outcome" where
  "validator_points ev queueOrder prevValidators [] = Ok []"
| "validator_points ev queueOrder prevValidators (v # vs) =
     bind_outcome (validator_point ev queueOrder prevValidators v) (\<lambda>p.
     bind_outcome (validator_points ev queueOrder prevValidators vs) (\<lambda>ps. Ok (p # ps)))"

definition createSingleValidatorStats :: "'w staker \<Rightarrow> Event \<Rightarrow> StakerInformation \<Rightarrow> point list outcome" where
  "createSingleValidatorStats s ev info =
     (let queueOrder = queue_orders (si_Validations info) 0 [];
          prevValidators = (case e_ParentStaker ev of None \<Rightarrow> [] | Some parent \<Rightarrow> ValidationMap parent);
          validators = ValidationMap info;
          exits = map (\<lambda>(addr, v). exited_point ev addr v)
            (filter (\<lambda>(addr, v). map_of validators addr = None) (st_validations s prevValidators)) in
      bind_outcome (validator_points ev queueOrder prevValidators (si_Validations info)) (\<lambda>points. Ok (exits @ points)))"

section \<open>createSlotPoints\<close>

definition missed_online_point :: "Event \<Rightarrow> MissedSlot \<Rightarrow> point" where
  "missed_online_point ev m =
     \<lparr>pt_Measurement = ''dpos_missed_slots'', pt_Tags = [(''signer'', VAddr (ms_Signer m))],
      pt_Fields = [(KStr ''block_number'', VU32 (blk_Number (e_Block ev)))], pt_Time = e_Timestamp ev\<rparr>"

definition missed_offline_point :: "Event \<Rightarrow> MissedSlot \<Rightarrow> point" where
  "missed_offline_point ev m =
     \<lparr>pt_Measurement = ''dpos_offline_missed_slots'',
      pt_Tags = [(''signer'', VAddr (ms_Signer m)),
        (''type'', VStr (if ms_WasOnline m then ''went-offline'' else ''previously-offline''))],
      pt_Fields = [(KStr ''block_number'', VU32 (blk_Number (e_Block ev)))], pt_Time = e_Timestamp ev\<rparr>"

definition future_point :: "u32 \<Rightarrow> Event \<Rightarrow> FutureSlot \<Rightarrow> point" where
  "future_point epochLength ev f =
     \<lparr>pt_Measurement = ''dpos_future_slots'',
      pt_Tags = [(''signer'', VAddr (fs_Signer f)), (''index'', VU32 (fs_Index f))],
      pt_Fields = [(KStr ''block_number'', VU32 (fs_Block f)),
        (KStr ''block_in_epoch'', VU32 (fs_Block f mod epochLength))],
      pt_Time = e_Timestamp ev\<rparr>"

text \<open>\<open>None\<close> is a loop over the missed slots that does not end.\<close>

definition createSlotPoints :: "'w staker \<Rightarrow> Event \<Rightarrow> StakerInformation \<Rightarrow> point list outcome option" where
  "createSlotPoints s ev info =
     (if \<not> hs_Active (e_HayabusaStatus ev) then Some (Ok [])
      else
        (case e_Prev ev of
           None \<Rightarrow> Some (Panic NilDereference)
         | Some prev \<Rightarrow>
             map_option (\<lambda>r. bind_outcome (of_sum r) (\<lambda>(online, offline).
               bind_outcome (FutureSlots (st_pos s) (si_Validations info) (e_Block ev) (e_Seed ev)) (\<lambda>future.
                 Ok (map (missed_online_point ev) online @ map (missed_offline_point ev) offline @
                   map (future_point (pe_EpochLength (st_pos s)) ev) future))))
             (MissedSlots (st_pos s) prev (si_Validations info) (e_Block ev) (e_Seed ev))))"

section \<open>Write\<close>

text \<open>The staker information of the event, fetched when it is missing; a failed fetch of the parent's
  leaves it missing.\<close>

definition ensure_parent :: "'w staker \<Rightarrow> Event \<Rightarrow> 'w \<Rightarrow> Event outcome \<times> 'w" where
  "ensure_parent s ev w =
     (case e_ParentStaker ev of
        Some si \<Rightarrow> (Ok ev, w)
      | None \<Rightarrow>
          (case FetchValidations (ee_codec (st_events s)) (st_client s) (blk_ParentID (e_Block ev)) w of
             (Ok si, w) \<Rightarrow> (Ok (ev\<lparr>e_ParentStaker := Some si\<rparr>), w)
           | (Err e, w) \<Rightarrow> (Ok ev, w)
           | (Panic p, w) \<Rightarrow> (Panic p, w)))"

definition the_staker :: "'w staker \<Rightarrow> Event \<Rightarrow> 'w \<Rightarrow> StakerInformation outcome \<times> 'w" where
  "the_staker s ev w =
     (case e_Staker ev of
        Some si \<Rightarrow> (Ok si, w)
      | None \<Rightarrow> FetchValidations (ee_codec (st_events s)) (st_client s) (blk_ID (e_Block ev)) w)"

text \<open>An error of a group of points drops the group; a panic is not caught here.\<close>

definition or_nothing :: "'a list outcome \<Rightarrow> 'a list outcome" where
  "or_nothing r = (case r of Err e \<Rightarrow> Ok [] | _ \<Rightarrow> r)"

definition valid_points :: "point option list \<Rightarrow> point list" where
  "valid_points ps = filter (\<lambda>p. pt_Fields p \<noteq> []) (map the (filter (\<lambda>p. p \<noteq> None) ps))"

definition staker_Write :: "'w staker \<Rightarrow> Event \<Rightarrow> 'w \<Rightarrow> (point list outcome \<times> 'w) option" where
  "staker_Write s ev0 w =
     (if \<not> hs_Forked (e_HayabusaStatus ev0) then Some (Ok [], w)
      else
        (case ensure_parent s ev0 w of
           (Panic p, w) \<Rightarrow> Some (Panic p, w)
         | (Err e, w) \<Rightarrow> Some (Err e, w)
         | (Ok ev, w) \<Rightarrow>
        (case the_staker s ev w of
           (Panic p, w) \<Rightarrow> Some (Panic p, w)
         | (Err e, w) \<Rightarrow> Some (Ok [], w)
         | (Ok info, w) \<Rightarrow>
        (let single = createSingleValidatorStats s ev info;
             overview = bind_outcome single (\<lambda>ps1. bind_outcome (createValidatorOverview s ev info) (\<lambda>ps2.
               bind_outcome (or_nothing (createEnergyStats s ev info)) (\<lambda>ps3. Ok (map Some (ps1 @ ps2 @ ps3))))) in
         case bindW (overview, w) (\<lambda>ps w. case createBlockPoints s ev w of
                (r, w) \<Rightarrow> (bind_outcome (or_nothing r) (\<lambda>ps4. Ok (ps @ ps4)), w)) of
           (Panic p, w) \<Rightarrow> Some (Panic p, w)
         | (Err e, w) \<Rightarrow> Some (Err e, w)
         | (Ok ps, w) \<Rightarrow>
             map_option (\<lambda>r. (bind_outcome (or_nothing r) (\<lambda>ps5. Ok (valid_points (ps @ map Some ps5))), w))
               (createSlotPoints s ev info)))))"

section \<open>The totals of the overview\<close>

definition active :: "Validation list \<Rightarrow> Validation list" where
  "active vs = filter (\<lambda>v. v_Status v = StatusActive) vs"

definition stake_counted :: "Validation \<Rightarrow> int" where
  "stake_counted v = the (v_TotalLockedStake v) + the (v_DelegatorStake v)"

text \<open>The state after a list of validators, as sums over the active ones.\<close>

definition overview_of :: "Validation list \<Rightarrow> overview \<Rightarrow> bool" where
  "overview_of vs s \<longleftrightarrow>
     ov_leaderGroup s = map_insert_all v_Address (active vs) [] \<and>
     ov_onlineValidators s = length (filter v_Online (active vs)) \<and>
     ov_offlineValidators s = length (filter (\<lambda>v. \<not> v_Online v) (active vs)) \<and>
     ov_onlineStake s = sum_list (map stake_counted (filter v_Online (active vs))) \<and>
     ov_offlineStake s = sum_list (map stake_counted (filter (\<lambda>v. \<not> v_Online v) (active vs))) \<and>
     ov_onlineWeight s = sum_list (map v_Weight (filter v_Online (active vs))) \<and>
     ov_offlineWeight s = sum_list (map v_Weight (filter (\<lambda>v. \<not> v_Online v) (active vs))) \<and>
     ov_accumulatedWeight s = sum_list (map v_Weight (active vs)) \<and>
     ov_accumulatedStake s = sum_list (map (\<lambda>v. v_LockedVET v + ScaleToVET (v_DelegatorStake v)) (active vs)) \<and>
     ov_exitingVET s = sum_list (map (\<lambda>v. the (v_TotalExitingStake v)) (filter (\<lambda>v. v_ExitBlock v \<noteq> None) (active vs)))"

lemma overview_of_empty: "overview_of [] empty_overview"
  by (simp add: overview_of_def empty_overview_def active_def)

lemma map_insert_all_snoc: "map_insert_all key (xs @ [x]) m = AList.update (key x) x (map_insert_all key xs m)"
  by (simp add: map_insert_all_def)

lemma big_arg_simps [simp]: "big_arg (Some x) = Ok x" "big_arg None = Panic NilDereference"
  by (simp_all add: big_arg_def)

lemma overview_add_of:
  assumes "accounted v" and "overview_of vs s"
  shows "\<exists>s'. overview_add v s = Ok s' \<and> overview_of (vs @ [v]) s'"
proof (cases "v_Status v = StatusActive")
  case False
  with assms(2) show ?thesis by (simp add: overview_add_def overview_of_def active_def)
next
  case True
  from assms(1) obtain total delegators exiting where amounts: "v_TotalLockedStake v = Some total"
      "v_DelegatorStake v = Some delegators" "v_TotalExitingStake v = Some exiting"
    unfolding accounted_def by blast
  with True assms(2) show ?thesis
    by (auto simp: overview_add_def overview_of_def active_def Let_def map_insert_all_snoc stake_counted_def
        algebra_simps)
qed

lemma overview_all_of:
  assumes "list_all accounted vs" and "overview_of us s"
  shows "\<exists>s'. overview_all vs s = Ok s' \<and> overview_of (us @ vs) s'"
  using assms
proof (induction vs arbitrary: us s)
  case (Cons v vs)
  then obtain s1 where "overview_add v s = Ok s1" "overview_of (us @ [v]) s1"
    using overview_add_of [of v us s] by auto
  with Cons.IH [of "us @ [v]" s1] Cons.prems show ?case by auto
qed auto

lemma sum_list_split: "sum_list (map f (filter P xs)) + sum_list (map f (filter (\<lambda>x. \<not> P x) xs)) = sum_list (map f xs)"
  for f :: "'a \<Rightarrow> 'b::comm_monoid_add"
  by (induction xs) (simp_all add: algebra_simps)

lemma overview_point:
  assumes "list_all accounted (si_Validations info)" and "si_TotalVET info = Some vet" and "si_QueuedVET info = Some queued"
  shows "\<exists>ov p. overview_of (si_Validations info) ov \<and> createValidatorOverview s ev info = Ok [p] \<and>
    pt_Fields p = overview_fields (pe_EpochLength (st_pos s)) (e_Block ev) info (vet + queued)
      (withdrawn_funds (st_StakerAddress s) (e_Block ev)) ov @ signer_fields ev ov"
  using overview_all_of [OF assms(1) overview_of_empty] assms(2,3)
  by (auto simp: createValidatorOverview_def)

section \<open>The points of the validators\<close>

lemma validator_points_Ok:
  assumes "list_all accounted vs"
  shows "\<exists>ps. validator_points ev q prev vs = Ok ps \<and>
    map (\<lambda>p. map_of (pt_Tags p) ''validator'') ps = map (\<lambda>v. Some (VAddr (v_Address v))) vs \<and>
    (\<forall>p \<in> set ps. pt_Fields p \<noteq> [])"
  using assms
proof (induction vs)
  case (Cons v vs)
  then obtain delegators where "v_DelegatorStake v = Some delegators" unfolding accounted_def by auto
  with Cons show ?case by (auto simp: validator_point_def validator_fields_def)
qed simp

lemma validator_points_nth:
  "validator_points ev q prev vs = Ok ps \<Longrightarrow> i < length vs \<Longrightarrow>
     i < length ps \<and> validator_point ev q prev (vs ! i) = Ok (ps ! i)"
proof (induction vs arbitrary: ps i)
  case (Cons v vs)
  then show ?case by (cases i) (auto simp: outcome_simps)
qed simp

lemma other_fields:
  "map_of (validator_fields n m v) (KStr ''queue_position'') = None"
  "map_of (change_fields prev v) (KStr ''queue_position'') = None"
  by (auto simp: validator_fields_def change_fields_def split: option.splits)

text \<open>The place in the queue of a validator.\<close>

lemma queue_orders_other:
  "a \<notin> v_Address ` set vs \<Longrightarrow> map_of (queue_orders vs c m) a = map_of m a"
  by (induction vs arbitrary: c m) (auto simp: update_conv')

lemma queue_orders_nth:
  assumes "i < length vs" and "v_Status (vs ! i) = StatusQueued" and "distinct (map v_Address vs)"
  shows "map_of (queue_orders vs c m) (v_Address (vs ! i)) =
    Some (c + length (filter (\<lambda>v. v_Status v = StatusQueued) (take i vs)))"
  using assms
proof (induction vs arbitrary: i c m)
  case (Cons v vs)
  show ?case
  proof (cases i)
    case 0
    with Cons.prems show ?thesis by (simp add: queue_orders_other update_conv')
  next
    case (Suc j)
    with Cons show ?thesis by simp
  qed
qed simp

section \<open>When the parts of Write return\<close>

text \<open>Staker information as \<open>FetchValidations\<close> gives it.\<close>

definition complete_info :: "StakerInformation \<Rightarrow> bool" where
  "complete_info info \<longleftrightarrow> list_all accounted (si_Validations info) \<and> si_TotalVET info \<noteq> None \<and>
     si_QueuedVET info \<noteq> None \<and> vtho_TotalSupply (si_VTHO info) \<noteq> None \<and> vtho_TotalBurned (si_VTHO info) \<noteq> None"

lemma single_returns:
  assumes "complete_info info"
  shows "\<exists>ps. createSingleValidatorStats s ev info = Ok ps"
proof -
  have "\<exists>ps. validator_points ev (queue_orders (si_Validations info) 0 []) prev (si_Validations info) = Ok ps" for prev
    using validator_points_Ok assms unfolding complete_info_def by blast
  then obtain ps where "validator_points ev (queue_orders (si_Validations info) 0 [])
      (case e_ParentStaker ev of None \<Rightarrow> [] | Some parent \<Rightarrow> ValidationMap parent) (si_Validations info) = Ok ps"
    by blast
  then show ?thesis by (simp add: createSingleValidatorStats_def Let_def)
qed

lemma overview_returns:
  "complete_info info \<Longrightarrow> \<exists>ps. createValidatorOverview s ev info = Ok ps"
  using overview_point [of info _ _ s ev] by (auto simp: complete_info_def)

lemma MissedSlots_Some:
  assumes "0 < pe_BlockInterval env" and "unat (blk_Timestamp b) + unat (pe_BlockInterval env) < 2 ^ 64"
  shows "\<exists>r. MissedSlots env parent vs b seed = Some r"
  using slot_times_Some [OF assms, of "blk_Timestamp parent + pe_BlockInterval env"]
  by (auto simp: MissedSlots_def Let_def split: sum.split)

section \<open>Properties\<close>

text \<open>If the parent's staker information is missing and cannot be fetched, the handler goes on to use it: under
  proof of stake it ends in a nil dereference.\<close>

theorem staker_Write_parent_missing:
  assumes "e_ParentStaker ev = None" and "e_Staker ev = Some info" and "complete_info info"
    and "hs_Forked (e_HayabusaStatus ev)" and "hs_Active (e_HayabusaStatus ev)"
    and "FetchValidations (ee_codec (st_events s)) (st_client s) (blk_ParentID (e_Block ev)) w = (Err e, w')"
  shows "staker_Write s ev w = Some (Panic NilDereference, w')"
proof -
  obtain ps1 ps2 where "createSingleValidatorStats s ev info = Ok ps1" "createValidatorOverview s ev info = Ok ps2"
    using single_returns [OF assms(3)] overview_returns [OF assms(3)] by metis
  then show ?thesis
    using assms by (simp add: staker_Write_def ensure_parent_def the_staker_def createEnergyStats_def or_nothing_def)
qed

text \<open>C31: The overview counts every active validator once, as online or as offline, and the weights of the two
  groups add up to the total; the stakes do not: each validator's total already holds its delegators' stake,
  which is added a second time.\<close>

theorem overview_totals:
  assumes "list_all accounted (si_Validations info)" and "createValidatorOverview s ev info = Ok ps"
  shows "\<exists>p on off. ps = [p] \<and>
    on = filter v_Online (active (si_Validations info)) \<and> off = filter (\<lambda>v. \<not> v_Online v) (active (si_Validations info)) \<and>
    field p ''online_validators'' = Some (VInt (int (length on))) \<and>
    field p ''offline_validators'' = Some (VInt (int (length off))) \<and>
    length on + length off = length (active (si_Validations info)) \<and>
    field p ''accumulated_weight'' = Some (VU64 (sum_list (map v_Weight on) + sum_list (map v_Weight off))) \<and>
    field p ''online_stake'' = Some (VU64 (ScaleToVET (Some (
      sum_list (map (\<lambda>v. the (v_TotalLockedStake v)) on) + sum_list (map (\<lambda>v. the (v_DelegatorStake v)) on)))))"
proof -
  from assms(2) obtain vet queued where "si_TotalVET info = Some vet" "si_QueuedVET info = Some queued"
    by (auto simp: createValidatorOverview_def outcome_simps big_arg_def split: option.splits)
  from overview_point [OF assms(1) this, of s ev] obtain ov p where ov: "overview_of (si_Validations info) ov"
      and p: "createValidatorOverview s ev info = Ok [p]"
      and f: "pt_Fields p = overview_fields (pe_EpochLength (st_pos s)) (e_Block ev) info (vet + queued)
        (withdrawn_funds (st_StakerAddress s) (e_Block ev)) ov @ signer_fields ev ov" by blast
  have "sum_list (map stake_counted vs) =
      sum_list (map (\<lambda>v. the (v_TotalLockedStake v)) vs) + sum_list (map (\<lambda>v. the (v_DelegatorStake v)) vs)" for vs
    by (induction vs) (simp_all add: stake_counted_def)
  with ov p assms(2) show ?thesis
    using sum_list_split [of v_Weight v_Online "active (si_Validations info)"]
      sum_length_filter_compl [of v_Online "active (si_Validations info)"]
    by (intro exI [of _ p]) (simp add: field_def f overview_fields_def overview_of_def)
qed

text \<open>C32: Every validator of the block gets exactly one point, in order, after one for each validator of the
  parent block that is gone, marked as exited.\<close>

theorem individual_validators:
  assumes "createSingleValidatorStats s ev info = Ok ps" and "list_all accounted (si_Validations info)"
    and "e_ParentStaker ev = Some parent" and "\<And>m. mset (st_validations s m) = mset m"
  shows "\<exists>exits currents. ps = exits @ currents \<and>
    map (\<lambda>p. map_of (pt_Tags p) ''validator'') currents = map (\<lambda>v. Some (VAddr (v_Address v))) (si_Validations info) \<and>
    distinct (map (\<lambda>p. map_of (pt_Tags p) ''validator'') exits) \<and>
    set (map (\<lambda>p. map_of (pt_Tags p) ''validator'') exits) =
      (\<lambda>a. Some (VAddr a)) ` (v_Address ` set (si_Validations parent) - v_Address ` set (si_Validations info)) \<and>
    (\<forall>p \<in> set exits. map_of (pt_Tags p) ''status'' = Some (VStr ''exited''))"
proof -
  let ?walk = "st_validations s (ValidationMap parent)"
    and ?gone = "\<lambda>(addr, v). map_of (ValidationMap info) addr = None"
  let ?exits = "map (\<lambda>(addr, v). exited_point ev addr v) (filter ?gone ?walk)"
  from assms(1,3) obtain currents where cur: "validator_points ev (queue_orders (si_Validations info) 0 []) (ValidationMap parent)
        (si_Validations info) = Ok currents" and ps: "ps = ?exits @ currents"
    by (auto simp: createSingleValidatorStats_def Let_def outcome_simps)
  have tags: "map (\<lambda>p. map_of (pt_Tags p) ''validator'') ?exits = map (\<lambda>a. Some (VAddr a)) (map fst (filter ?gone ?walk))"
    by (auto simp: exited_point_def Let_def)
  have keys: "set (map fst (ValidationMap parent)) = v_Address ` set (si_Validations parent)"
    by (simp only: set_map dom_map_of_conv_image_fst [symmetric] dom_ValidationMap)
  have none: "map_of (ValidationMap info) a = None \<longleftrightarrow> a \<notin> v_Address ` set (si_Validations info)" for a
    using dom_ValidationMap [of info] domIff [of a "map_of (ValidationMap info)"] by blast
  have walk: "set ?walk = set (ValidationMap parent)" using assms(4) by (metis set_mset_mset)
  have "set (map fst (filter ?gone ?walk)) = {a \<in> set (map fst ?walk). map_of (ValidationMap info) a = None}" by auto
  then have gone: "set (map fst (filter ?gone ?walk)) = v_Address ` set (si_Validations parent) - v_Address ` set (si_Validations info)"
    using keys walk by (simp only: none set_map) blast
  have "distinct (map fst ?walk)"
  proof -
    have "mset (map fst ?walk) = mset (map fst (ValidationMap parent))" using assms(4) by simp
    moreover have "distinct (map fst (ValidationMap parent))" by (simp add: ValidationMap_def map_insert_all_distinct)
    ultimately show ?thesis by (metis mset_eq_imp_distinct_iff)
  qed
  then have "distinct (map fst (filter ?gone ?walk))" by (rule distinct_map_filter)
  then have "distinct (map (\<lambda>a. Some (VAddr a)) (map fst (filter ?gone ?walk)))"
    by (subst distinct_map) (simp add: inj_on_def)
  then have "distinct (map (\<lambda>p. map_of (pt_Tags p) ''validator'') ?exits)" unfolding tags .
  moreover have "set (map (\<lambda>p. map_of (pt_Tags p) ''validator'') ?exits) =
      (\<lambda>a. Some (VAddr a)) ` (v_Address ` set (si_Validations parent) - v_Address ` set (si_Validations info))"
    unfolding tags by (subst set_map) (simp only: gone)
  moreover have "map (\<lambda>p. map_of (pt_Tags p) ''validator'') currents = map (\<lambda>v. Some (VAddr (v_Address v))) (si_Validations info)"
    using validator_points_Ok [OF assms(2), of ev "queue_orders (si_Validations info) 0 []" "ValidationMap parent"] cur by auto
  moreover have "\<forall>p \<in> set ?exits. map_of (pt_Tags p) ''status'' = Some (VStr ''exited'')"
    by (auto simp: exited_point_def Let_def)
  ultimately show ?thesis unfolding ps by (intro exI [of _ ?exits] exI [of _ currents] conjI refl)
qed

text \<open>The queue position of a queued validator is the number of queued validators listed before it.\<close>

theorem queue_positions:
  assumes "createSingleValidatorStats s ev info = Ok ps" and "i < length (si_Validations info)"
    and "v_Status (si_Validations info ! i) = StatusQueued" and "distinct (map v_Address (si_Validations info))"
  shows "\<exists>p \<in> set ps. map_of (pt_Tags p) ''validator'' = Some (VAddr (v_Address (si_Validations info ! i))) \<and>
    field p ''queue_position'' = Some (VInt (int (length (filter (\<lambda>v. v_Status v = StatusQueued) (take i (si_Validations info))))))"
proof -
  define v where "v = si_Validations info ! i"
  from assms(1) obtain exits q prev currents where ps: "ps = exits @ currents"
      and cur: "validator_points ev (queue_orders (si_Validations info) 0 []) prev (si_Validations info) = Ok currents"
    by (auto simp: createSingleValidatorStats_def Let_def outcome_simps)
  from validator_points_nth [OF cur assms(2)] obtain p where p: "p \<in> set currents"
      and point: "validator_point ev (queue_orders (si_Validations info) 0 []) prev v = Ok p"
    unfolding v_def by (metis nth_mem)
  have "map_of (queue_orders (si_Validations info) 0 []) (v_Address v) =
      Some (length (filter (\<lambda>v. v_Status v = StatusQueued) (take i (si_Validations info))))"
    using queue_orders_nth [OF assms(2-4), of 0 "[]"] by (simp add: v_def)
  then show ?thesis
    using point assms(3) p unfolding ps
    by (intro bexI [of _ p])
      (auto simp: validator_point_def outcome_simps field_def other_fields map_add_def simp flip: v_def)
qed

section \<open>Sample instances\<close>

definition sample_st :: "int staker" where
  "sample_st = \<lparr>st_pos = sample_pos_env, st_events = sample_event_env, st_client = sample_client, st_abis = sample_abis,
     st_StakerAddress = Address 8, st_validations = \<lambda>m. m\<rparr>"

lemma sample_accounted: "accounted (sample_validation a b)"
  by (simp add: accounted_def sample_validation_def ScaleToVET_def VET_def big_Uint64_def)

lemma sample_complete: "complete_info sample_staker"
  by (simp add: complete_info_def sample_staker_def sample_accounted)

theorem staker_Write_parent_missing_witness:
  "\<exists>s w. staker_Write s (pos_input\<lparr>e_ParentStaker := None\<rparr>) (0 :: int) = Some (Panic NilDereference, w)"
proof -
  let ?s = "sample_st\<lparr>st_client := sample_client\<lparr>cl_InspectClauses := \<lambda>cs r w. (Inl ErrNotFound, w)\<rparr>\<rparr>"
    and ?ev = "pos_input\<lparr>e_ParentStaker := None\<rparr>"
  obtain e w' where f: "FetchValidations (ee_codec (st_events ?s)) (st_client ?s) (blk_ParentID (e_Block ?ev)) 0 = (Err e, w')"
    by (auto simp: FetchValidations_def fetchStakerInfo_def sample_st_def sample_event_env_def sample_codec_def
        wrap_err_def Let_def)
  have "staker_Write ?s ?ev 0 = Some (Panic NilDereference, w')"
    by (rule staker_Write_parent_missing [OF _ _ sample_complete _ _ f]) simp_all
  then show ?thesis by blast
qed

lemma sample_active: "active (si_Validations sample_staker) = si_Validations sample_staker"
  by (simp add: active_def sample_staker_def)

theorem overview_totals_witness:
  "\<exists>p. createValidatorOverview sample_st pos_input sample_staker = Ok [p] \<and>
     field p ''online_validators'' = Some (VInt 1) \<and> field p ''offline_validators'' = Some (VInt 1) \<and>
     field p ''online_stake'' = Some (VU64 50)"
proof -
  have acc: "list_all accounted (si_Validations sample_staker)" using sample_complete by (simp add: complete_info_def)
  obtain ps where "createValidatorOverview sample_st pos_input sample_staker = Ok ps"
    using overview_returns [OF sample_complete] by blast
  with overview_totals [OF acc this] show ?thesis
    by (auto simp: sample_active) (auto simp: sample_staker_def sample_validation_def ScaleToVET_def VET_def big_Uint64_def)
qed

theorem individual_validators_witness:
  "\<exists>exits currents. createSingleValidatorStats sample_st pos_input sample_staker = Ok (exits @ currents) \<and>
     map (\<lambda>p. map_of (pt_Tags p) ''validator'') currents = [Some (VAddr (Address 1)), Some (VAddr (Address 2))]"
proof -
  have acc: "list_all accounted (si_Validations sample_staker)" using sample_complete by (simp add: complete_info_def)
  obtain ps where ps: "createSingleValidatorStats sample_st pos_input sample_staker = Ok ps"
    using single_returns [OF sample_complete] by blast
  have parent: "e_ParentStaker pos_input = Some sample_staker" by simp
  have law: "mset (st_validations sample_st m) = mset m" for m by (simp add: sample_st_def)
  obtain exits currents where "ps = exits @ currents" and
    "map (\<lambda>p. map_of (pt_Tags p) ''validator'') currents = map (\<lambda>v. Some (VAddr (v_Address v))) (si_Validations sample_staker)"
    using individual_validators [OF ps acc parent law] by (elim exE conjE) (rule that)
  with ps show ?thesis by (intro exI [of _ exits] exI [of _ currents]) (simp add: sample_staker_def)
qed

definition queued_staker :: StakerInformation where
  "queued_staker = sample_staker\<lparr>si_Validations :=
     [sample_validation 1 True, (sample_validation 2 True)\<lparr>v_Status := StatusQueued\<rparr>,
      (sample_validation 3 True)\<lparr>v_Status := StatusQueued\<rparr>]\<rparr>"

theorem queue_positions_witness:
  "\<exists>ps p. createSingleValidatorStats sample_st pos_input queued_staker = Ok ps \<and> p \<in> set ps \<and>
     map_of (pt_Tags p) ''validator'' = Some (VAddr (Address 3)) \<and> field p ''queue_position'' = Some (VInt 1)"
proof -
  have "accounted (v\<lparr>v_Status := x\<rparr>) = accounted v" for v x by (simp add: accounted_def)
  then have "complete_info queued_staker"
    using sample_complete by (simp add: complete_info_def queued_staker_def sample_accounted)
  then obtain ps where ps: "createSingleValidatorStats sample_st pos_input queued_staker = Ok ps"
    using single_returns by blast
  have "\<exists>p \<in> set ps. map_of (pt_Tags p) ''validator'' = Some (VAddr (v_Address (si_Validations queued_staker ! 2))) \<and>
      field p ''queue_position'' = Some (VInt (int (length (filter (\<lambda>v. v_Status v = StatusQueued) (take 2 (si_Validations queued_staker))))))"
    by (rule queue_positions [OF ps]) (simp_all add: queued_staker_def)
  with ps show ?thesis by (auto simp: queued_staker_def)
qed

end
