(* ===== verification/Owners.thy ===== *)
theory Owners
  imports Samples
begin

text \<open>
  \<^verbatim>\<open>excel/excel_helper.go\<close>: the owners of the authority nodes, read from a sheet of a
  workbook in a cloned repository. Cloning and opening the workbook are parameters, and so is the
  thor library's address parser.
\<close>

record Owner =
  ow_MasterAddress :: address
  ow_Owner :: string
  ow_PointOfContact :: string
  ow_Network :: string

text \<open>Making the directory, cloning into it, opening the file, reading the rows of a sheet.\<close>

record 'w registry =
  rg_MkdirTemp :: "'w \<Rightarrow> (gerror + string) \<times> 'w"
  rg_MkdirAll :: "string \<Rightarrow> 'w \<Rightarrow> gerror option \<times> 'w"
  rg_Clone :: "string \<Rightarrow> string \<Rightarrow> 'w \<Rightarrow> gerror option \<times> 'w"
  rg_OpenFile :: "string \<Rightarrow> 'w \<Rightarrow> gerror option \<times> 'w"
  rg_GetRows :: "string \<Rightarrow> string \<Rightarrow> 'w \<Rightarrow> (gerror + string list list) \<times> 'w"
  rg_ParseAddress :: "string \<Rightarrow> gerror + address"

definition validatorFileName :: string where
  "validatorFileName = ''Validators.xlsx''"

definition DownloadRegistry :: "'w registry \<Rightarrow> string \<Rightarrow> 'w \<Rightarrow> (gerror + string) \<times> 'w" where
  "DownloadRegistry rg ownersRepo w =
     (case rg_MkdirTemp rg w of
        (Inl e, w) \<Rightarrow> (Inl (ErrWrap ''failed to create temp directory'' e), w)
      | (Inr tempDir, w) \<Rightarrow>
          (case rg_MkdirAll rg tempDir w of
             (Some e, w) \<Rightarrow> (Inl (ErrWrap ''failed to create download directory'' e), w)
           | (None, w) \<Rightarrow>
               (case rg_Clone rg ownersRepo tempDir w of
                  (Some e, w) \<Rightarrow> (Inl (ErrWrap ''failed to clone repository'' e), w)
                | (None, w) \<Rightarrow> (Inr (tempDir @ ''/'' @ validatorFileName), w))))"

text \<open>A row that is too short or whose address does not parse is skipped.\<close>

fun owner_of_row :: "(string \<Rightarrow> gerror + address) \<Rightarrow> string list \<Rightarrow> Owner option" where
  "owner_of_row parse (c0 # network # master # owner # contact # rest) =
     (case parse master of
        Inl e \<Rightarrow> None
      | Inr a \<Rightarrow> Some \<lparr>ow_MasterAddress = a, ow_Owner = owner, ow_PointOfContact = contact, ow_Network = network\<rparr>)"
| "owner_of_row parse row = None"

definition owners_of_rows :: "(string \<Rightarrow> gerror + address) \<Rightarrow> string list list \<Rightarrow> Owner list" where
  "owners_of_rows parse rows = List.map_filter (owner_of_row parse) (tl rows)"

definition ParseOwnersFromXLSX :: "'w registry \<Rightarrow> string \<Rightarrow> 'w \<Rightarrow> (gerror + Owner list) \<times> 'w" where
  "ParseOwnersFromXLSX rg ownersRepo w =
     (case DownloadRegistry rg ownersRepo w of
        (Inl e, w) \<Rightarrow> (Inl (ErrWrap ''failed to create temp dir'' e), w)
      | (Inr excelFile, w) \<Rightarrow>
          (case rg_OpenFile rg excelFile w of
             (Some e, w) \<Rightarrow> (Inl (ErrWrap ''failed to open file'' e), w)
           | (None, w) \<Rightarrow>
               (case rg_GetRows rg excelFile ''Owners'' w of
                  (Inl e, w) \<Rightarrow> (Inl (ErrWrap ''failed to get rows'' e), w)
                | (Inr rows, w) \<Rightarrow>
                    if rows = [] then (Inl (ErrMsg ''empty sheet''), w)
                    else (Inr (owners_of_rows (rg_ParseAddress rg) rows), w))))"

section \<open>Which rows become owners\<close>

lemma owner_of_row_eq:
  "owner_of_row parse row =
     (if length row < 5 then None
      else (case parse (row ! 2) of Inl e \<Rightarrow> None
        | Inr a \<Rightarrow> Some \<lparr>ow_MasterAddress = a, ow_Owner = row ! 3, ow_PointOfContact = row ! 4, ow_Network = row ! 1\<rparr>))"
  by (cases "(parse, row)" rule: owner_of_row.cases) (simp_all split: sum.split)

lemma owners_of_rows_set:
  "set (owners_of_rows parse rows) =
     {o'. \<exists>i. 1 \<le> i \<and> i < length rows \<and> owner_of_row parse (rows ! i) = Some o'}"
proof -
  have "set (tl rows) = {rows ! i | i. 1 \<le> i \<and> i < length rows}"
  proof (cases rows)
    case (Cons r rs)
    have "{(r # rs) ! i | i. 1 \<le> i \<and> i < length (r # rs)} = {rs ! i | i. i < length rs}"
    proof (rule set_eqI, rule iffI)
      fix x assume "x \<in> {(r # rs) ! i | i. 1 \<le> i \<and> i < length (r # rs)}"
      then obtain i where "x = (r # rs) ! i" "1 \<le> i" "i < length (r # rs)" by blast
      then show "x \<in> {rs ! i | i. i < length rs}" by (cases i) auto
    next
      fix x assume "x \<in> {rs ! i | i. i < length rs}"
      then obtain i where "x = rs ! i" "i < length rs" by blast
      then show "x \<in> {(r # rs) ! i | i. 1 \<le> i \<and> i < length (r # rs)}" by (intro CollectI exI [of _ "Suc i"]) simp
    qed
    with Cons show ?thesis by (simp add: set_conv_nth)
  qed simp
  moreover have "set (List.map_filter f xs) = {y. \<exists>x \<in> set xs. f x = Some y}" for f :: "string list \<Rightarrow> Owner option" and xs
    by (induction xs) (auto simp: List.map_filter_simps split: option.split)
  ultimately show ?thesis unfolding owners_of_rows_def by (simp only:) auto
qed

end
