(* ===== verification/AuthorityList.thy ===== *)
theory AuthorityList
  imports Owners SlotCalculator
begin

text \<open>
  \<^verbatim>\<open>stats/authority/list.go\<close>: the cached list of authority candidates, its decoding out
  of the hexadecimal answer of a simulated call, the shuffle, and the points about slots under
  proof of authority. The address parser of the thor library is a parameter.
\<close>

section \<open>listAllCandidates\<close>

record Candidate =
  ca_Master :: address
  ca_Endorsor :: address
  ca_Identity :: bytes
  ca_Active :: bool

definition take64 :: "string \<Rightarrow> string outcome" where
  "take64 data = (if 64 \<le> length data then Ok (take 64 data) else Panic IndexOutOfRange)"

text \<open>\<open>thor.MustParseAddress(data[24:64])\<close>.\<close>

definition candidate_address :: "(string \<Rightarrow> gerror + address) \<Rightarrow> string \<Rightarrow> address outcome" where
  "candidate_address parse data =
     bind_outcome (take64 data) (\<lambda>word.
       case parse (drop 24 word) of Inl e \<Rightarrow> Panic ExplicitPanic | Inr a \<Rightarrow> Ok a)"

definition decode_candidate :: "(string \<Rightarrow> gerror + address) \<Rightarrow> string \<Rightarrow> Candidate outcome" where
  "decode_candidate parse data =
     bind_outcome (candidate_address parse data) (\<lambda>master.
     bind_outcome (candidate_address parse (drop 64 data)) (\<lambda>endorsor.
     bind_outcome (take64 (drop 128 data)) (\<lambda>identity.
     bind_outcome (take64 (drop 192 data)) (\<lambda>activeString.
       Ok \<lparr>ca_Master = master, ca_Endorsor = endorsor, ca_Identity = hex_bytes identity,
           ca_Active = (activeString \<noteq> replicate 64 (CHR ''0''))\<rparr>))))"

text \<open>The loop over the candidates. (An amount too large for \<open>make\<close> panics there instead of here.)\<close>

fun decode_candidates :: "(string \<Rightarrow> gerror + address) \<Rightarrow> nat \<Rightarrow> string \<Rightarrow> Candidate list outcome" where
  "decode_candidates parse 0 data = Ok []"
| "decode_candidates parse (Suc n) data =
     bind_outcome (decode_candidate parse data) (\<lambda>c.
     bind_outcome (decode_candidates parse n (drop 256 data)) (\<lambda>cs. Ok (c # cs)))"

definition nil_check :: "int option \<Rightarrow> int outcome" where
  "nil_check x = (case x of None \<Rightarrow> Panic NilDereference | Some i \<Rightarrow> Ok i)"

definition decode_list :: "(string \<Rightarrow> gerror + address) \<Rightarrow> string \<Rightarrow> Candidate list outcome" where
  "decode_list parse data0 =
     bind_outcome (if 2 \<le> length data0 then Ok (drop 2 data0) else Panic IndexOutOfRange) (\<lambda>data.
     bind_outcome (take64 data) (\<lambda>word.
     bind_outcome (nil_check (SetString16 word)) (\<lambda>valueType.
     if valueType \<noteq> 32 then Err (ErrMsg ''wrong type returned by the contract'')
     else bind_outcome (take64 (drop 64 data)) (\<lambda>word.
       bind_outcome (nil_check (SetString16 word)) (\<lambda>amount.
         decode_candidates parse (unat (big_Uint64 amount)) (drop 128 data))))))"

definition candidate_clauses :: "clause list" where
  "candidate_clauses =
     [\<lparr>cls_To = None, cls_Data = CallBytecode ''AuthorityListAll''\<rparr>,
      \<lparr>cls_To = Some (Address 0x841a6556c524d47030762eb14dc4af897e605d9b), cls_Data = CallMethod ''candidates''\<rparr>]"

definition listAllCandidates ::
  "(string \<Rightarrow> gerror + address) \<Rightarrow> 'w client \<Rightarrow> bytes32 \<Rightarrow> 'w \<Rightarrow> Candidate list outcome \<times> 'w" where
  "listAllCandidates parse cl blockID w =
     (case cl_InspectClauses cl candidate_clauses (RevID blockID) w of
        (Inl e, w) \<Rightarrow> (Err e, w)
      | (Inr response, w) \<Rightarrow>
          (bind_outcome (nth_or_panic response 1) (\<lambda>r. decode_list parse (cr_Data r)), w))"

section \<open>shuffleCandidates\<close>

fun candidate_hashes :: "slot_env \<Rightarrow> bytes \<Rightarrow> u32 \<Rightarrow> Candidate list \<Rightarrow> (address \<times> bytes32) list" where
  "candidate_hashes env seed n [] = []"
| "candidate_hashes env seed n (p # ps) =
     (if ca_Active p
      then (ca_Master p, sv_Blake2b env (seed @ put_uint32 n @ address_bytes (ca_Master p))) # candidate_hashes env seed n ps
      else candidate_hashes env seed n ps)"

definition shuffleCandidates :: "slot_env \<Rightarrow> Candidate list \<Rightarrow> bytes \<Rightarrow> u32 \<Rightarrow> address list" where
  "shuffleCandidates env candidates seed blockNumber =
     map fst (sort_key snd (candidate_hashes env seed blockNumber candidates))"

section \<open>The list\<close>

record 'w authority_env =
  ae_slots :: slot_env
  ae_client :: "'w client"
  ae_registry :: "'w registry"
  ae_AuthorityAddress :: address
  ae_ParamsAddress :: address
  ae_BlockInterval :: u64
  ae_EpochLength :: u32

record authority_list =
  al_candidates :: "Candidate list"
  al_updateBlock :: u32
  al_owners :: "(address, Owner) gomap"
  al_ownersRepo :: string

definition NewList :: "string \<Rightarrow> authority_list" where
  "NewList ownersRepo = \<lparr>al_candidates = [], al_updateBlock = 0, al_owners = [], al_ownersRepo = ownersRepo\<rparr>"

definition authority_Len :: "authority_list \<Rightarrow> nat" where
  "authority_Len l = length (al_candidates l)"

definition Invalidate :: "authority_list \<Rightarrow> authority_list" where
  "Invalidate l = l\<lparr>al_candidates := [], al_updateBlock := 0\<rparr>"

definition block_outputs :: "Block \<Rightarrow> JSONOutput list" where
  "block_outputs b = concat (map tx_Outputs (blk_Transactions b))"

definition has_event_of :: "address \<Rightarrow> Block \<Rightarrow> bool" where
  "has_event_of a b = list_ex (\<lambda>out. list_ex (\<lambda>ev. ev_Address ev = a) (out_Events out)) (block_outputs b)"

definition has_endorsor_event :: "address \<Rightarrow> address list \<Rightarrow> Block \<Rightarrow> bool" where
  "has_endorsor_event params parties b =
     list_ex (\<lambda>out. list_ex (\<lambda>ev. ev_Address ev = params) (out_Events out) \<or>
         list_ex (\<lambda>t. tr_Sender t \<in> set parties \<or> tr_Recipient t \<in> set parties) (out_Transfers out))
       (block_outputs b)"

definition ShouldReset :: "'w authority_env \<Rightarrow> authority_list \<Rightarrow> Block \<Rightarrow> bool" where
  "ShouldReset env l b =
     (if al_candidates l = [] then True
      else if blk_Number b < al_updateBlock l then False
      else if \<not> has_event_of (ae_AuthorityAddress env) b
      then has_endorsor_event (ae_ParamsAddress env)
        (concat (map (\<lambda>c. [ca_Endorsor c, ca_Master c]) (al_candidates l))) b
      else False)"

definition RefreshOwnersList :: "'w authority_env \<Rightarrow> authority_list \<Rightarrow> 'w \<Rightarrow> authority_list \<times> 'w" where
  "RefreshOwnersList env l w =
     (if al_ownersRepo l = [] then (l, w)
      else
        (case ParseOwnersFromXLSX (ae_registry env) (al_ownersRepo l) w of
           (Inl e, w) \<Rightarrow> (l, w)
         | (Inr owners, w) \<Rightarrow> (l\<lparr>al_owners := map_insert_all ow_MasterAddress owners (al_owners l)\<rparr>, w)))"

definition authority_Init ::
  "'w authority_env \<Rightarrow> bytes32 \<Rightarrow> u32 \<Rightarrow> authority_list \<Rightarrow> 'w \<Rightarrow> unit outcome \<times> authority_list \<times> 'w" where
  "authority_Init env revision blockNum l w =
     (case listAllCandidates (rg_ParseAddress (ae_registry env)) (ae_client env) revision w of
        (Panic p, w) \<Rightarrow> (Panic p, l, w)
      | (Err e, w) \<Rightarrow> (Err e, l, w)
      | (Ok candidates, w) \<Rightarrow>
          (Ok (), RefreshOwnersList env (l\<lparr>al_candidates := candidates, al_updateBlock := blockNum\<rparr>) w))"

definition Shuffled ::
  "'w authority_env \<Rightarrow> Block \<Rightarrow> bytes \<Rightarrow> authority_list \<Rightarrow> 'w \<Rightarrow> address list outcome \<times> authority_list \<times> 'w" where
  "Shuffled env prev seed l w =
     (case (if al_candidates l = [] then authority_Init env (blk_ID prev) (blk_Number prev) l w else (Ok (), l, w)) of
        (Panic p, l, w) \<Rightarrow> (Panic p, l, w)
      | (Err e, l, w) \<Rightarrow> (Err (ErrWrap ''failed to initialize authority list'' e), l, w)
      | (Ok (), l, w) \<Rightarrow> (Ok (shuffleCandidates (ae_slots env) (al_candidates l) seed (blk_Number prev)), l, w))"

definition getOwnerAndContactForProposer :: "authority_list \<Rightarrow> address \<Rightarrow> string \<times> string" where
  "getOwnerAndContactForProposer l proposer =
     (case map_of (al_owners l) proposer of
        None \<Rightarrow> (''?'', ''?'')
      | Some owner \<Rightarrow> (ow_Owner owner, ow_PointOfContact owner))"

section \<open>Write\<close>

definition topFiveProposers :: nat where
  "topFiveProposers = 5"

definition slots_since :: "u64 \<Rightarrow> Block \<Rightarrow> Block \<Rightarrow> u64" where
  "slots_since interval b prev = (blk_Timestamp b - blk_Timestamp prev + interval - 1) div interval"

definition start_slot :: "u64 \<Rightarrow> u64" where
  "start_slot slotsSinceLastBlock = (if 360 < slotsSinceLastBlock then slotsSinceLastBlock - 360 else 0)"

definition slot_tags :: "authority_list \<Rightarrow> nat \<Rightarrow> address \<Rightarrow> (string, val) gomap" where
  "slot_tags l filled proposer =
     (case getOwnerAndContactForProposer l proposer of (ownerName, contact) \<Rightarrow>
        [(''filled'', VInt (int filled)), (''proposer'', VAddr proposer), (''owner'', VStr ownerName),
         (''contact'', VStr contact)])"

definition recent_point :: "u32 \<Rightarrow> Block \<Rightarrow> authority_list \<Rightarrow> nat \<Rightarrow> address \<Rightarrow> int \<Rightarrow> point" where
  "recent_point epoch b l filled proposer t =
     \<lparr>pt_Measurement = ''recent_slots'', pt_Tags = slot_tags l filled proposer,
      pt_Fields = [(KStr ''epoch'', VU32 epoch), (KStr ''block_number'', VU32 (blk_Number b))], pt_Time = t\<rparr>"

text \<open>The statuses of the candidates, the signer, and the first five of the shuffle, keyed as in the map.\<close>

definition candidate_key :: "nat \<Rightarrow> fkey" where
  "candidate_key idx = KStr (''candidates'' @ [char_of (48 + idx)])"

definition authority_fields :: "authority_list \<Rightarrow> Block \<Rightarrow> address list \<Rightarrow> (fkey, val) gomap" where
  "authority_fields l b shuffled =
     foldl (\<lambda>m idx. AList.update (candidate_key idx) (VAddr (shuffled ! idx)) m)
       (AList.update (KStr ''block_number'') (VU32 (blk_Number b))
         (AList.update (KStr ''signer'') (VAddr (blk_Signer b))
           (foldl (\<lambda>m c. AList.update (KAddr (ca_Master c)) (VBool (ca_Active c)) m) [] (al_candidates l))))
       [0..<(if length shuffled < topFiveProposers then length shuffled else topFiveProposers)]"

text \<open>The proposer of slot \<open>a\<close>; \<open>int(a)\<close> is negative from \<open>2 ^ 63\<close> on.\<close>

definition slot_proposer :: "address list \<Rightarrow> u64 \<Rightarrow> address outcome" where
  "slot_proposer shuffled a =
     (if int (length shuffled) \<le> sint a then Ok (Address 0) else nth_or_panic shuffled (unat a))"

text \<open>The loop over the slots carries the proposer; it stops before the block's own slot.\<close>

fun slot_points ::
  "u64 \<Rightarrow> u32 \<Rightarrow> Block \<Rightarrow> Block \<Rightarrow> authority_list \<Rightarrow> address list \<Rightarrow> u64 \<Rightarrow> address \<Rightarrow> nat list \<Rightarrow> point list outcome" where
  "slot_points interval epoch b prev l shuffled slots proposer [] = Ok []"
| "slot_points interval epoch b prev l shuffled slots proposer (i # is) =
     (let a = word_of_nat i; isFilled = (a = slots - 1) in
      bind_outcome (if isFilled then Ok proposer else slot_proposer shuffled a) (\<lambda>proposer.
      bind_outcome (slot_points interval epoch b prev l shuffled slots proposer is) (\<lambda>ps.
        Ok (recent_point epoch b l (if isFilled then 1 else 0) proposer
              (unix_time (blk_Timestamp prev + a * interval)) # ps))))"

definition missed_slot_points :: "Block \<Rightarrow> address list \<Rightarrow> point list" where
  "missed_slot_points b shuffled =
     (case shuffled of
        [] \<Rightarrow> []
      | expected # rest \<Rightarrow>
          if expected = blk_Signer b then []
          else [\<lparr>pt_Measurement = ''missed_slots'', pt_Tags = [(''actual_proposer'', VAddr (blk_Signer b))],
                 pt_Fields = [(KStr ''expected_proposer'', VAddr expected), (KStr ''block_number'', VU32 (blk_Number b))],
                 pt_Time = unix_time (blk_Timestamp b)\<rparr>])"

definition aggregated_points :: "Event \<Rightarrow> Block \<Rightarrow> u64 \<Rightarrow> point list" where
  "aggregated_points ev prev slots =
     (if 360 < slots
      then [\<lparr>pt_Measurement = ''aggregated_slots'', pt_Tags = e_DefaultTags ev,
             pt_Fields = [(KStr ''missed'', VU64 (slots - 360 - 1)), (KStr ''filled'', VInt 1)],
             pt_Time = unix_time (blk_Timestamp prev)\<rparr>]
      else [])"

text \<open>The points of a block with a previous block; a failed shuffle leaves an empty list.\<close>

definition block_slot_points ::
  "'w authority_env \<Rightarrow> Event \<Rightarrow> Block \<Rightarrow> authority_list \<Rightarrow> 'w \<Rightarrow> point list outcome \<times> authority_list \<times> 'w" where
  "block_slot_points env ev prev l w =
     (let b = e_Block ev; epoch = blk_Number b div ae_EpochLength env;
          slots = slots_since (ae_BlockInterval env) b prev in
      case Shuffled env prev (e_Seed ev) l w of
        (Panic p, l1, w1) \<Rightarrow> (Panic p, l1, w1)
      | (r, l1, w1) \<Rightarrow>
          (let shuffled = (case r of Ok s \<Rightarrow> s | _ \<Rightarrow> []) in
           (bind_outcome (slot_points (ae_BlockInterval env) epoch b prev l1 shuffled slots (blk_Signer b)
                [unat (start_slot slots)..<unat (slots - 1)]) (\<lambda>empties.
              Ok ([recent_point epoch b l 1 (blk_Signer b) (e_Timestamp ev),
                   \<lparr>pt_Measurement = ''authority_nodes'', pt_Tags = e_DefaultTags ev,
                    pt_Fields = authority_fields l b shuffled, pt_Time = unix_time (blk_Timestamp b)\<rparr>] @
                  missed_slot_points b shuffled @ empties @ aggregated_points ev prev slots)), l1, w1)))"

definition refresh_list :: "'w authority_env \<Rightarrow> Block \<Rightarrow> authority_list \<Rightarrow> 'w \<Rightarrow> unit outcome \<times> authority_list \<times> 'w" where
  "refresh_list env b l w =
     (if ShouldReset env l b then authority_Init env (blk_ID b) (blk_Number b) l w
      else if blk_Number b mod (ae_EpochLength env * 2) = 0 then (Ok (), RefreshOwnersList env l w)
      else (Ok (), l, w))"

definition authority_Write ::
  "'w authority_env \<Rightarrow> Event \<Rightarrow> authority_list \<Rightarrow> 'w \<Rightarrow> point list outcome \<times> authority_list \<times> 'w" where
  "authority_Write env ev l w =
     (if hs_Active (e_HayabusaStatus ev) then (Ok [], l, w)
      else
        (case (case e_Prev ev of None \<Rightarrow> (Ok [], l, w) | Some prev \<Rightarrow> block_slot_points env ev prev l w) of
           (Ok points, l1, w1) \<Rightarrow>
             (case refresh_list env (e_Block ev) l1 w1 of
                (Panic p, l2, w2) \<Rightarrow> (Panic p, l2, w2)
              | (_, l2, w2) \<Rightarrow> (Ok points, l2, w2))
         | (r, l1, w1) \<Rightarrow> (r, l1, w1)))"

section \<open>The encoding of the answer\<close>

text \<open>What the contract answers, as hexadecimal text: every word has 64 digits.\<close>

definition encode_candidate :: "Candidate \<Rightarrow> string" where
  "encode_candidate c =
     replicate 24 (CHR ''0'') @ address_text (ca_Master c) @ replicate 24 (CHR ''0'') @ address_text (ca_Endorsor c) @
     bytes_text (ca_Identity c) @ hex_text 64 (if ca_Active c then 1 else 0)"

definition encode_list :: "Candidate list \<Rightarrow> string" where
  "encode_list cs = ''0x'' @ hex_text 64 32 @ hex_text 64 (length cs) @ concat (map encode_candidate cs)"

lemma length_encode_candidate: "length (ca_Identity c) = 32 \<Longrightarrow> length (encode_candidate c) = 256"
  by (simp add: encode_candidate_def address_text_def length_bytes_text)

lemma decode_encode_candidate:
  assumes "length (ca_Identity c) = 32" and "\<And>a. parse (address_text a) = Inr a"
  shows "decode_candidate parse (encode_candidate c @ rest) = Ok c"
proof -
  let ?z = "replicate 24 (CHR ''0'')" and ?m = "address_text (ca_Master c)" and ?e = "address_text (ca_Endorsor c)"
    and ?i = "bytes_text (ca_Identity c)" and ?a = "hex_text 64 (if ca_Active c then 1 else 0)"
  have len: "length ?m = 40" "length ?e = 40" "length ?i = 64" "length ?a = 64"
    using assms(1) by (simp_all add: address_text_def length_bytes_text)
  have data: "encode_candidate c @ rest = ?z @ ?m @ ?z @ ?e @ ?i @ ?a @ rest"
    by (simp add: encode_candidate_def del: hex_text.simps)
  have word: "take64 (xs @ ys) = Ok xs" if "length xs = 64" for xs ys using that by (simp add: take64_def)
  have drops: "drop 64 (?z @ ?m @ ?z @ ?e @ ?i @ ?a @ rest) = ?z @ ?e @ ?i @ ?a @ rest"
    "drop 128 (?z @ ?m @ ?z @ ?e @ ?i @ ?a @ rest) = ?i @ ?a @ rest"
    "drop 192 (?z @ ?m @ ?z @ ?e @ ?i @ ?a @ rest) = ?a @ rest"
    using len by (simp_all del: hex_text.simps)
  have addr: "candidate_address parse (?z @ address_text a @ ys) = Ok a" for a ys
  proof -
    have "length (?z @ address_text a) = 64" by (simp add: address_text_def del: hex_text.simps)
    from word [OF this, of ys] have "take64 (?z @ address_text a @ ys) = Ok (?z @ address_text a)" by simp
    then show ?thesis using assms(2) by (simp add: candidate_address_def)
  qed
  have "hex_char 0 = CHR ''0''" by code_simp
  then have zeros: "hex_text k 0 = replicate k (CHR ''0'')" for k
    by (induction k) (simp_all add: replicate_append_same)
  have one: "hex_text 64 1 \<noteq> replicate 64 (CHR ''0'')"
    using hex_number_text [of 0 64 1] hex_number_text [of 0 64 0] unfolding zeros [symmetric] by auto
  show ?thesis
    unfolding data decode_candidate_def drops addr word [OF len(3)] word [OF len(4)]
    using one zeros [of 64] by (cases "ca_Active c") (simp_all add: hex_bytes_text del: hex_text.simps)
qed

lemma decode_encode_candidates:
  assumes "\<And>a. parse (address_text a) = Inr a" and "list_all (\<lambda>c. length (ca_Identity c) = 32) cs"
  shows "decode_candidates parse (length cs) (concat (map encode_candidate cs)) = Ok cs"
  using assms(2)
proof (induction cs)
  case (Cons c cs)
  then have "length (ca_Identity c) = 32" by simp
  then show ?case
    using Cons decode_encode_candidate [OF _ assms(1), where c = c and rest = "concat (map encode_candidate cs)"]
      length_encode_candidate [of c]
    by simp
qed simp

section \<open>The empty slots\<close>

lemma slot_tags_filled [simp]: "map_of (slot_tags l n a) ''filled'' = Some (VInt (int n))"
  by (cases "getOwnerAndContactForProposer l a") (simp add: slot_tags_def)

lemma slot_proposer_returns: "i < 2 ^ 63 \<Longrightarrow> \<exists>a. slot_proposer shuffled (word_of_nat i) = Ok a"
proof -
  assume i: "i < 2 ^ 63"
  then have "unat (word_of_nat i :: u64) = i" by (simp add: unat_of_nat)
  moreover from this have "uint (word_of_nat i :: u64) = int i" by (metis uint_nat)
  then have "sint (word_of_nat i :: u64) = int i"
    unfolding sint_uint using i by (simp add: signed_take_bit_int_eq_self)
  ultimately show ?thesis by (auto simp: slot_proposer_def nth_or_panic_def)
qed

text \<open>Below the block's own slot every slot is reported as empty, at its time counted from the parent's.\<close>

lemma slot_points_Ok:
  assumes "\<And>i. i \<in> set is \<Longrightarrow> i < 2 ^ 63 \<and> i < unat (slots - 1)"
  shows "\<exists>ps. slot_points interval epoch b prev l shuffled slots proposer is = Ok ps \<and>
    map pt_Time ps = map (\<lambda>i. unix_time (blk_Timestamp prev + word_of_nat i * interval)) is \<and>
    (\<forall>p \<in> set ps. pt_Measurement p = ''recent_slots'' \<and> map_of (pt_Tags p) ''filled'' = Some (VInt 0))"
  using assms
proof (induction "is" arbitrary: proposer)
  case (Cons i "is")
  then have i: "i < 2 ^ 63" "i < unat (slots - 1)" by simp_all
  then have "unat (word_of_nat i :: u64) = i" by (simp add: unat_of_nat)
  with i have ne: "(word_of_nat i = slots - 1) = False" by auto
  obtain a where a: "slot_proposer shuffled (word_of_nat i) = Ok a" using slot_proposer_returns [OF i(1)] by blast
  from Cons.IH [of a] Cons.prems obtain ps where
    "slot_points interval epoch b prev l shuffled slots a is = Ok ps"
    "map pt_Time ps = map (\<lambda>i. unix_time (blk_Timestamp prev + word_of_nat i * interval)) is"
    "\<forall>p \<in> set ps. pt_Measurement p = ''recent_slots'' \<and> map_of (pt_Tags p) ''filled'' = Some (VInt 0)"
    by auto
  then show ?case
    by (simp add: Let_def ne a recent_point_def)
qed simp

lemma block_slot_points_Ok:
  assumes "al_candidates l \<noteq> []" and "slots = slots_since (ae_BlockInterval env) (e_Block ev) prev"
    and "0 < slots" and "unat slots < 2 ^ 63"
  shows "\<exists>ps. block_slot_points env ev prev l w = (Ok ps, l, w)"
proof -
  have sh: "Shuffled env prev (e_Seed ev) l w =
      (Ok (shuffleCandidates (ae_slots env) (al_candidates l) (e_Seed ev) (blk_Number prev)), l, w)"
    using assms(1) by (simp add: Shuffled_def split: unit.split)
  have "unat (slots - 1) = unat slots - 1"
    using assms(3) by (simp add: unat_sub word_le_nat_alt word_less_nat_alt)
  then have "\<And>i. i \<in> set [unat (start_slot slots)..<unat (slots - 1)] \<Longrightarrow> i < 2 ^ 63 \<and> i < unat (slots - 1)"
    using assms(4) by auto
  from slot_points_Ok [OF this] obtain empties where
    "slot_points (ae_BlockInterval env) (blk_Number (e_Block ev) div ae_EpochLength env) (e_Block ev) prev l
       (shuffleCandidates (ae_slots env) (al_candidates l) (e_Seed ev) (blk_Number prev)) slots
       (blk_Signer (e_Block ev)) [unat (start_slot slots)..<unat (slots - 1)] = Ok empties" by blast
  then show ?thesis by (simp add: block_slot_points_def Let_def sh flip: assms(2))
qed

section \<open>Properties\<close>

text \<open>Decoding the contract's answer gives back the list of candidates that was encoded, for every list of
  less than 2 ^ 64 candidates, if the address parser accepts forty hexadecimal digits.\<close>

theorem decode_encode_candidate_list:
  assumes "\<And>a. parse (address_text a) = Inr a" and "list_all (\<lambda>c. length (ca_Identity c) = 32) cs"
    and "length cs < 2 ^ 64"
  shows "decode_list parse (encode_list cs) = Ok cs"
proof -
  let ?rest = "concat (map encode_candidate cs)"
  have word: "take64 (hex_text 64 n @ ys) = Ok (hex_text 64 n)" for n ys
    by (simp add: take64_def del: hex_text.simps)
  have num: "SetString16 (hex_text 64 n) = Some (int (n mod 16 ^ 64))" for n
    using SetString16_text [of 63 n] by (simp del: hex_text.simps)
  have "(2 :: nat) ^ 64 \<le> 16 ^ 64" by (rule power_mono) simp_all
  then have "length cs mod 16 ^ 64 = length cs" using assms(3) by simp
  then have nums: "SetString16 (hex_text 64 (length cs)) = Some (int (length cs))" "SetString16 (hex_text 64 32) = Some 32"
    using num [of "length cs"] num [of 32] by simp_all
  have amount: "unat (big_Uint64 (int (length cs))) = length cs"
    using assms(3) by (simp add: big_Uint64_def unat_of_nat)
  show ?thesis
    using decode_encode_candidates [OF assms(1,2)]
    by (simp add: decode_list_def encode_list_def word nums amount nil_check_def del: hex_text.simps)
qed

text \<open>The list is refreshed on a transfer of an endorsor or a master and on an event of the Params contract, but
  a block with an event of the Authority contract itself, the one that changes the list, never makes a
  nonempty list refresh.\<close>

theorem ShouldReset_iff:
  "ShouldReset env l b \<longleftrightarrow> al_candidates l = [] \<or>
     (al_updateBlock l \<le> blk_Number b \<and> \<not> has_event_of (ae_AuthorityAddress env) b \<and>
      (\<exists>out \<in> set (block_outputs b).
         (\<exists>ev \<in> set (out_Events out). ev_Address ev = ae_ParamsAddress env) \<or>
         (\<exists>t \<in> set (out_Transfers out). \<exists>c \<in> set (al_candidates l).
            {tr_Sender t, tr_Recipient t} \<inter> {ca_Endorsor c, ca_Master c} \<noteq> {})))"
proof -
  have "has_endorsor_event (ae_ParamsAddress env) (concat (map (\<lambda>c. [ca_Endorsor c, ca_Master c]) (al_candidates l))) b \<longleftrightarrow>
      (\<exists>out \<in> set (block_outputs b).
         (\<exists>ev \<in> set (out_Events out). ev_Address ev = ae_ParamsAddress env) \<or>
         (\<exists>t \<in> set (out_Transfers out). \<exists>c \<in> set (al_candidates l).
            {tr_Sender t, tr_Recipient t} \<inter> {ca_Endorsor c, ca_Master c} \<noteq> {}))"
    unfolding has_endorsor_event_def list_ex_iff
    by (intro bex_cong disj_cong refl) (auto 0 4)
  then show ?thesis by (auto simp: ShouldReset_def not_less)
qed

text \<open>C37: Both implementations of the shuffle agree: the candidates' shuffle is the one of the slots package on the
  active candidates.\<close>

theorem shuffles_agree:
  "shuffleCandidates env cs seed n = map an_Master (shuffleAuthorityNodes env
     (map (\<lambda>c. \<lparr>an_Master = ca_Master c, an_Endorsor = ca_Endorsor c, an_Active = True\<rparr>) (filter ca_Active cs)) seed n)"
proof -
  let ?node = "\<lambda>c. \<lparr>an_Master = ca_Master c, an_Endorsor = ca_Endorsor c, an_Active = True\<rparr>"
  let ?f = "\<lambda>p :: AuthorityNode \<times> bytes32. (an_Master (fst p), snd p)"
  have ins: "insort_key snd (?f p) (map ?f xs) = map ?f (insort_key snd p xs)" for p xs
    by (induction xs) auto
  have srt: "sort_key snd (map ?f xs) = map ?f (sort_key snd xs)" for xs
    by (induction xs) (simp_all only: list.map sort_key_simps ins)
  have "candidate_hashes env seed n cs =
      map ?f (map (\<lambda>node. (node, node_hash env seed n (an_Master node))) (map ?node (filter ca_Active cs)))"
    by (induction cs) (simp_all add: node_hash_def)
  then show ?thesis
    unfolding shuffleCandidates_def shuffleAuthorityNodes_def by (simp only: srt) (simp add: comp_def)
qed

text \<open>For a block at most an hour after its parent, one slot is reported as filled and every slot before it as
  empty, but each an interval too early: the first empty slot has the time of the parent block itself.\<close>

theorem empty_slots_early:
  assumes "block_slot_points env ev prev l w = (Ok ps, l', w')"
    and "slots = slots_since (ae_BlockInterval env) (e_Block ev) prev" and "0 < slots" and "slots \<le> 360"
  shows "\<exists>p q others empties. ps = p # q # others @ empties \<and>
    map_of (pt_Tags p) ''filled'' = Some (VInt 1) \<and> pt_Time p = e_Timestamp ev \<and>
    (\<forall>o' \<in> set others. pt_Measurement o' = ''missed_slots'') \<and>
    (\<forall>e \<in> set empties. pt_Measurement e = ''recent_slots'' \<and> map_of (pt_Tags e) ''filled'' = Some (VInt 0)) \<and>
    map pt_Time empties =
      map (\<lambda>i. unix_time (blk_Timestamp prev + word_of_nat i * ae_BlockInterval env)) [0..<unat slots - 1]"
proof -
  have s1: "unat (slots - 1) = unat slots - 1"
    using assms(3) by (simp add: unat_sub word_le_nat_alt word_less_nat_alt)
  have le: "unat slots \<le> 360" using assms(4) by (simp add: word_le_nat_alt)
  have range: "[unat (start_slot slots)..<unat (slots - 1)] = [0..<unat slots - 1]"
    using assms(4) s1 by (simp add: start_slot_def)
  have "\<And>i. i \<in> set [0..<unat slots - 1] \<Longrightarrow> i < 2 ^ 63 \<and> i < unat (slots - 1)"
    using le s1 by auto
  note points = slot_points_Ok [OF this]
  obtain r l1 w1 where sh: "Shuffled env prev (e_Seed ev) l w = (r, l1, w1)" by (cases "Shuffled env prev (e_Seed ev) l w") auto
  let ?shuffled = "case r of Ok s \<Rightarrow> s | _ \<Rightarrow> []"
  from points obtain empties where e:
    "slot_points (ae_BlockInterval env) (blk_Number (e_Block ev) div ae_EpochLength env) (e_Block ev) prev l1 ?shuffled slots
       (blk_Signer (e_Block ev)) [0..<unat slots - 1] = Ok empties"
    "map pt_Time empties = map (\<lambda>i. unix_time (blk_Timestamp prev + word_of_nat i * ae_BlockInterval env)) [0..<unat slots - 1]"
    "\<forall>p \<in> set empties. pt_Measurement p = ''recent_slots'' \<and> map_of (pt_Tags p) ''filled'' = Some (VInt 0)"
    by blast
  have agg: "aggregated_points ev prev slots = []" using assms(4) by (simp add: aggregated_points_def)
  have missed: "\<forall>o' \<in> set (missed_slot_points (e_Block ev) s). pt_Measurement o' = ''missed_slots''" for s
    by (auto simp: missed_slot_points_def split: list.splits)
  from assms(1) sh e(1) agg range obtain p q where
    "ps = p # q # missed_slot_points (e_Block ev) ?shuffled @ empties"
    "p = recent_point (blk_Number (e_Block ev) div ae_EpochLength env) (e_Block ev) l 1 (blk_Signer (e_Block ev)) (e_Timestamp ev)"
    by (cases r) (auto simp: block_slot_points_def Let_def simp flip: assms(2))
  then show ?thesis
    using missed e(2,3)
    by - (rule exI [of _ p], rule exI [of _ q], rule exI [of _ "missed_slot_points (e_Block ev) ?shuffled"],
        rule exI [of _ empties], simp add: recent_point_def)
qed

text \<open>An answer without data, as a reverted call gives, makes the decoding slice out of range: the list cannot
  report the failure as an error.\<close>

theorem reverted_list_panics:
  assumes "cl_InspectClauses cl candidate_clauses (RevID blockID) w = (Inr response, w')"
    and "length response < 2 \<or> cr_Data (response ! 1) = ''0x''"
  shows "listAllCandidates parse cl blockID w = (Panic IndexOutOfRange, w')"
  using assms by (auto simp: listAllCandidates_def nth_or_panic_def decode_list_def take64_def)

section \<open>Sample instances\<close>

definition sample_parse :: "string \<Rightarrow> gerror + address" where
  "sample_parse s = (case hex_digits s of None \<Rightarrow> Inl ErrNotFound | Some n \<Rightarrow> Inr (Address (word_of_nat n)))"

lemma sample_parse_text: "sample_parse (address_text a) = Inr a"
proof -
  have "unat (addr_word a) < 16 ^ 40" using unsigned_less [of "addr_word a", where ?'a = nat] by simp
  moreover obtain d cs where "hex_text 40 (unat (addr_word a)) = hex_char d # cs"
    using hex_text_hd [of 39 "unat (addr_word a)"] by (auto simp del: hex_text.simps)
  ultimately have "hex_digits (address_text a) = Some (unat (addr_word a))"
    using hex_number_text [of 0 40 "unat (addr_word a)"]
    by (simp add: address_text_def hex_digits_def del: hex_text.simps hex_number.simps)
  then show ?thesis by (simp add: sample_parse_def)
qed

definition sample_candidate :: "160 word \<Rightarrow> Candidate" where
  "sample_candidate a = \<lparr>ca_Master = Address a, ca_Endorsor = Address 9, ca_Identity = replicate 32 7, ca_Active = True\<rparr>"

theorem decode_encode_candidate_list_witness:
  "decode_list sample_parse (encode_list [sample_candidate 1, sample_candidate 2]) =
     Ok [sample_candidate 1, sample_candidate 2]"
  by (rule decode_encode_candidate_list [OF sample_parse_text]) (simp_all add: sample_candidate_def)

definition sample_registry :: "int registry" where
  "sample_registry = \<lparr>rg_MkdirTemp = \<lambda>w. (Inr ''tmp'', w), rg_MkdirAll = \<lambda>d w. (None, w), rg_Clone = \<lambda>r d w. (None, w),
     rg_OpenFile = \<lambda>f w. (None, w), rg_GetRows = \<lambda>f s w. (Inr [], w), rg_ParseAddress = sample_parse\<rparr>"

definition sample_authority_env :: "int authority_env" where
  "sample_authority_env = \<lparr>ae_slots = sample_slot_env, ae_client = sample_client, ae_registry = sample_registry,
     ae_AuthorityAddress = Address 5, ae_ParamsAddress = Address 6, ae_BlockInterval = 10, ae_EpochLength = 180\<rparr>"

definition gap_event :: Event where
  "gap_event = sample_input (main2\<lparr>blk_Timestamp := 45\<rparr>) (Some main1)"

theorem empty_slots_early_witness:
  "\<exists>ps p q others empties. block_slot_points sample_authority_env gap_event main1
       ((NewList [])\<lparr>al_candidates := [sample_candidate 1]\<rparr>) 0 = (Ok ps, (NewList [])\<lparr>al_candidates := [sample_candidate 1]\<rparr>, 0) \<and>
     ps = p # q # others @ empties \<and> map pt_Time empties = [sec 10, sec 20, sec 30]"
proof -
  let ?l = "(NewList [])\<lparr>al_candidates := [sample_candidate 1]\<rparr>"
  have slots: "4 = slots_since (ae_BlockInterval sample_authority_env) (e_Block gap_event) main1"
    by (simp add: slots_since_def sample_authority_env_def gap_event_def sample_input_def sample_blocks)
  have "al_candidates ?l \<noteq> []" by simp
  from block_slot_points_Ok [OF this slots] obtain ps
    where ps: "block_slot_points sample_authority_env gap_event main1 ?l 0 = (Ok ps, ?l, 0)"
    by (auto simp: word_less_nat_alt)
  have times: "map (\<lambda>i. unix_time (blk_Timestamp main1 + word_of_nat i * ae_BlockInterval sample_authority_env)) [0..<unat (4 :: u64) - 1] =
      [sec 10, sec 20, sec 30]"
    by (simp add: sample_authority_env_def sample_blocks unix_time_def upt_rec)
  have "0 < (4 :: u64)" "(4 :: u64) \<le> 360" by (simp_all add: word_less_nat_alt word_le_nat_alt)
  from empty_slots_early [OF ps slots this] obtain p q others empties
    where "ps = p # q # others @ empties" "map pt_Time empties = [sec 10, sec 20, sec 30]"
    unfolding times by (elim exE conjE) (rule that)
  with ps show ?thesis
    by - (rule exI [of _ ps], rule exI [of _ p], rule exI [of _ q], rule exI [of _ others], rule exI [of _ empties], simp)
qed

theorem reverted_list_panics_witness:
  "listAllCandidates sample_parse sample_client (Bytes32 1) 0 = (Panic IndexOutOfRange, 0)"
  by (rule reverted_list_panics [where response = "replicate 2 \<lparr>cr_Data = ''0x'', cr_Reverted = False, cr_VMError = []\<rparr>"])
    (simp_all add: sample_client_def candidate_clauses_def numeral_2_eq_2)

end
