(* ===== verification/PriceApi.thy ===== *)
theory PriceApi
  imports Samples
begin

text \<open>
  \<^verbatim>\<open>stats/priceapi/priceapi.go\<close>: the token prices of the price feed contract, at most every
  five minutes. The contract call, the clock and the database are parameters. The mutex makes a
  call atomic, so one call is one function.
\<close>

definition priceMeasurement :: string where
  "priceMeasurement = ''price_api''"

definition vthoID :: bytes32 where
  "vthoID = Bytes32 0x7674686f2d757364000000000000000000000000000000000000000000000000"

definition vetID :: bytes32 where
  "vetID = Bytes32 0x7665742d75736400000000000000000000000000000000000000000000000000"

text \<open>The latest value of a feed and the time of its update.\<close>

record 'w price_feed =
  fd_getLatestValue :: "bytes32 \<Rightarrow> 'w \<Rightarrow> (gerror + int \<times> int) \<times> 'w"

text \<open>\<open>None\<close> is the zero time, which is longer ago than any duration.\<close>

record price_api =
  pa_lastUpdate :: "int option"

definition price_New :: price_api where
  "price_New = \<lparr>pa_lastUpdate = None\<rparr>"

definition price_of :: "int \<Rightarrow> f64" where
  "price_of value = f64_div (big_Float64 (big_SetInt value)) (Fin (10 ^ 12))"

definition fetchPrice :: "'w price_feed \<Rightarrow> bytes32 \<Rightarrow> 'w \<Rightarrow> (gerror + f64) \<times> 'w" where
  "fetchPrice fd i w =
     (case fd_getLatestValue fd i w of
        (Inl e, w) \<Rightarrow> (Inl e, w)
      | (Inr (value, updatedAt), w) \<Rightarrow> (Inr (price_of value), w))"

definition recently :: "int \<Rightarrow> price_api \<Rightarrow> bool" where
  "recently now p = (case pa_lastUpdate p of None \<Rightarrow> False | Some t \<Rightarrow> now - t < sec 300)"

definition price_point :: "f64 \<Rightarrow> f64 \<Rightarrow> int \<Rightarrow> point" where
  "price_point vet vtho t =
     \<lparr>pt_Measurement = priceMeasurement, pt_Tags = [(''t'', VStr ''true'')],
      pt_Fields = [(KStr ''vet_price'', VF64 vet), (KStr ''vtho_price'', VF64 vtho)], pt_Time = t\<rparr>"

text \<open>The clock is read once for the test and then for each of the three times; a failed delete is only
  logged.\<close>

definition price_Write ::
  "'w timer \<Rightarrow> 'w price_feed \<Rightarrow> 'd database \<Rightarrow> price_api \<Rightarrow> 'w \<Rightarrow> 'd \<Rightarrow> point list \<times> price_api \<times> 'w \<times> 'd" where
  "price_Write tm fd db p w d =
     (if recently (tm_now tm w) p then ([], p, w, d)
      else
        (case fetchPrice fd vetID w of
           (Inl e, w) \<Rightarrow> ([], p, w, d)
         | (Inr vetPrice, w) \<Rightarrow>
             (case fetchPrice fd vthoID w of
                (Inl e, w) \<Rightarrow> ([], p, w, d)
              | (Inr vthoPrice, w) \<Rightarrow>
                  let now = tm_now tm w; stop = now - sec 1200; start = now - sec (60 * 60 * 24 * 365);
                      d = snd (db_Delete db start stop [MeasurementEq priceMeasurement] d) in
                  ([price_point vetPrice vthoPrice now], p\<lparr>pa_lastUpdate := Some now\<rparr>, w, d))))"

section \<open>Properties\<close>

text \<open>A price point is written at most every five minutes, from two successful calls, and the time of the last
  update moves to it; the old price points of the last year go, everything else in the database stays; and
  without a new point nothing changes but the world.\<close>

theorem price_update:
  assumes "price_Write tm fd db p w d = (ps, p', w', d')" and "db_laws db"
    and "fst (db_Delete db (tm_now tm w' - sec (60 * 60 * 24 * 365)) (tm_now tm w' - sec 1200)
      [MeasurementEq priceMeasurement] d) = None"
  shows "(ps = [] \<and> p' = p \<and> d' = d) \<or>
    (\<exists>vet vtho. ps = [price_point (price_of vet) (price_of vtho) (tm_now tm w')] \<and>
       pa_lastUpdate p' = Some (tm_now tm w') \<and>
       (\<forall>t. pa_lastUpdate p = Some t \<longrightarrow> sec 300 \<le> tm_now tm w - t) \<and>
       db_points db d' = {q \<in> db_points db d. \<not> (pt_Measurement q = ''price_api'' \<and>
         tm_now tm w' - sec (60 * 60 * 24 * 365) \<le> pt_Time q \<and> pt_Time q \<le> tm_now tm w' - sec 1200)})"
proof (cases "ps = []")
  case True
  with assms(1) show ?thesis
    by (auto simp: price_Write_def Let_def split: if_splits prod.splits sum.splits)
next
  case False
  from assms(1) False obtain vet vtho where
    ps: "ps = [price_point (price_of vet) (price_of vtho) (tm_now tm w')]" "pa_lastUpdate p' = Some (tm_now tm w')"
    and old: "\<not> recently (tm_now tm w) p"
    and d': "d' = snd (db_Delete db (tm_now tm w' - sec (60 * 60 * 24 * 365)) (tm_now tm w' - sec 1200)
      [MeasurementEq priceMeasurement] d)"
    by (auto simp: price_Write_def fetchPrice_def Let_def split: if_splits prod.splits sum.splits)
  from assms(3) d' have "db_Delete db (tm_now tm w' - sec (60 * 60 * 24 * 365)) (tm_now tm w' - sec 1200)
      [MeasurementEq priceMeasurement] d = (None, d')"
    by (simp add: prod_eq_iff)
  from db_law_delete(3) [OF assms(2) this] have "db_points db d' = {q \<in> db_points db d.
      \<not> deleted_by (tm_now tm w' - sec (60 * 60 * 24 * 365)) (tm_now tm w' - sec 1200) [MeasurementEq priceMeasurement] q}"
    by simp
  then have "db_points db d' = {q \<in> db_points db d. \<not> (pt_Measurement q = ''price_api'' \<and>
      tm_now tm w' - sec (60 * 60 * 24 * 365) \<le> pt_Time q \<and> pt_Time q \<le> tm_now tm w' - sec 1200)}"
    by (auto simp: deleted_by_def priceMeasurement_def)
  moreover have "\<forall>t. pa_lastUpdate p = Some t \<longrightarrow> sec 300 \<le> tm_now tm w - t"
    using old by (auto simp: recently_def)
  ultimately show ?thesis using ps by blast
qed

section \<open>Sample instances\<close>

definition sample_feed :: "int price_feed" where
  "sample_feed = \<lparr>fd_getLatestValue = \<lambda>i w. (Inr (3000000000000, 7), w)\<rparr>"

theorem price_update_witness:
  "\<exists>ps p' d'. price_Write sample_timer sample_feed sample_db price_New (sec 5000) ([], []) = (ps, p', sec 5000, d') \<and>
     (ps = [] \<or> pa_lastUpdate p' = Some (sec 5000))"
proof -
  obtain ps p' d' where w: "price_Write sample_timer sample_feed sample_db price_New (sec 5000) ([], []) = (ps, p', sec 5000, d')"
    by (simp add: price_Write_def fetchPrice_def sample_feed_def sample_timer_def price_New_def recently_def Let_def)
  have "fst (db_Delete sample_db (tm_now sample_timer (sec 5000) - sec (60 * 60 * 24 * 365)) (tm_now sample_timer (sec 5000) - sec 1200)
      [MeasurementEq priceMeasurement] ([], [])) = None"
    by (simp add: sample_db_def)
  from price_update [OF w sample_db_laws this] w show ?thesis by (auto simp: sample_timer_def)
qed

end
