(* ===== verification/Startup.thy ===== *)
theory Startup
  imports Publisher Subscriber SlotsWriter
begin

text \<open>
  \<^verbatim>\<open>cmd/main.go\<close> and \<^verbatim>\<open>cmd/thorflux/thorflux.go\<close>: the flags, the genesis
  configuration, and the assembly of publisher and subscriber. The flag parser, the HTTP and JSON
  libraries, the chain's constants and the connection to the database are parameters.
\<close>

unbundle bit_operations_syntax

section \<open>Flags\<close>

record flags =
  fl_thorURL :: string
  fl_genesisURL :: string
  fl_blocks :: u64
  fl_endBlock :: u64
  fl_influxURL :: string
  fl_influxToken :: string
  fl_ownersRepo :: string

text \<open>The parsed flags, or the parser's error; the URLs are returned as given.\<close>

definition parseFlags :: "gerror + flags \<Rightarrow> gerror + string \<times> string \<times> string" where
  "parseFlags parsed =
     (case parsed of
        Inl e \<Rightarrow> Inl e
      | Inr fl \<Rightarrow>
          if fl_influxToken fl = [] then Inl (ErrMsg ''--influx-token or INFLUX_DB_TOKEN is required'')
          else Inr (fl_thorURL fl, fl_influxURL fl, fl_influxToken fl))"

section \<open>The genesis configuration\<close>

record fork_config =
  fc_HAYABUSA :: u32
  fc_GALACTICA :: u32

text \<open>The constants of the thor library.\<close>

record chain_constants =
  cc_BlockInterval :: u64
  cc_EpochLength :: u32
  cc_SeederInterval :: u32
  cc_ValidatorEvictionThreshold :: u32
  cc_LowStakingPeriod :: u32
  cc_MediumStakingPeriod :: u32
  cc_HighStakingPeriod :: u32
  cc_CooldownPeriod :: u32
  cc_HayabusaTP :: u32

text \<open>Of a custom genesis, the fork configuration and the transition period are read.\<close>

record custom_genesis =
  cg_ForkConfig :: "fork_config option"
  cg_HayabusaTP :: "u32 option"

definition for_publisher :: "custom_genesis \<Rightarrow> genesis_config" where
  "for_publisher g = \<lparr>gc_HAYABUSA = map_option fc_HAYABUSA (cg_ForkConfig g), gc_HayabusaTP = cg_HayabusaTP g\<rparr>"

record 'w genesis_env =
  ge_constants :: chain_constants
  ge_GetForkConfig :: "bytes32 \<Rightarrow> fork_config option"
  ge_HttpGet :: "string \<Rightarrow> 'w \<Rightarrow> (gerror + nat \<times> (gerror + bytes)) \<times> 'w"
  ge_Unmarshal :: "bytes \<Rightarrow> gerror + custom_genesis"

text \<open>\<open>strings.Contains\<close>.\<close>

fun has_prefix :: "string \<Rightarrow> string \<Rightarrow> bool" where
  "has_prefix s [] = True"
| "has_prefix [] (p # ps) = False"
| "has_prefix (c # s) (p # ps) = (c = p \<and> has_prefix s ps)"

fun contains :: "string \<Rightarrow> string \<Rightarrow> bool" where
  "contains [] t = (t = [])"
| "contains (c # s) t = (has_prefix (c # s) t \<or> contains s t)"

definition getGenesisFromURL :: "'w genesis_env \<Rightarrow> string \<Rightarrow> 'w \<Rightarrow> (gerror + custom_genesis) \<times> 'w" where
  "getGenesisFromURL env genesisURL w =
     (case ge_HttpGet env genesisURL w of
        (Inl e, w) \<Rightarrow> (Inl (ErrMsg ''failed to fetch genesis config''), w)
      | (Inr (status, body), w) \<Rightarrow>
          (if status \<noteq> 200 then (Inl (ErrMsg ''failed to fetch genesis config''), w)
           else (case body of Inl e \<Rightarrow> (Inl e, w) | Inr bs \<Rightarrow> (ge_Unmarshal env bs, w))))"

definition testnetID :: bytes32 where
  "testnetID = Bytes32 0x000000000b2bce3c70bc649a02749e8687721b09ed2e15997f466536b20bb127"

definition mainnetID :: bytes32 where
  "mainnetID = Bytes32 0x00000000851caf3cfdb6e899cf5958bfb1ac3413d346d43539627e6be7ec1b4a"

definition network_id :: "string \<Rightarrow> bytes32 option" where
  "network_id thorURL =
     (if contains thorURL ''testnet'' then Some testnetID
      else if contains thorURL ''mainnet'' \<or> thorURL = ''https://hayabusa.live.dev.node.vechain.org'' then Some mainnetID
      else None)"

definition getGenesisFromNetwork :: "'w genesis_env \<Rightarrow> string \<Rightarrow> gerror + custom_genesis" where
  "getGenesisFromNetwork env thorURL =
     (case network_id thorURL of
        None \<Rightarrow> Inl (ErrMsg ''network is not mainnet/testnet, please provide a genesis URL'')
      | Some genesisID \<Rightarrow>
          (case ge_GetForkConfig env genesisID of
             None \<Rightarrow> Inl (ErrMsg ''failed to get fork config'')
           | Some fc \<Rightarrow> Inr \<lparr>cg_ForkConfig = Some fc, cg_HayabusaTP = Some (cc_HayabusaTP (ge_constants env))\<rparr>))"

definition chain_config_point :: "chain_constants \<Rightarrow> fork_config \<Rightarrow> int \<Rightarrow> point" where
  "chain_config_point c fc now =
     \<lparr>pt_Measurement = ''chain_config'',
      pt_Tags = [(''block_interval'', VU64 (cc_BlockInterval c)), (''epoch_length'', VU32 (cc_EpochLength c)),
        (''seeder_interval'', VU32 (cc_SeederInterval c)),
        (''validator_eviction_threshold'', VU32 (cc_ValidatorEvictionThreshold c)),
        (''low_staking_period'', VU32 (cc_LowStakingPeriod c)), (''medium_staking_period'', VU32 (cc_MediumStakingPeriod c)),
        (''high_staking_period'', VU32 (cc_HighStakingPeriod c)), (''cooldown_period'', VU32 (cc_CooldownPeriod c)),
        (''hayabusa_tp'', VU32 (cc_HayabusaTP c)), (''hayabusa_fork_block'', VU32 (fc_HAYABUSA fc)),
        (''galactica_fork_block'', VU32 (fc_GALACTICA fc))],
      pt_Fields = [(KStr ''null'', VBool True)], pt_Time = now\<rparr>"

definition writeGenesisMetrics :: "'w genesis_env \<Rightarrow> 'd database \<Rightarrow> int \<Rightarrow> custom_genesis \<Rightarrow> 'd \<Rightarrow> 'd" where
  "writeGenesisMetrics env db now g d =
     (case cg_ForkConfig g of
        None \<Rightarrow> d
      | Some fc \<Rightarrow> WritePoints db [chain_config_point (ge_constants env) fc now] d)"

definition setGenesisConfig ::
  "'w genesis_env \<Rightarrow> 'd database \<Rightarrow> int \<Rightarrow> string \<Rightarrow> string \<Rightarrow> 'w \<Rightarrow> 'd \<Rightarrow> (gerror + custom_genesis) \<times> 'w \<times> 'd" where
  "setGenesisConfig env db now genesisURL thorURL w d =
     (if genesisURL \<noteq> []
      then (case getGenesisFromURL env genesisURL w of (r, w) \<Rightarrow> (r, w, d))
      else (case getGenesisFromNetwork env thorURL of
              Inl e \<Rightarrow> (Inl e, w, d)
            | Inr g \<Rightarrow> (Inr g, w, writeGenesisMetrics env db now g d)))"

section \<open>The ABI of the staker contract\<close>

text \<open>
  \<^verbatim>\<open>init\<close> of \<^verbatim>\<open>stats/pos/staker.go\<close>, which runs before \<open>main\<close>: parse the embedded
  ABI (the parser is the ABI library's) and look up its methods one after the other; a parse error or
  the first missing method is a panic.
\<close>

record 'm staker_abis =
  sa_stakerBalance :: 'm
  sa_getValidators :: 'm
  sa_totalStake :: 'm
  sa_queuedStake :: 'm
  sa_totalSupply :: 'm
  sa_totalBurned :: 'm
  sa_stakerStorage :: 'm

definition abi_method :: "(string, 'm) gomap \<Rightarrow> string \<Rightarrow> 'm outcome" where
  "abi_method methods name = (case map_of methods name of None \<Rightarrow> Panic ExplicitPanic | Some m \<Rightarrow> Ok m)"

definition init_staker :: "gerror + (string, 'm) gomap \<Rightarrow> 'm staker_abis outcome" where
  "init_staker parsed =
     (case parsed of
        Inl err \<Rightarrow> Panic ExplicitPanic
      | Inr methods \<Rightarrow>
          bind_outcome (abi_method methods ''stakerBalance'') (\<lambda>balance.
          bind_outcome (abi_method methods ''getValidators'') (\<lambda>validators.
          bind_outcome (abi_method methods ''totalStake'') (\<lambda>stake.
          bind_outcome (abi_method methods ''queuedStake'') (\<lambda>queued.
          bind_outcome (abi_method methods ''totalSupply'') (\<lambda>supply.
          bind_outcome (abi_method methods ''totalBurned'') (\<lambda>burned.
          bind_outcome (abi_method methods ''stakerStorage'') (\<lambda>storage.
            Ok \<lparr>sa_stakerBalance = balance, sa_getValidators = validators, sa_totalStake = stake,
                sa_queuedStake = queued, sa_totalSupply = supply, sa_totalBurned = burned,
                sa_stakerStorage = storage\<rparr>))))))))"

definition staker_method_names :: "string list" where
  "staker_method_names = [''stakerBalance'', ''getValidators'', ''totalStake'', ''queuedStake'', ''totalSupply'',
     ''totalBurned'', ''stakerStorage'']"

section \<open>Assembling the program\<close>

record ('w, 'c, 'd) cmd =
  cmd_publisher :: "('w, 'c) publisher"
  cmd_subscriber :: "('w, 'd) subscriber"

record options =
  op_ThorURL :: string
  op_GenesisURL :: string
  op_Blocks :: u64
  op_EndBlock :: u64

text \<open>The connection to the database and the chain tag of the node.\<close>

record ('w, 'c, 'd) services =
  sv_Ping :: "'w \<Rightarrow> gerror option \<times> 'w"
  sv_ChainTag :: "'w \<Rightarrow> (gerror + u8) \<times> 'w"
  sv_genesis :: "'w genesis_env"
  sv_client :: "'w client"
  sv_db :: "'d database"
  sv_Latest :: "'d \<Rightarrow> query_result"
  sv_cache :: 'c

definition NewSubscriber :: "('w, 'c, 'd) services \<Rightarrow> 'w \<Rightarrow> 'd \<Rightarrow> ('w, 'd) subscriber outcome \<times> 'w" where
  "NewSubscriber sv w d =
     (case sv_ChainTag sv w of
        (Inl e, w) \<Rightarrow> (Err e, w)
      | (Inr tag, w) \<Rightarrow> (Ok \<lparr>su_synced = False, su_world = w, su_db = d, su_batches = []\<rparr>, w))"

text \<open>\<open>Ok None\<close> is the nil command with the nil error that too many blocks give.\<close>

definition thorflux_New ::
  "('w, 'c, 'd) services \<Rightarrow> int \<Rightarrow> options \<Rightarrow> 'w \<Rightarrow> 'd \<Rightarrow> ('w, 'c, 'd) cmd option outcome \<times> 'w \<times> 'd" where
  "thorflux_New sv now opts w d =
     (case sv_Ping sv w of
        (Some e, w) \<Rightarrow> (Err e, w, d)
      | (None, w) \<Rightarrow>
          (case setGenesisConfig (sv_genesis sv) (sv_db sv) now (op_GenesisURL opts) (op_ThorURL opts) w d of
             (Inl e, w, d) \<Rightarrow> (Err e, w, d)
           | (Inr g, w, d) \<Rightarrow>
               if 4294967295 < op_Blocks opts then (Ok None, w, d)
               else
                 (case NewPublisher (sv_client sv) (for_publisher g) (ucast (op_Blocks opts)) (ucast (op_EndBlock opts))
                     (sv_Latest sv d) (sv_cache sv) w of
                    (Panic p, w) \<Rightarrow> (Panic p, w, d)
                  | (Err e, w) \<Rightarrow> (Err e, w, d)
                  | (Ok pub, w) \<Rightarrow>
                      (case NewSubscriber sv w d of
                         (Panic p, w) \<Rightarrow> (Panic p, w, d)
                       | (Err e, w) \<Rightarrow> (Err e, w, d)
                       | (Ok sub, w) \<Rightarrow> (Ok (Some \<lparr>cmd_publisher = pub, cmd_subscriber = sub\<rparr>), w, d)))))"

text \<open>\<open>main\<close> up to the start of the goroutines: exit with status 1, or running, or a panic. \<open>Run\<close>
  dereferences the command.\<close>

datatype ('w, 'c, 'd) started = Exit1 | Running "('w, 'c, 'd) cmd" | Crashed gpanic

definition main_start ::
  "('w, 'c, 'd) services \<Rightarrow> int \<Rightarrow> gerror + flags \<Rightarrow> 'w \<Rightarrow> 'd \<Rightarrow> ('w, 'c, 'd) started" where
  "main_start sv now parsed w d =
     (case parsed of
        Inl e \<Rightarrow> Exit1
      | Inr fl \<Rightarrow>
          (case parseFlags parsed of
             Inl e \<Rightarrow> Exit1
           | Inr (thorURL, influxURL, token) \<Rightarrow>
               (case thorflux_New sv now \<lparr>op_ThorURL = thorURL, op_GenesisURL = fl_genesisURL fl,
                    op_Blocks = fl_blocks fl, op_EndBlock = fl_endBlock fl\<rparr> w d of
                  (Panic p, _) \<Rightarrow> Crashed p
                | (Err e, _) \<Rightarrow> Exit1
                | (Ok None, _) \<Rightarrow> Crashed NilDereference
                | (Ok (Some cmd), _) \<Rightarrow> Running cmd)))"

section \<open>Which network a URL names\<close>

lemma has_prefix_iff: "has_prefix s t \<longleftrightarrow> (\<exists>ys. s = t @ ys)"
  by (induction s t rule: has_prefix.induct) auto

lemma contains_iff: "contains s t \<longleftrightarrow> (\<exists>xs ys. s = xs @ t @ ys)"
proof (induction s)
  case (Cons c s)
  have "(\<exists>xs ys. c # s = xs @ t @ ys) \<longleftrightarrow> (\<exists>ys. c # s = t @ ys) \<or> (\<exists>xs ys. s = xs @ t @ ys)" (is "?l \<longleftrightarrow> ?r")
  proof
    assume ?l
    then obtain xs ys where "c # s = xs @ t @ ys" by blast
    then show ?r by (cases xs) auto
  next
    assume ?r
    then show ?l
    proof
      assume "\<exists>ys. c # s = t @ ys"
      then show ?l by - (rule exI [of _ "[]"], simp)
    next
      assume "\<exists>xs ys. s = xs @ t @ ys"
      then obtain xs ys where "s = xs @ t @ ys" by blast
      then show ?l by (intro exI [of _ "c # xs"] exI [of _ ys]) simp
    qed
  qed
  then show ?case by (simp add: has_prefix_iff Cons del: append_eq_Cons_conv Cons_eq_append_conv)
qed simp

section \<open>Properties\<close>

text \<open>A number of blocks that does not fit 32 bits is not reported as an error: the command is nil without one,
  and the program then dereferences it.\<close>

theorem too_many_blocks_crash:
  assumes "parseFlags (Inr fl) = Inr (fl_thorURL fl, fl_influxURL fl, fl_influxToken fl)"
    and "4294967295 < fl_blocks fl" and "sv_Ping sv w = (None, w1)"
    and "setGenesisConfig (sv_genesis sv) (sv_db sv) now (fl_genesisURL fl) (fl_thorURL fl) w1 d = (Inr g, w2, d2)"
  shows "main_start sv now (Inr fl) w d = Crashed NilDereference"
  using assms by (simp add: main_start_def thorflux_New_def)

text \<open>On a chain where Hayabusa is not scheduled, its fork block being the largest number, the activation height
  wraps around: from block tp - 1 on every event is marked as proof of stake without being forked, so it
  carries no staker information, and the slots handler dereferences that nil.\<close>

theorem unscheduled_fork_panics:
  assumes "hayabusa_heights (for_publisher \<lparr>cg_ForkConfig = Some \<lparr>fc_HAYABUSA = - 1, fc_GALACTICA = galactica\<rparr>,
      cg_HayabusaTP = Some tp\<rparr>) = Ok (forked, active)"
    and "0 < tp" and "event_ok forked active n e" and "tp - 1 \<le> n" and "n \<noteq> - 1" and "1 < n"
  shows "active = tp - 1 \<and> be_HayabusaStatus e = \<lparr>hs_Active = True, hs_Forked = False\<rparr> \<and>
    slots_Write env w (event_of e) = Panic NilDereference"
proof -
  have h: "forked = - 1" "active = tp - 1" using assms(1) by (auto simp: hayabusa_heights_def for_publisher_def)
  have "\<not> (- 1 :: u32) \<le> n" using assms(5) word_order.extremum_unique [of n] by auto
  with assms(3,4,6) h have "hs_Active (be_HayabusaStatus e)" "\<not> hs_Forked (be_HayabusaStatus e)" "be_Staker e = None"
      "be_Prev e \<noteq> None"
    by (auto simp: event_ok_def split: option.splits)
  then show ?thesis using h by (auto simp: slots_Write_def event_of_def intro: HayabusaStatus.equality)
qed

text \<open>The program gets past its initialisation exactly when the ABI parses and has the seven methods; any other
  ABI stops it with a panic before \<open>main\<close>.\<close>

theorem init_staker_iff:
  "(\<exists>abis. init_staker (Inr methods) = Ok abis) \<longleftrightarrow> set staker_method_names \<subseteq> fst ` set methods"
  "init_staker parsed = Panic ExplicitPanic \<or> (\<exists>abis. init_staker parsed = Ok abis)"
proof -
  have found: "(\<exists>m. abi_method methods name = Ok m) \<longleftrightarrow> name \<in> fst ` set methods" for name methods
    using map_of_eq_None_iff [of methods name] by (cases "map_of methods name") (simp_all add: abi_method_def)
  show "(\<exists>abis. init_staker (Inr methods) = Ok abis) \<longleftrightarrow> set staker_method_names \<subseteq> fst ` set methods"
    by (simp add: init_staker_def staker_method_names_def outcome_simps flip: found) blast
  show "init_staker parsed = Panic ExplicitPanic \<or> (\<exists>abis. init_staker parsed = Ok abis)"
    by (auto simp: init_staker_def abi_method_def split: sum.split option.split)
qed

text \<open>Only the number of blocks is checked against 32 bits: an end block is cut down to its low half, so one of
  2 ^ 32 runs without an end.\<close>

theorem end_block_truncated:
  "thorflux_New sv now (opts\<lparr>op_EndBlock := e\<rparr>) w d = thorflux_New sv now (opts\<lparr>op_EndBlock := e AND 0xFFFFFFFF\<rparr>) w d"
  "thorflux_New sv now (opts\<lparr>op_EndBlock := 2 ^ 32\<rparr>) w d = thorflux_New sv now (opts\<lparr>op_EndBlock := 0\<rparr>) w d"
proof -
  have sel: "op_EndBlock (opts\<lparr>op_EndBlock := x\<rparr>) = x" "op_ThorURL (opts\<lparr>op_EndBlock := x\<rparr>) = op_ThorURL opts"
    "op_GenesisURL (opts\<lparr>op_EndBlock := x\<rparr>) = op_GenesisURL opts" "op_Blocks (opts\<lparr>op_EndBlock := x\<rparr>) = op_Blocks opts"
    for x by simp_all
  have low: "(ucast (e AND 0xFFFFFFFF) :: u32) = ucast e"
  proof (rule bit_word_eqI)
    fix n :: nat
    assume "n < LENGTH(32)"
    then show "bit (ucast (e AND 0xFFFFFFFF) :: u32) n = bit (ucast e :: u32) n"
      using bit_mask_iff [of 32 n, where ?'a = u64] by (simp add: bit_simps mask_eq_exp_minus_1)
  qed
  show "thorflux_New sv now (opts\<lparr>op_EndBlock := e\<rparr>) w d = thorflux_New sv now (opts\<lparr>op_EndBlock := e AND 0xFFFFFFFF\<rparr>) w d"
    unfolding thorflux_New_def sel low ..
  have zero: "(ucast (2 ^ 32 :: u64) :: u32) = ucast (0 :: u64)" by simp
  show "thorflux_New sv now (opts\<lparr>op_EndBlock := 2 ^ 32\<rparr>) w d = thorflux_New sv now (opts\<lparr>op_EndBlock := 0\<rparr>) w d"
    unfolding thorflux_New_def sel zero ..
qed

section \<open>Sample instances\<close>

definition sample_flags :: flags where
  "sample_flags = \<lparr>fl_thorURL = ''https://testnet.vechain.org'', fl_genesisURL = [], fl_blocks = 2 ^ 32, fl_endBlock = 0,
     fl_influxURL = ''http://localhost:8086'', fl_influxToken = ''admin-token'', fl_ownersRepo = []\<rparr>"

definition sample_constants :: chain_constants where
  "sample_constants = \<lparr>cc_BlockInterval = 10, cc_EpochLength = 180, cc_SeederInterval = 8640,
     cc_ValidatorEvictionThreshold = 60480, cc_LowStakingPeriod = 60480, cc_MediumStakingPeriod = 129600,
     cc_HighStakingPeriod = 259200, cc_CooldownPeriod = 8640, cc_HayabusaTP = 180\<rparr>"

definition sample_genesis :: "int genesis_env" where
  "sample_genesis = \<lparr>ge_constants = sample_constants,
     ge_GetForkConfig = \<lambda>i. Some \<lparr>fc_HAYABUSA = 100, fc_GALACTICA = 50\<rparr>,
     ge_HttpGet = \<lambda>u w. (Inr (200, Inr []), w),
     ge_Unmarshal = \<lambda>bs. Inr \<lparr>cg_ForkConfig = None, cg_HayabusaTP = None\<rparr>\<rparr>"

definition sample_services :: "(int, (u32 \<times> FetchResult) list, sample_store) services" where
  "sample_services = \<lparr>sv_Ping = \<lambda>w. (None, w), sv_ChainTag = \<lambda>w. (Inr 39, w), sv_genesis = sample_genesis,
     sv_client = sample_client, sv_db = sample_db, sv_Latest = \<lambda>d. NoRecord, sv_cache = []\<rparr>"

theorem too_many_blocks_crash_witness:
  "main_start sample_services 0 (Inr sample_flags) 0 ([], []) = Crashed NilDereference"
proof -
  have net: "network_id (fl_thorURL sample_flags) = Some testnetID"
    by (simp add: network_id_def sample_flags_def)
  obtain g d2 where "setGenesisConfig (sv_genesis sample_services) (sv_db sample_services) 0 (fl_genesisURL sample_flags)
      (fl_thorURL sample_flags) 0 ([], []) = (Inr g, 0, d2)"
    using net
    by (simp add: setGenesisConfig_def getGenesisFromNetwork_def sample_services_def sample_genesis_def sample_flags_def)
  then show ?thesis
    by (intro too_many_blocks_crash) (simp_all add: sample_services_def parseFlags_def sample_flags_def)
qed

theorem unscheduled_fork_panics_witness:
  "\<exists>e. event_ok (- 1) 179 200 e \<and> slots_Write sample_slot_env slots_New (event_of e) = Panic NilDereference"
proof -
  let ?res = "\<lambda>n. \<lparr>fr_Block = sample_block n 1 1, fr_Seed = [], fr_Staker = None, fr_AuthNodes = [], fr_FutureSeed = []\<rparr>"
  let ?e = "block_event (- 1) 179 200 (?res 200) (Some (?res 199))"
  have "unat (- 1 :: u32) = 4294967295" by (simp add: unsigned_minus_1_eq_mask mask_eq_exp_minus_1)
  then have e: "event_ok (- 1) 179 200 ?e"
    by (simp add: event_ok_def block_event_def no_fork_def sample_block_def word_less_nat_alt word_le_nat_alt)
  have "hayabusa_heights (for_publisher \<lparr>cg_ForkConfig = Some \<lparr>fc_HAYABUSA = - 1, fc_GALACTICA = 0\<rparr>,
      cg_HayabusaTP = Some 180\<rparr>) = Ok (- 1, 179)"
    by (simp add: hayabusa_heights_def for_publisher_def)
  from unscheduled_fork_panics [OF this _ e] have "slots_Write sample_slot_env slots_New (event_of ?e) = Panic NilDereference"
    by (simp add: word_less_nat_alt word_le_nat_alt)
  with e show ?thesis by blast
qed

end
