(* ===== verification/PointTypes.thy ===== *)
theory PointTypes
  imports Subscriber TxStats PosWriter AuthorityList PriceApi Startup
begin

text \<open>
  The types of the fields. InfluxDB refuses a point whose field has another type than the points
  already stored under the same measurement and field, so every writer of a measurement must agree
  on one table. This theory states the table and shows that every handler, the fork handler and the
  start of the program keep to it.
\<close>

section \<open>The table\<close>

text \<open>
  The client library stores signed and unsigned integers, doubles, booleans and strings as such,
  and any other value (an address, an identifier, a big number) as the text it prints as.
\<close>

datatype influx_type = TBool | TInt | TUint | TFloat | TString

fun type_of :: "val \<Rightarrow> influx_type" where
  "type_of (VU8 x) = TUint" | "type_of (VU32 x) = TUint" | "type_of (VU64 x) = TUint"
| "type_of (VInt x) = TInt" | "type_of (VBool x) = TBool" | "type_of (VF64 x) = TFloat"
| "type_of (VBig x) = TString" | "type_of (VStr x) = TString" | "type_of (VAddr x) = TString"
| "type_of (VID x) = TString" | "type_of (VRat x) = TString"

definition fields_of :: "influx_type \<Rightarrow> string list \<Rightarrow> (string \<times> influx_type) list" where
  "fields_of ty names = map (\<lambda>n. (n, ty)) names"

text \<open>The chain's own measurements.\<close>

definition block_stats_types :: "(string \<times> influx_type) list" where
  "block_stats_types =
     fields_of TString [''block_id'', ''block_signer'', ''block_base_fee'', ''block_total_total_tip''] @
     fields_of TBool [''pos_active'', ''com''] @ fields_of TUint [''total_score'', ''best_block_number'',
     ''block_gas_used'', ''block_gas_limit'', ''storage_size'', ''recent_missed_slots''] @ fields_of TFloat
     [''block_gas_usage'', ''block_mine_gap'', ''block_total_burnt'']"

definition transactions_types :: "(string \<times> influx_type) list" where
  "transactions_types =
     fields_of TInt [''total_txs'', ''total_clauses'', ''vet_transfers'', ''candlestick_tx_count'',
     ''legacy_txs'', ''dyn_fee_txs''] @ fields_of TString [''vet_transfers_amount''] @ fields_of TFloat
     [''validator_rewards'', ''coef_average'', ''coef_max'', ''coef_min'', ''coef_mode'', ''coef_median'',
     ''priority_fee_open'', ''priority_fee_close'', ''priority_fee_high'', ''priority_fee_low'']"

definition liveness_types :: "(string \<times> influx_type) list" where
  "liveness_types =
     fields_of TUint [''current_epoch'', ''epoch'', ''current_block'', ''finalized'', ''justified_block'',
     ''liveness'']"

definition blockspace_utilization_types :: "(string \<times> influx_type) list" where
  "blockspace_utilization_types =
     fields_of TFloat [''utilization''] @ fields_of TString [''epoch'']"

definition slots_types :: "(string \<times> influx_type) list" where
  "slots_types =
     fields_of TString [''authority_node'', ''endorsor_node'', ''current_signer'', ''expected_block_signer'']
     @ fields_of TInt [''total_active_nodes''] @ fields_of TFloat [''weight'']"

definition recent_slots_types :: "(string \<times> influx_type) list" where
  "recent_slots_types =
     fields_of TUint [''epoch'', ''block_number'']"

definition authority_nodes_types :: "(string \<times> influx_type) list" where
  "authority_nodes_types =
     fields_of TString [''signer'', ''candidates0'', ''candidates1'', ''candidates2'', ''candidates3'',
     ''candidates4''] @ fields_of TUint [''block_number'']"

definition missed_slots_types :: "(string \<times> influx_type) list" where
  "missed_slots_types =
     fields_of TString [''expected_proposer''] @ fields_of TUint [''block_number'']"

definition aggregated_slots_types :: "(string \<times> influx_type) list" where
  "aggregated_slots_types =
     fields_of TUint [''missed''] @ fields_of TInt [''filled'']"

definition price_api_types :: "(string \<times> influx_type) list" where
  "price_api_types =
     fields_of TFloat [''vet_price'', ''vtho_price'']"

definition forks_types :: "(string \<times> influx_type) list" where
  "forks_types =
     fields_of TUint [''number'', ''score''] @ fields_of TString [''parent_id'', ''id''] @ fields_of TInt
     [''length'', ''index'']"

definition chain_config_types :: "(string \<times> influx_type) list" where
  "chain_config_types =
     fields_of TBool [''null'']"

text \<open>The measurements of the staker contract.\<close>

definition validator_overview_types :: "(string \<times> influx_type) list" where
  "validator_overview_types =
     fields_of TUint [''total_stake'', ''active_stake'', ''active_stake_accumulated'', ''active_weight'',
     ''active_weight_accumulated'', ''accumulated_weight'', ''queued_stake'', ''withdrawn_vet'',
     ''contract_vet'', ''cooldown_vet_contract'', ''withdrawable_vet_contract'', ''exiting_vet'',
     ''online_stake'', ''offline_stake'', ''online_weight'', ''offline_weight'', ''epoch'',
     ''block_in_epoch'', ''block_number'', ''weight_processed''] @ fields_of TInt [''active_validators'',
     ''online_validators'', ''offline_validators''] @ fields_of TFloat [''signer_probability'']"

definition hayabusa_gas_types :: "(string \<times> influx_type) list" where
  "hayabusa_gas_types =
     fields_of TUint [''vtho_issued'', ''vtho_burned'', ''validators_share'', ''delegators_share''] @
     fields_of TFloat [''issued_burned_ratio''] @ fields_of TString [''epoch'']"

definition individual_validators_types :: "(string \<times> influx_type) list" where
  "individual_validators_types =
     fields_of TBool [''online''] @ fields_of TString [''online_changed'', ''status_changed''] @ fields_of
     TInt [''queue_position''] @ fields_of TUint [''start_block'', ''completed_periods'', ''current_block'',
     ''total_staked'', ''total_weight'', ''total_queued_vet'', ''total_exiting_vet'', ''next_period_weight'',
     ''validator_staked'', ''validator_weight'', ''validator_queued_vet'', ''delegators_staked'',
     ''delegators_weight'', ''delegator_queued_vet'', ''offline_block'', ''exit_block'', ''weight_changed'',
     ''stake_changed'', ''exit_block_changed'', ''cooldown_vet'']"

definition dpos_missed_slots_types :: "(string \<times> influx_type) list" where
  "dpos_missed_slots_types =
     fields_of TUint [''block_number'']"

definition dpos_offline_missed_slots_types :: "(string \<times> influx_type) list" where
  "dpos_offline_missed_slots_types =
     fields_of TUint [''block_number'']"

definition dpos_future_slots_types :: "(string \<times> influx_type) list" where
  "dpos_future_slots_types =
     fields_of TUint [''block_number'', ''block_in_epoch'']"

definition staker_event_counts_types :: "(string \<times> influx_type) list" where
  "staker_event_counts_types =
     fields_of TInt [''count'']"

definition beneficiary_set_types :: "(string \<times> influx_type) list" where
  "beneficiary_set_types =
     fields_of TBool [''null'']"

definition validation_queued_types :: "(string \<times> influx_type) list" where
  "validation_queued_types =
     fields_of TUint [''period'', ''stake'']"

definition validation_withdrawn_types :: "(string \<times> influx_type) list" where
  "validation_withdrawn_types =
     fields_of TUint [''stake'']"

definition validation_signaled_exit_types :: "(string \<times> influx_type) list" where
  "validation_signaled_exit_types =
     fields_of TBool [''null'']"

definition stake_increased_types :: "(string \<times> influx_type) list" where
  "stake_increased_types =
     fields_of TString [''added'']"

definition stake_decreased_types :: "(string \<times> influx_type) list" where
  "stake_decreased_types =
     fields_of TString [''removed'']"

definition delegation_added_types :: "(string \<times> influx_type) list" where
  "delegation_added_types =
     fields_of TUint [''stake'', ''multiplier'', ''weight'', ''start_period'']"

definition delegation_withdrawn_types :: "(string \<times> influx_type) list" where
  "delegation_withdrawn_types =
     fields_of TUint [''stake'', ''multiplier'', ''weight'', ''block''] @ fields_of TString [''started'']"

definition delegation_signaled_exit_types :: "(string \<times> influx_type) list" where
  "delegation_signaled_exit_types =
     fields_of TUint [''exit_period'', ''first_period'', ''exit_block'', ''stake'', ''multiplier'',
     ''weight'', ''block'', ''validator_start_block'', ''validator_staking_period'']"

definition schema :: "(string \<times> (string \<times> influx_type) list) list" where
  "schema =
     [(''block_stats'', block_stats_types),
      (''transactions'', transactions_types),
      (''liveness'', liveness_types),
      (''blockspace_utilization'', blockspace_utilization_types),
      (''slots'', slots_types),
      (''recent_slots'', recent_slots_types),
      (''authority_nodes'', authority_nodes_types),
      (''missed_slots'', missed_slots_types),
      (''aggregated_slots'', aggregated_slots_types),
      (''price_api'', price_api_types),
      (''forks'', forks_types),
      (''chain_config'', chain_config_types),
      (''validator_overview'', validator_overview_types),
      (''hayabusa_gas'', hayabusa_gas_types),
      (''individual_validators'', individual_validators_types),
      (''dpos_missed_slots'', dpos_missed_slots_types),
      (''dpos_offline_missed_slots'', dpos_offline_missed_slots_types),
      (''dpos_future_slots'', dpos_future_slots_types),
      (''staker_event_counts'', staker_event_counts_types),
      (''beneficiary_set'', beneficiary_set_types),
      (''validation_queued'', validation_queued_types),
      (''validation_withdrawn'', validation_withdrawn_types),
      (''validation_signaled_exit'', validation_signaled_exit_types),
      (''stake_increased'', stake_increased_types),
      (''stake_decreased'', stake_decreased_types),
      (''delegation_added'', delegation_added_types),
      (''delegation_withdrawn'', delegation_withdrawn_types),
      (''delegation_signaled_exit'', delegation_signaled_exit_types)]"

text \<open>
  The fields of \<open>authority_nodes\<close> that are named after a master address are booleans, and those of
  \<open>staker_events\<close>, named after the contract's events, are integers.
\<close>

fun row_of :: "(string \<times> (string \<times> influx_type) list) list \<Rightarrow> string \<Rightarrow> (string \<times> influx_type) list" where
  "row_of [] m = []"
| "row_of ((name, fs) # rows) m = (if m = name then fs else row_of rows m)"

definition expected_type :: "string \<Rightarrow> fkey \<Rightarrow> influx_type option" where
  "expected_type m k =
     (case k of
        KAddr a \<Rightarrow> if m = ''authority_nodes'' then Some TBool else None
      | KStr s \<Rightarrow>
          if m = ''staker_events'' then Some TInt
          else map_of (row_of schema m) s)"

definition typed_fields :: "string \<Rightarrow> (fkey, val) gomap \<Rightarrow> bool" where
  "typed_fields m fs = list_all (\<lambda>(k, v). expected_type m k = Some (type_of v)) fs"

definition well_typed :: "point \<Rightarrow> bool" where
  "well_typed p = typed_fields (pt_Measurement p) (pt_Fields p)"

section \<open>The table and the constructions of fields\<close>

named_theorems typing "the points of a handler keep to the table"

lemma expected_type_KStr:
  "m \<noteq> ''staker_events'' \<Longrightarrow> expected_type m (KStr s) = map_of (row_of schema m) s"
  by (simp add: expected_type_def)

lemma schema_rows [simp]:
  "row_of schema ''block_stats'' = block_stats_types"
  "row_of schema ''transactions'' = transactions_types"
  "row_of schema ''liveness'' = liveness_types"
  "row_of schema ''blockspace_utilization'' = blockspace_utilization_types"
  "row_of schema ''slots'' = slots_types"
  "row_of schema ''recent_slots'' = recent_slots_types"
  "row_of schema ''authority_nodes'' = authority_nodes_types"
  "row_of schema ''missed_slots'' = missed_slots_types"
  "row_of schema ''aggregated_slots'' = aggregated_slots_types"
  "row_of schema ''price_api'' = price_api_types"
  "row_of schema ''forks'' = forks_types"
  "row_of schema ''chain_config'' = chain_config_types"
  "row_of schema ''validator_overview'' = validator_overview_types"
  "row_of schema ''hayabusa_gas'' = hayabusa_gas_types"
  "row_of schema ''individual_validators'' = individual_validators_types"
  "row_of schema ''dpos_missed_slots'' = dpos_missed_slots_types"
  "row_of schema ''dpos_offline_missed_slots'' = dpos_offline_missed_slots_types"
  "row_of schema ''dpos_future_slots'' = dpos_future_slots_types"
  "row_of schema ''staker_event_counts'' = staker_event_counts_types"
  "row_of schema ''beneficiary_set'' = beneficiary_set_types"
  "row_of schema ''validation_queued'' = validation_queued_types"
  "row_of schema ''validation_withdrawn'' = validation_withdrawn_types"
  "row_of schema ''validation_signaled_exit'' = validation_signaled_exit_types"
  "row_of schema ''stake_increased'' = stake_increased_types"
  "row_of schema ''stake_decreased'' = stake_decreased_types"
  "row_of schema ''delegation_added'' = delegation_added_types"
  "row_of schema ''delegation_withdrawn'' = delegation_withdrawn_types"
  "row_of schema ''delegation_signaled_exit'' = delegation_signaled_exit_types"
  by (simp_all add: schema_def)

lemma map_of_fields_of: "map_of (fields_of ty names) s = (if s \<in> set names then Some ty else None)"
  by (induction names) (auto simp: fields_of_def)

lemmas table = expected_type_KStr map_of_fields_of map_add_def
  block_stats_types_def transactions_types_def liveness_types_def blockspace_utilization_types_def
  slots_types_def recent_slots_types_def authority_nodes_types_def missed_slots_types_def
  aggregated_slots_types_def price_api_types_def forks_types_def chain_config_types_def
  validator_overview_types_def hayabusa_gas_types_def individual_validators_types_def
  dpos_missed_slots_types_def dpos_offline_missed_slots_types_def dpos_future_slots_types_def
  staker_event_counts_types_def beneficiary_set_types_def validation_queued_types_def
  validation_withdrawn_types_def validation_signaled_exit_types_def stake_increased_types_def
  stake_decreased_types_def delegation_added_types_def delegation_withdrawn_types_def
  delegation_signaled_exit_types_def

lemma typed_fields_simps [simp]:
  "typed_fields m []"
  "typed_fields m ((k, v) # fs) \<longleftrightarrow> expected_type m k = Some (type_of v) \<and> typed_fields m fs"
  "typed_fields m (fs @ gs) \<longleftrightarrow> typed_fields m fs \<and> typed_fields m gs"
  by (simp_all add: typed_fields_def)

lemma typed_fields_cases [simp]:
  "typed_fields m (if c then fs else gs) \<longleftrightarrow> (c \<longrightarrow> typed_fields m fs) \<and> (\<not> c \<longrightarrow> typed_fields m gs)"
  "typed_fields m (case x of None \<Rightarrow> fs | Some y \<Rightarrow> f y) \<longleftrightarrow>
     (case x of None \<Rightarrow> typed_fields m fs | Some y \<Rightarrow> typed_fields m (f y))"
  by (simp_all split: option.split)

lemma typed_fields_update:
  "expected_type m k = Some (type_of v) \<Longrightarrow> typed_fields m fs \<Longrightarrow> typed_fields m (AList.update k v fs)"
  by (induction fs) (auto simp: typed_fields_def)

lemma typed_fields_foldl:
  assumes "\<And>fs x. typed_fields m fs \<Longrightarrow> x \<in> set xs \<Longrightarrow> typed_fields m (f fs x)" and "typed_fields m fs"
  shows "typed_fields m (foldl f fs xs)"
  using assms by (induction xs arbitrary: fs) auto

section \<open>Who writes what\<close>

text \<open>The measurements of each handler.\<close>

fun measurements_of :: "string \<Rightarrow> string list" where
  "measurements_of name =
     (if name = ''authority'' then [''recent_slots'', ''missed_slots'', ''aggregated_slots'', ''authority_nodes'']
      else if name = ''pos'' then
        [''validator_overview'', ''hayabusa_gas'', ''individual_validators'', ''dpos_missed_slots'',
         ''dpos_offline_missed_slots'', ''dpos_future_slots'', ''staker_events'', ''staker_event_counts'', ''beneficiary_set'',
         ''validation_queued'', ''validation_withdrawn'', ''validation_signaled_exit'', ''stake_increased'',
         ''stake_decreased'', ''delegation_added'', ''delegation_withdrawn'', ''delegation_signaled_exit'']
      else if name = ''transactions'' then [''transactions'']
      else if name = ''liveness'' then [''liveness'']
      else if name = ''blocks'' then [''block_stats'']
      else if name = ''utilisation'' then [''blockspace_utilization'']
      else if name = ''slots'' then [''slots'']
      else if name = ''price'' then [''price_api'']
      else [])"

declare measurements_of.simps [simp del]

lemma measurements_of_handlers [simp]:
  "measurements_of ''authority'' = [''recent_slots'', ''missed_slots'', ''aggregated_slots'', ''authority_nodes'']"
  "measurements_of ''pos'' =
     [''validator_overview'', ''hayabusa_gas'', ''individual_validators'', ''dpos_missed_slots'',
      ''dpos_offline_missed_slots'', ''dpos_future_slots'', ''staker_events'', ''staker_event_counts'', ''beneficiary_set'',
      ''validation_queued'', ''validation_withdrawn'', ''validation_signaled_exit'', ''stake_increased'',
      ''stake_decreased'', ''delegation_added'', ''delegation_withdrawn'', ''delegation_signaled_exit'']"
  "measurements_of ''transactions'' = [''transactions'']" "measurements_of ''liveness'' = [''liveness'']"
  "measurements_of ''blocks'' = [''block_stats'']" "measurements_of ''utilisation'' = [''blockspace_utilization'']"
  "measurements_of ''slots'' = [''slots'']" "measurements_of ''price'' = [''price_api'']"
  by (simp_all add: measurements_of.simps)

text \<open>A point that the handler of this name may write: of one of its measurements and with fields of the table.\<close>

definition written_by :: "string \<Rightarrow> point \<Rightarrow> bool" where
  "written_by name p \<longleftrightarrow> pt_Measurement p \<in> set (measurements_of name) \<and> well_typed p"

section \<open>The handlers without state\<close>

lemma blockstats_typed [typing]:
  assumes "blockstats_Write interval ev = Ok ps" and "p \<in> set ps"
  shows "written_by ''blocks'' p"
  using assms
  by (auto simp: blockstats_Write_def fee_fields_def Let_def written_by_def well_typed_def table outcome_simps
      split: option.splits outcome.splits)

lemma utilisation_typed [typing]: "utilisation_Write epochLength ev = Ok ps \<Longrightarrow> p \<in> set ps \<Longrightarrow> written_by ''utilisation'' p"
  by (auto simp: utilisation_Write_def written_by_def well_typed_def table)

lemma liveness_typed [typing]: "liveness_Write epochLength cl now ev w = (Ok ps, w') \<Longrightarrow> p \<in> set ps \<Longrightarrow> written_by ''liveness'' p"
  by (auto simp: liveness_Write_def Let_def liveness_fields_def estimated_fields_def written_by_def well_typed_def table
      split: if_splits prod.splits sum.splits)

lemma transactions_typed [typing]:
  assumes "transactions_Write iter ev = Ok ps" and "p \<in> set ps"
  shows "written_by ''transactions'' p"
  using assms by (auto simp: transactions_Write_def Let_def outcome_simps written_by_def well_typed_def stat_fields_def table)

lemma slots_typed [typing]:
  assumes "slots_Write env w ev = Ok ps" and "p \<in> set ps"
  shows "written_by ''slots'' p"
proof -
  have "written_by ''slots'' (slot_point ev m expected n q)" for m expected n q
    by (simp add: slot_point_def written_by_def well_typed_def table)
  with assms show ?thesis
    by (auto simp: slots_Write_def outcome_simps split: if_splits prod.splits option.splits)
qed

lemma price_typed [typing]:
  assumes "price_Write tm fd db a w d = (ps, a', w', d')" and "p \<in> set ps"
  shows "written_by ''price'' p"
proof -
  have "written_by ''price'' (price_point vet vtho t)" for vet vtho t
    by (simp add: price_point_def written_by_def well_typed_def priceMeasurement_def table)
  with assms show ?thesis
    by (auto simp: price_Write_def Let_def split: if_splits prod.splits sum.splits)
qed

section \<open>The authority handler\<close>

lemma candidate_typed:
  assumes "i < 5"
  shows "expected_type ''authority_nodes'' (candidate_key i) = Some TString"
proof -
  have "i = 0 \<or> i = 1 \<or> i = 2 \<or> i = 3 \<or> i = 4" using assms by presburger
  then show ?thesis by (elim disjE) (simp_all add: candidate_key_def table char_of_def bit_0)
qed

lemma candidate_status_typed: "expected_type ''authority_nodes'' (KAddr a) = Some TBool"
  by (simp add: expected_type_def)

lemma authority_fields_typed: "typed_fields ''authority_nodes'' (authority_fields l b shuffled)"
  unfolding authority_fields_def
  by (intro typed_fields_foldl typed_fields_update)
    (auto simp: candidate_typed candidate_status_typed topFiveProposers_def table split: if_splits)

lemma recent_point_typed: "written_by ''authority'' (recent_point epoch b l filled proposer t)"
  by (simp add: recent_point_def written_by_def well_typed_def table)

lemma slot_points_typed:
  "slot_points interval epoch b prev l shuffled slots proposer is = Ok ps \<Longrightarrow> p \<in> set ps \<Longrightarrow> written_by ''authority'' p"
  by (induction "is" arbitrary: proposer ps) (auto simp: Let_def outcome_simps recent_point_typed)

lemma block_slot_points_typed:
  assumes "block_slot_points env ev prev l w = (Ok ps, l', w')" and "p \<in> set ps"
  shows "written_by ''authority'' p"
proof -
  have missed: "written_by ''authority'' q" if "q \<in> set (missed_slot_points b shuffled)" for q b shuffled
    using that by (auto simp: missed_slot_points_def written_by_def well_typed_def table split: list.splits if_splits)
  have older: "written_by ''authority'' q" if "q \<in> set (aggregated_points ev prev slots)" for q slots
    using that by (auto simp: aggregated_points_def written_by_def well_typed_def table split: if_splits)
  have nodes: "written_by ''authority'' \<lparr>pt_Measurement = ''authority_nodes'', pt_Tags = tags,
      pt_Fields = authority_fields l b shuffled, pt_Time = t\<rparr>" for tags l b shuffled t
    by (simp add: written_by_def well_typed_def authority_fields_typed)
  show ?thesis
    using assms
    by (auto simp: block_slot_points_def Let_def outcome_simps recent_point_typed nodes missed older
        dest: slot_points_typed split: prod.splits outcome.splits)
qed

lemma authority_typed [typing]:
  "authority_Write env ev l w = (Ok ps, l', w') \<Longrightarrow> p \<in> set ps \<Longrightarrow> written_by ''authority'' p"
  by (auto simp: authority_Write_def dest: block_slot_points_typed
      split: if_splits prod.splits outcome.splits option.splits)

section \<open>The handler of the staker contract\<close>

text \<open>An outcome that is a point of this handler, if it is a point at all.\<close>

definition typed_option :: "point option outcome \<Rightarrow> bool" where
  "typed_option r \<longleftrightarrow> (\<forall>p. r = Ok (Some p) \<longrightarrow> written_by ''pos'' p)"

lemma typed_option_bind: "(\<And>x. typed_option (f x)) \<Longrightarrow> typed_option (bind_outcome r f)"
  by (cases r) (auto simp: typed_option_def)

lemma typed_option_cast: "(\<And>x. typed_option (f x)) \<Longrightarrow> typed_option (with_cast out i cast f)"
  unfolding with_cast_def by (rule typed_option_bind) (auto simp: typed_option_def split: option.split)

lemma typed_option_bindW:
  "(\<And>x w. typed_option (fst (f x w))) \<Longrightarrow> typed_option (fst (bindW m f))"
  by (cases m; cases "fst m") (auto simp: typed_option_def)

lemma typed_option_fst: "typed_option r \<Longrightarrow> typed_option (fst (r, w))"
  by simp

lemma typed_option_point: "m \<in> set (measurements_of ''pos'') \<Longrightarrow> typed_fields m fs \<Longrightarrow> typed_option (mk_point m tags fs t)"
  by (auto simp: typed_option_def mk_point_def written_by_def well_typed_def)

lemmas typed_option_rules = typed_option_bind typed_option_cast typed_option_bindW typed_option_fst typed_option_point

lemma log_processors_typed:
  "typed_option (processValidationQueued cd lg abi t)" "typed_option (processValidationWithdrawn cd lg abi t)"
  "typed_option (processValidationSignaledExit lg t)" "typed_option (processStakeIncreased cd lg abi t)"
  "typed_option (processStakeDecreased cd lg abi t)" "typed_option (processBeneficiarySet cd lg abi t)"
  unfolding processValidationQueued_def processValidationWithdrawn_def processValidationSignaledExit_def
    processStakeIncreased_def processStakeDecreased_def processBeneficiarySet_def
  by (intro typed_option_rules; simp add: table)+

lemma delegation_processors_typed:
  "typed_option (fst (processDelegationAdded env revision lg abi t w))"
  "typed_option (fst (processDelegationWithdrawn env revision lg abi t w))"
  "typed_option (fst (processDelegationSignaledExit env revision lg t w))"
  unfolding processDelegationAdded_def processDelegationWithdrawn_def processDelegationSignaledExit_def Let_def
  by (intro typed_option_rules; simp add: table)+

lemma processor_typed:
  assumes "processor env revision lg abi t = Some process"
  shows "typed_option (fst (process w))"
  using assms log_processors_typed delegation_processors_typed
  unfolding processor_def Let_def by (auto split: if_splits)

definition typed_points :: "point option list \<Rightarrow> bool" where
  "typed_points ps \<longleftrightarrow> (\<forall>p. Some p \<in> set ps \<longrightarrow> written_by ''pos'' p)"

lemma process_log_typed:
  assumes "process_log env revision abis t lg s w = (Ok s', w')" and "typed_points (es_points s)"
  shows "typed_points (es_points s')"
proof -
  have "es_points s' = es_points s \<or>
      (\<exists>abi process p w1 w2. processor env revision lg abi t = Some process \<and> process w1 = (Ok p, w2) \<and>
         es_points s' = es_points s @ [p])"
    using assms(1) unfolding process_log_def bindW_Ok_iff Let_def
    by (elim exE conjE) (auto split: option.split_asm prod.split_asm outcome.split_asm)
  then show ?thesis
  proof (elim disjE exE conjE)
    fix abi process p w1 w2
    assume "processor env revision lg abi t = Some process" "process w1 = (Ok p, w2)" "es_points s' = es_points s @ [p]"
    with processor_typed [of env revision lg abi t process w1] assms(2) show ?thesis
      by (auto simp: typed_points_def typed_option_def)
  qed (use assms(2) in simp)
qed

lemma process_logs_typed:
  "process_logs env revision abis t lgs s w = (Ok s', w') \<Longrightarrow> typed_points (es_points s) \<Longrightarrow> typed_points (es_points s')"
proof (induction lgs arbitrary: s w)
  case (Cons lg lgs)
  then show ?case using process_log_typed [of env revision abis t lg s w]
    by (auto simp: bindW_Ok_iff)
qed simp

lemma count_point_typed: "written_by ''pos'' (count_point counts t)"
proof (cases "counts = []")
  case True
  then show ?thesis by (simp add: count_point_def written_by_def well_typed_def)
next
  case False
  then show ?thesis by (simp add: count_point_last written_by_def well_typed_def table)
qed

lemma event_flags_typed: "typed_fields ''staker_events'' (event_flags abis groups)"
  unfolding event_flags_def
  by (intro typed_fields_foldl) (auto simp: expected_type_def intro: typed_fields_update split: prod.splits option.splits)

lemma createBlockPoints_typed:
  assumes "createBlockPoints s ev w = (Ok ps, w')"
  shows "typed_points ps"
proof -
  obtain logs w1 points where "ProcessEvents (st_events s) (blk_ID (e_Block ev)) logs (st_abis s) (e_Timestamp ev) w1 = (Ok points, w')"
    and ps: "ps = points \<or> ps = points @ [Some \<lparr>pt_Measurement = ''staker_events'', pt_Tags = e_DefaultTags ev,
      pt_Fields = event_flags (st_abis s) (ee_logs (st_events s) logs), pt_Time = e_Timestamp ev\<rparr>]"
    using assms by (auto simp: createBlockPoints_def Let_def bindW_Ok_iff split: if_splits)
  then have "typed_points points"
    using process_logs_typed [of "st_events s"]
    by (fastforce simp: ProcessEvents_def bindW_Ok_iff typed_points_def count_point_typed split: if_splits)
  with ps show ?thesis by (auto simp: typed_points_def written_by_def well_typed_def event_flags_typed)
qed

lemma single_typed:
  assumes "createSingleValidatorStats s ev info = Ok ps" and "p \<in> set ps"
  shows "written_by ''pos'' p"
proof -
  have exits: "written_by ''pos'' (exited_point ev a v)" for a v
    by (auto simp: exited_point_def Let_def written_by_def well_typed_def table)
  have "typed_fields ''individual_validators'' (validator_fields n k v)" for n k v
    by (simp add: validator_fields_def table option.case_eq_if)
  moreover have "typed_fields ''individual_validators'' (change_fields prev v)" for prev v
    by (simp add: change_fields_def table option.case_eq_if)
  ultimately have one: "written_by ''pos'' q" if "validator_point ev order prevs v = Ok q" for order prevs v q
    using that by (auto simp: validator_point_def outcome_simps written_by_def well_typed_def individual_validators_types_def
      expected_type_KStr map_of_fields_of map_add_def)
  then have "written_by ''pos'' q" if "validator_points ev order prevs vs = Ok qs" "q \<in> set qs" for order prevs vs qs q
    using that by (induction vs arbitrary: qs) (auto simp: outcome_simps one)
  with assms exits show ?thesis
    by (auto simp: createSingleValidatorStats_def Let_def outcome_simps)
qed

lemma overview_typed:
  assumes "createValidatorOverview s ev info = Ok ps" and "p \<in> set ps"
  shows "written_by ''pos'' p"
proof -
  have "typed_fields ''validator_overview'' (overview_fields epochLength b info total withdrawn ov)" for epochLength b total withdrawn ov
    by (simp add: overview_fields_def table)
  moreover have "typed_fields ''validator_overview'' (signer_fields ev ov)" for ov
    by (auto simp: signer_fields_def table split: option.split)
  ultimately show ?thesis using assms
    by (auto simp: createValidatorOverview_def outcome_simps written_by_def well_typed_def)
qed

lemma energy_typed:
  assumes "createEnergyStats s ev info = Ok ps" and "p \<in> set ps"
  shows "written_by ''pos'' p"
proof -
  have "typed_fields ''hayabusa_gas'' (energy_fields epoch issued burned)" for epoch issued burned
    by (simp add: energy_fields_def table)
  with assms show ?thesis
    by (auto simp: createEnergyStats_def outcome_simps written_by_def well_typed_def split: if_splits option.splits)
qed

lemma slot_points_of_staker_typed:
  assumes "createSlotPoints s ev info = Some (Ok ps)" and "p \<in> set ps"
  shows "written_by ''pos'' p"
proof -
  have "written_by ''pos'' (missed_online_point ev m)" "written_by ''pos'' (missed_offline_point ev m)"
    "written_by ''pos'' (future_point epochLength ev f)" for m f epochLength
    by (simp_all add: missed_online_point_def missed_offline_point_def future_point_def written_by_def well_typed_def table)
  with assms show ?thesis
    by (auto simp: createSlotPoints_def outcome_simps split: if_splits option.splits prod.splits)
qed

lemma or_nothing_Ok: "or_nothing r = Ok ps \<longleftrightarrow> r = Ok ps \<or> ps = [] \<and> (\<exists>e. r = Err e)"
  by (auto simp: or_nothing_def split: outcome.splits)

text \<open>Where the points of the staker's handler come from.\<close>

lemma staker_Write_parts:
  assumes "staker_Write s ev0 w = Some (Ok ps, w')" and "ps \<noteq> []"
  obtains ev info w1 r4 w2 r5 ps1 ps2 ps3 ps4 ps5 where
    "createSingleValidatorStats s ev info = Ok ps1" and "createValidatorOverview s ev info = Ok ps2"
    and "or_nothing (createEnergyStats s ev info) = Ok ps3" and "createBlockPoints s ev w1 = (r4, w2)"
    and "or_nothing r4 = Ok ps4" and "createSlotPoints s ev info = Some r5" and "or_nothing r5 = Ok ps5"
    and "ps = valid_points (map Some (ps1 @ ps2 @ ps3) @ ps4 @ map Some ps5)"
proof -
  have forked: "hs_Forked (e_HayabusaStatus ev0)" using assms by (cases "hs_Forked (e_HayabusaStatus ev0)") (auto simp: staker_Write_def)
  obtain ev w1 where 1: "ensure_parent s ev0 w = (Ok ev, w1)"
    using assms(1) forked by (cases "ensure_parent s ev0 w"; cases "fst (ensure_parent s ev0 w)") (auto simp: staker_Write_def)
  obtain info w2 where 2: "the_staker s ev w1 = (Ok info, w2)"
    using assms forked 1 by (cases "the_staker s ev w1"; cases "fst (the_staker s ev w1)") (auto simp: staker_Write_def)
  let ?single = "createSingleValidatorStats s ev info"
  let ?ov = "createValidatorOverview s ev info"
  let ?energy = "or_nothing (createEnergyStats s ev info)"
  let ?first = "bind_outcome ?single (\<lambda>ps1. bind_outcome ?ov (\<lambda>ps2. bind_outcome ?energy (\<lambda>ps3. Ok (map Some (ps1 @ ps2 @ ps3)))))"
  let ?all = "bindW (?first, w2) (\<lambda>ps w. case createBlockPoints s ev w of (r, w) \<Rightarrow> (bind_outcome (or_nothing r) (\<lambda>ps4. Ok (ps @ ps4)), w))"
  have whole: "staker_Write s ev0 w = (case ?all of (Panic p, w) \<Rightarrow> Some (Panic p, w) | (Err e, w) \<Rightarrow> Some (Err e, w)
      | (Ok ps, w) \<Rightarrow> map_option (\<lambda>r. (bind_outcome (or_nothing r) (\<lambda>ps5. Ok (valid_points (ps @ map Some ps5))), w))
          (createSlotPoints s ev info))"
    using forked by (simp add: staker_Write_def 1 2 Let_def)
  obtain qs w3 where 3: "?all = (Ok qs, w3)"
    using assms(1) unfolding whole by (cases ?all; cases "fst ?all") simp_all
  then obtain xs r4 w4 where "?first = Ok xs" and block: "createBlockPoints s ev w2 = (r4, w4)"
    and "bind_outcome (or_nothing r4) (\<lambda>ps4. Ok (xs @ ps4)) = Ok qs"
    by (cases "createBlockPoints s ev w2") (auto simp: bindW_Ok_iff)
  moreover obtain r5 where slots: "createSlotPoints s ev info = Some r5"
    and "bind_outcome (or_nothing r5) (\<lambda>ps5. Ok (valid_points (qs @ map Some ps5))) = Ok ps"
    using assms(1) unfolding whole 3 by auto
  ultimately show thesis using that [OF _ _ _ block _ slots] by (auto simp: outcome_simps)
qed

lemma staker_typed [typing]:
  assumes "staker_Write s ev0 w = Some (Ok ps, w')" and "p \<in> set ps"
  shows "written_by ''pos'' p"
proof -
  from assms(2) have "ps \<noteq> []" by auto
  with assms(1) obtain ev info w1 r4 w2 r5 ps1 ps2 ps3 ps4 ps5 where
    parts: "createSingleValidatorStats s ev info = Ok ps1" "createValidatorOverview s ev info = Ok ps2"
      "or_nothing (createEnergyStats s ev info) = Ok ps3" "createBlockPoints s ev w1 = (r4, w2)" "or_nothing r4 = Ok ps4"
      "createSlotPoints s ev info = Some r5" "or_nothing r5 = Ok ps5"
    and ps: "ps = valid_points (map Some (ps1 @ ps2 @ ps3) @ ps4 @ map Some ps5)"
    by (rule staker_Write_parts)
  have "typed_points (map Some (ps1 @ ps2 @ ps3) @ ps4 @ map Some ps5)"
    using parts createBlockPoints_typed [of s ev w1 ps4 w2]
    by (auto simp: typed_points_def or_nothing_Ok dest: single_typed overview_typed energy_typed
        slot_points_of_staker_typed)
  with ps assms(2) show ?thesis by (auto simp: valid_points_def typed_points_def)
qed

section \<open>The points that no handler writes\<close>

lemma forked_point_typed: "well_typed (forked_point blocks i b)"
  by (simp add: forked_point_def well_typed_def ForkMeasurement_def table)

lemma chain_config_typed: "well_typed (chain_config_point c fc now)"
  by (simp add: chain_config_point_def well_typed_def table)

end
