(* ===== verification/Pipeline.thy ===== *)
theory Pipeline
  imports PointTypes
begin

text \<open>
  The running program: the publisher of \<^verbatim>\<open>pubsub/publisher.go\<close> sends events, the subscriber of
  \<^verbatim>\<open>pubsub/subscriber.go\<close> turns each into a batch of tasks or resolves a fork, and the pool of
  \<^verbatim>\<open>pubsub/worker_pool.go\<close> runs the handlers. The parts are the step relations of their own
  theories; here they share the channel, the queue and the database.
\<close>

section \<open>The handlers\<close>

text \<open>What the handlers registered in \<open>NewSubscriber\<close> are made of.\<close>

record ('w, 'd) handlers =
  hd_interval :: u64
  hd_epochLength :: u32
  hd_client :: "'w client"
  hd_iter :: "(f64, nat) gomap \<Rightarrow> (f64 \<times> nat) list"
  hd_slots :: slot_env
  hd_staker :: "'w staker"
  hd_authority :: "'w authority_env"
  hd_timer :: "'w timer"
  hd_feed :: "'w price_feed"
  hd_database :: "'d database"

text \<open>
  What a task may return: the handler it is named after, on the event it holds, with whatever state
  the handler and the world are in when it runs.
\<close>

inductive runs :: "('w, 'd) handlers \<Rightarrow> Task \<Rightarrow> point list outcome \<Rightarrow> bool" for h where
  authority: "\<lbrakk>tk_EventType t = ''authority''; authority_Write (hd_authority h) (tk_Event t) l w = (r, l', w')\<rbrakk>
    \<Longrightarrow> runs h t r"
| pos: "\<lbrakk>tk_EventType t = ''pos''; staker_Write (hd_staker h) (tk_Event t) w = Some (r, w')\<rbrakk> \<Longrightarrow> runs h t r"
| transactions: "\<lbrakk>tk_EventType t = ''transactions''; transactions_Write (hd_iter h) (tk_Event t) = r\<rbrakk> \<Longrightarrow> runs h t r"
| liveness: "\<lbrakk>tk_EventType t = ''liveness''; liveness_Write (hd_epochLength h) (hd_client h) now (tk_Event t) w = (r, w')\<rbrakk>
    \<Longrightarrow> runs h t r"
| blocks: "\<lbrakk>tk_EventType t = ''blocks''; blockstats_Write (hd_interval h) (tk_Event t) = r\<rbrakk> \<Longrightarrow> runs h t r"
| utilisation: "\<lbrakk>tk_EventType t = ''utilisation''; utilisation_Write (hd_epochLength h) (tk_Event t) = r\<rbrakk> \<Longrightarrow> runs h t r"
| slots: "\<lbrakk>tk_EventType t = ''slots''; slots_Write (hd_slots h) slots_New (tk_Event t) = r\<rbrakk> \<Longrightarrow> runs h t r"
| price: "\<lbrakk>tk_EventType t = ''price''; price_Write (hd_timer h) (hd_feed h) (hd_database h) a w d = (ps, a', w', d')\<rbrakk>
    \<Longrightarrow> runs h t (Ok ps)"

lemma runs_written: "runs h t (Ok ps) \<Longrightarrow> p \<in> set ps \<Longrightarrow> written_by (tk_EventType t) p"
  by (erule runs.cases) (auto dest: typing)

lemma runs_typed: "runs h t (Ok ps) \<Longrightarrow> p \<in> set ps \<Longrightarrow> well_typed p"
  by (drule (1) runs_written) (simp add: written_by_def)

section \<open>The system\<close>

record ('w, 'd) pipeline =
  pl_pub :: prun
  pl_sub :: "('w, 'd) subscriber"
  pl_pool :: "(Task, 'd) pool"
  pl_returned :: bool

text \<open>The batch that an event leaves for the pool.\<close>

definition batch_of :: "BlockEvent \<Rightarrow> ('w, 'd) subscriber \<Rightarrow> Task list option" where
  "batch_of b t = (if fk_Occurred (be_Fork b) then None else Some (last (su_batches t)))"

text \<open>
  The publisher sends or closes; the subscriber receives the next event while no batch is pending
  (\<open>SubmitBatch\<close> returns before the loop goes on); the pool works; \<open>Subscribe\<close> returns between two
  events, and its deferred \<open>Shutdown\<close> follows; the price handler deletes old points while it runs; the
  database client sends what it was handed, and the server stores it, at any time.
\<close>

inductive plstep :: "('w, 'd) handlers \<Rightarrow> ('w, 'd) pipeline \<Rightarrow> ('w, 'd) pipeline \<Rightarrow> bool" for h where
  publish: "\<lbrakk>pstep (pl_pub s) p; pr_received p = pr_received (pl_pub s)\<rbrakk> \<Longrightarrow> plstep h s (s\<lparr>pl_pub := p\<rparr>)"
| receive: "\<lbrakk>\<not> pl_returned s; wp_batch (pl_pool s) = None; chan_recv (pr_chan (pl_pub s)) = Some (b, c);
      iteration_of order;
      on_event (hd_client h) (hd_database h) order now b ((pl_sub s)\<lparr>su_db := wp_db (pl_pool s)\<rparr>) = Some (Ok t)\<rbrakk>
    \<Longrightarrow> plstep h s (s\<lparr>pl_pub := (pl_pub s)\<lparr>pr_chan := c, pr_received := pr_received (pl_pub s) @ [b]\<rparr>,
          pl_sub := t, pl_pool := (pl_pool s)\<lparr>wp_db := su_db t, wp_batch := batch_of b t\<rparr>\<rparr>)"
| pool: "wpwork (hd_database h) (runs h) (pl_pool s) p \<Longrightarrow> plstep h s (s\<lparr>pl_pool := p\<rparr>)"
| return: "wp_batch (pl_pool s) = None \<Longrightarrow> plstep h s (s\<lparr>pl_returned := True\<rparr>)"
| shutdown: "\<lbrakk>pl_returned s; \<not> wp_cancelled (pl_pool s)\<rbrakk>
    \<Longrightarrow> plstep h s (s\<lparr>pl_pool := (pl_pool s)\<lparr>wp_cancelled := True\<rparr>\<rparr>)"
| old_prices: "db_Delete (hd_database h) start stop [MeasurementEq priceMeasurement] (wp_db (pl_pool s)) = (e, d)
    \<Longrightarrow> plstep h s (s\<lparr>pl_pool := (pl_pool s)\<lparr>wp_db := d\<rparr>\<rparr>)"
| background: "db_background (hd_database h) (wp_db (pl_pool s)) d \<Longrightarrow> plstep h s (s\<lparr>pl_pool := (pl_pool s)\<lparr>wp_db := d\<rparr>\<rparr>)"

definition pipeline_start :: "('w, 'c) publisher \<Rightarrow> 'w \<Rightarrow> 'd \<Rightarrow> ('w, 'd) pipeline" where
  "pipeline_start p w d =
     \<lparr>pl_pub = start_run p, pl_sub = \<lparr>su_synced = False, su_world = w, su_db = d, su_batches = []\<rparr>,
      pl_pool = NewWorkerPool DefaultWorkerPoolSize DefaultTaskQueueSize d, pl_returned = False\<rparr>"

inductive plreach :: "('w, 'd) handlers \<Rightarrow> ('w, 'd) pipeline \<Rightarrow> ('w, 'd) pipeline \<Rightarrow> bool" for h s0 where
  start: "plreach h s0 s0"
| step: "plreach h s0 s \<Longrightarrow> plstep h s t \<Longrightarrow> plreach h s0 t"

section \<open>The parts of a run\<close>

text \<open>A run of the system is a run of the publisher and a run of the pool with the politeness that the pool
  needs: the shutdown begins only when no batch is pending.\<close>

definition pl_inv :: "('w, 'd) pipeline \<Rightarrow> bool" where
  "pl_inv s \<longleftrightarrow> (wp_cancelled (pl_pool s) \<or> wp_isShutdown (pl_pool s) \<longrightarrow> pl_returned s) \<and>
     (pl_returned s \<longrightarrow> wp_batch (pl_pool s) = None)"

lemma pl_inv_work:
  assumes "wpwork db run p q" and "wp_cancelled p \<or> wp_isShutdown p \<longrightarrow> r" and "r \<longrightarrow> wp_batch p = None"
  shows "(wp_cancelled q \<or> wp_isShutdown q \<longrightarrow> r) \<and> (r \<longrightarrow> wp_batch q = None)"
  using assms by (induction rule: wpwork.induct) auto

lemma pl_inv_step: "plstep h s t \<Longrightarrow> pl_inv s \<Longrightarrow> pl_inv t"
  by (induction rule: plstep.induct) (auto simp: pl_inv_def dest: pl_inv_work)

lemma pipeline_inv: "plreach h (pipeline_start p w d) s \<Longrightarrow> pl_inv s"
proof (induction rule: plreach.induct)
  case start
  show ?case by (simp add: pl_inv_def pipeline_start_def NewWorkerPool_def Let_def)
qed (blast intro: pl_inv_step)

lemma pl_pub_step:
  assumes "plstep h s t"
  shows "pl_pub t = pl_pub s \<or> pstep (pl_pub s) (pl_pub t)"
  using assms
proof cases
  case (receive b c order now t')
  have "pstep (pl_pub s) ((pl_pub s)\<lparr>pr_chan := c, pr_received := pr_received (pl_pub s) @ [b]\<rparr>)"
    using receive(4) by (rule pstep.receive)
  with receive(1) show ?thesis by simp
qed simp_all

lemma pipeline_pub: "plreach h (pipeline_start p w d) s \<Longrightarrow> preach p (pl_pub s)"
proof (induction rule: plreach.induct)
  case start
  show ?case by (simp add: pipeline_start_def preach.start)
next
  case (step s t)
  then show ?case using pl_pub_step [OF step(2)] by (auto intro: preach.step)
qed

lemma pl_pool_step:
  assumes "plstep h s t" and "pl_inv s"
  shows "wpreach True (hd_database h) (runs h) (pl_pool s) (pl_pool t)"
  using assms
proof cases
  case (receive b c order now t')
  let ?p = "pl_pool s" and ?q = "(pl_pool s)\<lparr>wp_db := su_db t'\<rparr>"
  have 1: "wpstep True (hd_database h) (runs h) ?p ?q" by (rule wpstep.other)
  show ?thesis
  proof (cases "fk_Occurred (be_Fork b)")
    case True
    then have "pl_pool t = ?q" using receive by (simp add: batch_of_def)
    with 1 show ?thesis by (auto intro: wpreach.intros)
  next
    case False
    have "wpstep True (hd_database h) (runs h) ?q (?q\<lparr>wp_batch := Some (last (su_batches t'))\<rparr>)"
      using receive assms(2) by (intro wpstep.submit) (auto simp: pl_inv_def)
    moreover have "pl_pool t = ?q\<lparr>wp_batch := Some (last (su_batches t'))\<rparr>" using receive False by (simp add: batch_of_def)
    ultimately show ?thesis using 1 by (auto intro: wpreach_steps2)
  qed
next
  case (pool p)
  then show ?thesis by (auto intro: wpreach.intros wpstep.work)
next
  case shutdown
  with assms(2) have "wpstep True (hd_database h) (runs h) (pl_pool s) (pl_pool t)"
    by (auto simp: pl_inv_def intro: wpstep.shutdown)
  then show ?thesis by (auto intro: wpreach.intros)
next
  case (old_prices start stop e d)
  then have "wpstep True (hd_database h) (runs h) (pl_pool s) (pl_pool t)" by (auto intro: wpstep.other)
  then show ?thesis by (auto intro: wpreach.intros)
next
  case (background d)
  then have "wpstep True (hd_database h) (runs h) (pl_pool s) (pl_pool t)" by (auto intro: wpstep.other)
  then show ?thesis by (auto intro: wpreach.intros)
qed (auto intro: wpreach.intros)

lemma pipeline_pool:
  "plreach h (pipeline_start p w d) s \<Longrightarrow>
     wpreach True (hd_database h) (runs h) (NewWorkerPool DefaultWorkerPoolSize DefaultTaskQueueSize d) (pl_pool s)"
proof (induction rule: plreach.induct)
  case start
  show ?case by (simp add: pipeline_start_def wpreach.start)
next
  case (step s t)
  then show ?case using pl_pool_step [OF step(2) pipeline_inv [OF step(1)]] wpreach_trans by blast
qed

section \<open>Types in the database\<close>

text \<open>All fields that are stored or on their way have the type of the table.\<close>

definition typed_db :: "'d database \<Rightarrow> 'd \<Rightarrow> bool" where
  "typed_db db d \<longleftrightarrow> (\<forall>(m, k, v) \<in> db_fields db d. expected_type m k = Some (type_of v))"

lemma typed_fields_in: "(\<forall>(m, k, v) \<in> fields_in ps. expected_type m k = Some (type_of v)) \<longleftrightarrow> (\<forall>p \<in> ps. well_typed p)"
  by (fastforce simp: fields_in_def well_typed_def typed_fields_def list_all_iff)

lemma typed_db_points: "typed_db db d \<longleftrightarrow> (\<forall>p \<in> db_points db d \<union> set (db_handed db d). well_typed p)"
  by (simp only: typed_db_def db_fields_def typed_fields_in)

lemma typed_db_less: "typed_db db d \<Longrightarrow> db_fields db d' \<subseteq> db_fields db d \<Longrightarrow> typed_db db d'"
  unfolding typed_db_def by blast

lemma typed_db_write:
  "db_laws db \<Longrightarrow> typed_db db d \<Longrightarrow> (\<And>p. p \<in> set ps \<Longrightarrow> well_typed p) \<Longrightarrow> typed_db db (WritePoints db ps d)"
  by (auto simp: typed_db_points WritePoints_points WritePoints_handed)

lemma typed_db_Resolve:
  assumes "Resolve cl db now best side finalized w d = Some (r, w', d')" and "db_laws db" and "typed_db db d"
  shows "typed_db db d'"
proof -
  obtain e d1 where del: "db_Delete db (unix_time (blk_Timestamp finalized) + sec 1) (now + sec 3600) resolve_predicate d = (e, d1)"
    by fastforce
  have d1: "typed_db db d1" using typed_db_less [OF assms(3) db_fields_delete [OF assms(2) del]] .
  have "d' = d1 \<or> (\<exists>chain. d' = writeForkedBlock db chain d1)"
    using assms(1) del
    by (auto simp: Resolve_def Let_def split: option.split_asm prod.split_asm outcome.split_asm)
  with d1 show ?thesis
    by (auto simp: typed_db_points writeForkedBlock_handed [OF assms(2)] forked_points_def forked_point_typed)
qed

lemma typed_db_on_event:
  assumes "on_event cl db order now b s = Some (Ok t)" and "db_laws db" and "typed_db db (su_db s)"
  shows "typed_db db (su_db t)"
proof (cases "fk_Occurred (be_Fork b)")
  case True
  obtain best side finalized r w where "Resolve cl db now best side finalized (su_world s) (su_db s) = Some (r, w, su_db t)"
    using assms(1) True
    by (auto simp: on_event_def split: option.split_asm prod.split_asm outcome.split_asm)
  then show ?thesis using assms(2,3) by (rule typed_db_Resolve)
next
  case False
  with assms(1,3) show ?thesis by (auto simp: on_event_def)
qed

text \<open>What the pool needs of the handlers to keep the types of the database.\<close>

locale typed_writers =
  fixes run :: "'t \<Rightarrow> point list outcome \<Rightarrow> bool"
  assumes run_typed: "run t (Ok ps) \<Longrightarrow> p \<in> set ps \<Longrightarrow> well_typed p"
begin

lemma work_typed:
  assumes "wpwork db run p q" and "db_laws db" and "typed_db db (wp_db p)"
  shows "typed_db db (wp_db q)"
  using assms
proof (induction rule: wpwork.induct)
  case (handled s i t points)
  then show ?case by (auto simp: processTask_def intro: typed_db_write dest: run_typed)
qed (auto simp: processTask_def)

end

interpretation handlers: typed_writers "runs h" for h
  by unfold_locales (rule runs_typed)

lemma typed_db_step:
  assumes "plstep h s t" and "db_laws (hd_database h)"
    and "typed_db (hd_database h) (wp_db (pl_pool s))"
  shows "typed_db (hd_database h) (wp_db (pl_pool t))"
  using assms
proof (induction rule: plstep.induct)
  case (receive s b c order now t)
  then show ?case using typed_db_on_event [OF receive(5)] by simp
next
  case (pool s p)
  then show ?case using handlers.work_typed by fastforce
next
  case (old_prices start stop s e d)
  then show ?case using typed_db_less [OF _ db_fields_delete] by fastforce
next
  case (background s d)
  then show ?case using typed_db_less [OF _ db_fields_background] by fastforce
qed auto

section \<open>The order of the tasks\<close>

definition pending :: "('t, 'd) pool \<Rightarrow> 't list" where
  "pending p = (case wp_batch p of None \<Rightarrow> [] | Some ts \<Rightarrow> ts)"

text \<open>One task of the event for each handler.\<close>

definition batch_ok :: "Task list \<Rightarrow> BlockEvent \<Rightarrow> bool" where
  "batch_ok ts b \<longleftrightarrow> mset (map tk_EventType ts) = mset handler_names \<and> set (map tk_Event ts) = {event_of b}"

definition ordinary :: "BlockEvent list \<Rightarrow> BlockEvent list" where
  "ordinary bs = filter (\<lambda>b. \<not> fk_Occurred (be_Fork b)) bs"

definition in_order :: "('w, 'd) pipeline \<Rightarrow> bool" where
  "in_order s \<longleftrightarrow> wp_accepted (pl_pool s) @ pending (pl_pool s) = concat (su_batches (pl_sub s)) \<and>
     list_all2 batch_ok (su_batches (pl_sub s)) (ordinary (pr_received (pl_pub s)))"

lemma pending_work:
  assumes "wpwork db run p q" and "wp_cancelled p \<longrightarrow> wp_batch p = None"
  shows "wp_accepted q @ pending q = wp_accepted p @ pending p"
  using assms by (induction rule: wpwork.induct) (auto simp: pending_def)

lemma on_event_batches:
  assumes "on_event cl db order now b s = Some (Ok t)" and "iteration_of order"
  shows "if fk_Occurred (be_Fork b) then su_batches t = su_batches s
    else \<exists>ts. su_batches t = su_batches s @ [ts] \<and> batch_ok ts b"
proof (cases "fk_Occurred (be_Fork b)")
  case True
  with assms(1) show ?thesis
    by (auto simp: on_event_def split: option.split_asm prod.split_asm outcome.split_asm)
next
  case False
  have "order \<noteq> []" using assms(2) by (auto simp: iteration_of_def handler_names_def)
  then have "batch_ok (tasks_of order (event_of b)) b"
    using assms(2) by (simp add: batch_ok_def tasks_of_def iteration_of_def o_def image_constant_conv)
  moreover have "su_batches t = su_batches s @ [tasks_of order (event_of b)]" using assms(1) False by (auto simp: on_event_def)
  ultimately show ?thesis using False by auto
qed

lemma in_order_step:
  assumes "plstep h s t" and "in_order s" and "pl_inv s"
  shows "in_order t"
  using assms
proof (induction rule: plstep.induct)
  case (receive s b c order now t)
  show ?case
    using on_event_batches [OF receive(5,4)] receive.prems receive(2)
    by (auto simp: in_order_def batch_of_def pending_def ordinary_def intro: list_all2_appendI split: if_splits)
next
  case (pool s p)
  then show ?case using pending_work [OF pool(1)] by (auto simp: in_order_def pl_inv_def)
qed (auto simp: in_order_def pending_def)

lemma pipeline_in_order: "plreach h (pipeline_start p w d) s \<Longrightarrow> in_order s"
proof (induction rule: plreach.induct)
  case start
  show ?case
    by (simp add: in_order_def pipeline_start_def start_run_def NewWorkerPool_def Let_def pending_def ordinary_def)
next
  case (step s t)
  then show ?case using in_order_step [OF step(2) step.IH] pipeline_inv [OF step(1)] by simp
qed

section \<open>Properties\<close>

text \<open>C10: Whatever the program hands to the database client while it runs, by handlers and fork resolution in any
  interleaving, keeps to one table of field types; so, whenever the client sends it and however the server merges
  it, a database whose points keep to the table stays so: InfluxDB never sees a field whose type differs from the
  stored one.\<close>

theorem pipeline_typed:
  assumes "plreach h (pipeline_start pub w d) s" and "db_laws (hd_database h)"
    and "\<forall>p \<in> db_points (hd_database h) d \<union> set (db_handed (hd_database h) d). well_typed p"
  shows "\<forall>p \<in> db_points (hd_database h) (wp_db (pl_pool s)) \<union> set (db_handed (hd_database h) (wp_db (pl_pool s))). well_typed p"
  using assms(1)
proof (induction rule: plreach.induct)
  case start
  show ?case using assms(3) by (simp add: pipeline_start_def NewWorkerPool_def Let_def)
next
  case (step s t)
  then show ?case using typed_db_step [OF step(2) assms(2)] by (simp only: typed_db_points)
qed

text \<open>C9: In every interleaving of the running program neither the channel nor the queue is sent to once it is
  closed; the subscriber has received a prefix of what the publisher sent; each ordinary event received
  became one batch with one task for each handler, in order; and every task of these batches is exactly
  once waiting to be sent, queued, running, processed, or recovered from a panic.\<close>

theorem pipeline_delivers:
  assumes "plreach h (pipeline_start pub w d) s"
  shows "\<not> pr_panicked (pl_pub s) \<and> \<not> wp_panicked (pl_pool s) \<and>
    pr_sent (pl_pub s) = pr_received (pl_pub s) @ ch_buf (pr_chan (pl_pub s)) \<and>
    list_all2 batch_ok (su_batches (pl_sub s)) (ordinary (pr_received (pl_pub s))) \<and>
    wp_accepted (pl_pool s) @ pending (pl_pool s) = concat (su_batches (pl_sub s)) \<and>
    mset (wp_accepted (pl_pool s)) = mset (ch_buf (wp_taskQueue (pl_pool s))) + carried (pl_pool s) +
      mset (wp_processed (pl_pool s)) + mset (wp_recovered (pl_pool s))"
  using pipeline_in_order [OF assms] preach_inv [OF pipeline_pub [OF assms]]
    wpreach_inv [OF pipeline_pool [OF assms] wp_inv_init]
  by (simp add: in_order_def pr_inv_def wp_inv_def accounted_tasks_def)

section \<open>Stopping and restarting\<close>

text \<open>\<open>Stop\<close> has waited for both goroutines of \<open>Run\<close>: the publisher closed its channel, and \<open>Subscribe\<close>
  returned after its \<open>Shutdown\<close>, for which all workers have returned.\<close>

definition stopped :: "('w, 'd) pipeline \<Rightarrow> bool" where
  "stopped s \<longleftrightarrow> \<not> someone_running (pl_pub s) \<and> ch_closed (pr_chan (pl_pub s)) \<and> pl_returned s \<and> all_returned (pl_pool s)"

lemma carries_returned: "\<forall>v \<in> set ws. v = WReturned \<Longrightarrow> sum_list (map carries ws) = {#}"
  by (induction ws) auto

text \<open>Once stopped no handler runs and no batch is half submitted: every task of every batch was processed,
  recovered from a panic, or left in the queue, and only the last are lost.\<close>

theorem stopped_accounts:
  assumes "plreach h (pipeline_start pub w d) s" and "stopped s"
  shows "mset (concat (su_batches (pl_sub s))) =
    mset (wp_processed (pl_pool s)) + mset (wp_recovered (pl_pool s)) + mset (ch_buf (wp_taskQueue (pl_pool s)))"
proof -
  have "carried (pl_pool s) = {#}"
    using assms(2) carries_returned by (auto simp: stopped_def all_returned_def carried_def)
  moreover have "pending (pl_pool s) = []"
    using assms pipeline_inv [OF assms(1)] by (auto simp: stopped_def pl_inv_def pending_def)
  moreover have "mset (wp_accepted (pl_pool s)) = accounted_tasks (pl_pool s)"
    using wpreach_inv [OF pipeline_pool [OF assms(1)] wp_inv_init] by (simp add: wp_inv_def)
  ultimately show ?thesis using pipeline_in_order [OF assms(1)]
    by (simp add: in_order_def accounted_tasks_def ac_simps)
qed

text \<open>
  What the query of \<open>Latest\<close> can answer: a failure, nothing, or the value of a stored field, as the
  client library reads it back.
\<close>

fun read_back :: "val \<Rightarrow> query_value" where
  "read_back (VU8 x) = QUint64 (ucast x)"
| "read_back (VU32 x) = QUint64 (ucast x)"
| "read_back (VU64 x) = QUint64 x"
| "read_back _ = QOther"

definition answers :: "point set \<Rightarrow> query_result \<Rightarrow> bool" where
  "answers ps r \<longleftrightarrow> (\<forall>v. r = Record v \<longrightarrow>
     (\<exists>p \<in> ps. \<exists>x. pt_Measurement p = ''block_stats'' \<and> field p ''best_block_number'' = Some x \<and> v = read_back x))"

text \<open>When the types of the stored fields are right, a restart that gets a record out of the database reads
  a block number from it: \<open>Latest\<close> never stumbles over the type of the value.\<close>

theorem restart_reads_number:
  assumes "\<forall>p \<in> ps. well_typed p" and "answers ps (Record v)"
  shows "\<exists>n. Latest (Record v) = Inr n"
proof -
  obtain p x where p: "p \<in> ps" "pt_Measurement p = ''block_stats''" "field p ''best_block_number'' = Some x" "v = read_back x"
    using assms(2) by (auto simp: answers_def)
  then have "(KStr ''best_block_number'', x) \<in> set (pt_Fields p)" by (auto simp: field_def dest: map_of_SomeD)
  then have "expected_type ''block_stats'' (KStr ''best_block_number'') = Some (type_of x)"
    using assms(1) p(1,2) by (force simp: well_typed_def typed_fields_def list_all_iff)
  then have "type_of x = TUint" by (simp add: table)
  then show ?thesis by (cases x) (simp_all add: p(4))
qed

section \<open>Instances\<close>

definition sample_handlers :: "(int, sample_store) handlers" where
  "sample_handlers = \<lparr>hd_interval = 10, hd_epochLength = 180, hd_client = sample_client, hd_iter = (\<lambda>m. m),
     hd_slots = sample_slot_env, hd_staker = sample_st, hd_authority = sample_authority_env, hd_timer = sample_timer,
     hd_feed = sample_feed, hd_database = sample_db\<rparr>"

text \<open>A run: an event is sent, received and turned into a batch, and its first task is run.\<close>

lemma sample_pipeline:
  "\<exists>s. plreach sample_handlers (pipeline_start sample_publisher 0 ([], [])) s \<and> pr_received (pl_pub s) = [side_event] \<and>
     wp_processed (pl_pool s) = [hd (tasks_of blocks_first (event_of side_event))] \<and> fst (wp_db (pl_pool s)) \<noteq> []"
proof -
  let ?h = sample_handlers
  let ?s0 = "pipeline_start sample_publisher 0 ([], []) :: (int, sample_store) pipeline"
  let ?p0 = "pl_pub ?s0" and ?w0 = "pl_pool ?s0"
  let ?task = "\<lparr>tk_EventType = ''blocks'', tk_Event = event_of side_event\<rparr>"
  obtain rest where batch: "tasks_of blocks_first (event_of side_event) = ?task # rest"
    by (simp add: tasks_of_def blocks_first_def)
  let ?c = "pr_chan ?p0"
  let ?p1 = "?p0\<lparr>pr_chan := ?c\<lparr>ch_buf := [side_event]\<rparr>, pr_sent := [side_event]\<rparr>"
  let ?s1 = "?s0\<lparr>pl_pub := ?p1\<rparr>"
  have "pstep ?p0 ?p1"
    using pstep.send [of ?p0 side_event]
    by (simp add: pipeline_start_def someone_running_def start_run_def chan_send_def can_send_def make_chan_def
        DefaultChannelBuffer_def)
  then have 1: "plstep ?h ?s0 ?s1" by (rule plstep.publish) simp
  let ?t = "(pl_sub ?s0)\<lparr>su_batches := [?task # rest], su_synced := update_synced (0 - unix_time (blk_Timestamp (be_Block side_event))) False\<rparr>"
  let ?p2 = "?p1\<lparr>pr_chan := ?c, pr_received := [side_event]\<rparr>"
  let ?w2 = "?w0\<lparr>wp_db := ([], []), wp_batch := Some (?task # rest)\<rparr>"
  let ?s2 = "?s1\<lparr>pl_pub := ?p2, pl_sub := ?t, pl_pool := ?w2\<rparr>"
  have nofork: "\<not> fk_Occurred (be_Fork side_event)" by (simp add: side_event_def block_event_def no_fork_def)
  have order: "iteration_of blocks_first" by (simp add: iteration_of_def blocks_first_def handler_names_def)
  have on: "on_event (hd_client ?h) (hd_database ?h) blocks_first 0 side_event ((pl_sub ?s1)\<lparr>su_db := wp_db (pl_pool ?s1)\<rparr>) = Some (Ok ?t)"
    using nofork by (simp add: on_event_def batch pipeline_start_def NewWorkerPool_def Let_def)
  have 2: "plstep ?h ?s1 ?s2"
    using plstep.receive [OF _ _ _ order on, of ?c] nofork
    by (simp add: pipeline_start_def NewWorkerPool_def Let_def start_run_def chan_recv_def make_chan_def batch_of_def)
  let ?q = "wp_taskQueue ?w0"
  let ?w3 = "?w2\<lparr>wp_taskQueue := ?q\<lparr>ch_buf := [?task]\<rparr>, wp_batch := Some rest, wp_accepted := [?task]\<rparr>"
  let ?w4 = "set_wworker 0 (WRunning ?task) (?w3\<lparr>wp_taskQueue := ?q\<rparr>)"
  obtain p where p: "blockstats_Write 10 (event_of side_event) = Ok [p]"
    by (simp add: blockstats_Write_def fee_fields_def side_event_def block_event_def plain_result_def event_of_def
        sample_blocks Let_def)
  let ?w5 = "set_wworker 0 WIdle (?w4\<lparr>wp_db := processTask sample_db (Ok [p]) (wp_db ?w4), wp_processed := [?task]\<rparr>)"
  have "wpwork sample_db (runs ?h) ?w2 ?w3"
    using wpwork.enqueue [of ?w2 ?task rest "?q\<lparr>ch_buf := [?task]\<rparr>"]
    by (simp add: pipeline_start_def NewWorkerPool_def Let_def chan_send_def can_send_def make_chan_def
        DefaultTaskQueueSize_def)
  then have 3: "plstep ?h ?s2 (?s2\<lparr>pl_pool := ?w3\<rparr>)" by (intro plstep.pool) (simp add: sample_handlers_def)
  have "wpwork sample_db (runs ?h) ?w3 ?w4"
    by (rule wpwork.take) (simp_all add: wworker_at_def pipeline_start_def NewWorkerPool_def Let_def chan_recv_def
      make_chan_def DefaultWorkerPoolSize_def)
  then have 4: "plstep ?h (?s2\<lparr>pl_pool := ?w3\<rparr>) (?s2\<lparr>pl_pool := ?w4\<rparr>)"
    using plstep.pool [of ?h "?s2\<lparr>pl_pool := ?w3\<rparr>" ?w4] by (simp add: sample_handlers_def)
  have "runs ?h ?task (Ok [p])" using p by (intro runs.blocks) (simp_all add: sample_handlers_def)
  then have "wpwork sample_db (runs ?h) ?w4 ?w5"
    using wpwork.handled [of ?w4 0 ?task "runs ?h" "[p]" sample_db]
    by (simp add: wworker_at_def pipeline_start_def NewWorkerPool_def Let_def DefaultWorkerPoolSize_def set_wworker_def)
  then have 5: "plstep ?h (?s2\<lparr>pl_pool := ?w4\<rparr>) (?s2\<lparr>pl_pool := ?w5\<rparr>)"
    using plstep.pool [of ?h "?s2\<lparr>pl_pool := ?w4\<rparr>" ?w5] by (simp add: sample_handlers_def)
  have "plreach ?h ?s0 (?s2\<lparr>pl_pool := ?w5\<rparr>)"
    using plreach.step [OF plreach.step [OF plreach.step [OF plreach.step [OF plreach.step [OF plreach.start 1] 2] 3] 4] 5] .
  moreover have "p \<in> set (fst (wp_db ?w5))" by (simp add: processTask_def)
  ultimately show ?thesis
    by (intro exI [of _ "?s2\<lparr>pl_pool := ?w5\<rparr>"]) (auto simp: batch)
qed

theorem pipeline_typed_witness:
  "\<exists>s :: (int, sample_store) pipeline. snd (wp_db (pl_pool s)) \<noteq> [] \<and> (\<forall>p \<in> set (snd (wp_db (pl_pool s))). well_typed p)"
proof -
  obtain s where s: "plreach sample_handlers (pipeline_start sample_publisher 0 ([], [])) s" "fst (wp_db (pl_pool s)) \<noteq> []"
    using sample_pipeline by blast
  have h: "hd_database sample_handlers = sample_db" by (simp add: sample_handlers_def)
  let ?t = "s\<lparr>pl_pool := (pl_pool s)\<lparr>wp_db := (fst (wp_db (pl_pool s)), fold arrive (fst (wp_db (pl_pool s))) (snd (wp_db (pl_pool s))))\<rparr>\<rparr>"
  have "plstep sample_handlers s ?t" by (rule plstep.background) (auto simp: h sample_db_def)
  with s(1) have t: "plreach sample_handlers (pipeline_start sample_publisher 0 ([], [])) ?t" by (rule plreach.step)
  have "arrive p ps \<noteq> []" for p ps by (simp add: arrive_def)
  then have "fold arrive batch ps \<noteq> []" if "batch \<noteq> []" for batch ps
    using that by (cases batch rule: rev_cases) simp_all
  with s(2) pipeline_typed [OF t] show ?thesis
    by (intro exI [of _ ?t]) (simp add: h sample_db_laws)
qed

theorem pipeline_delivers_witness:
  "\<exists>s :: (int, sample_store) pipeline. pr_received (pl_pub s) = [side_event] \<and>
     wp_processed (pl_pool s) = [hd (tasks_of blocks_first (event_of side_event))] \<and>
     list_all2 batch_ok (su_batches (pl_sub s)) [side_event]"
proof -
  obtain s where s: "plreach sample_handlers (pipeline_start sample_publisher 0 ([], [])) s" "pr_received (pl_pub s) = [side_event]"
    "wp_processed (pl_pool s) = [hd (tasks_of blocks_first (event_of side_event))]" using sample_pipeline by blast
  have "ordinary [side_event] = [side_event]" by (simp add: ordinary_def side_event_def block_event_def no_fork_def)
  with pipeline_delivers [OF s(1)] s(2,3) show ?thesis by (intro exI [of _ s]) simp
qed

end
