(* ===== verification/Program.thy ===== *)
theory Program
  imports Syncing Pipeline
begin

text \<open>
  The whole program after its start (\<^verbatim>\<open>Cmd.Run\<close> of \<^verbatim>\<open>cmd/thorflux/thorflux.go\<close>): the two syncers
  of Syncing feed the subscriber, the pool and the handlers of Pipeline. What is shown here reads
  from the blocks asked for down to the tasks that handled them.
\<close>

record ('w, 'c, 'd) program =
  pg_syncing :: "('w, 'c) syncing"
  pg_rest :: "('w, 'd) pipeline"

definition program_start :: "('w, 'c) publisher \<Rightarrow> 'w \<Rightarrow> 'd \<Rightarrow> ('w, 'c, 'd) program" where
  "program_start p w d = \<lparr>pg_syncing = syncing_start p, pg_rest = pipeline_start p w d\<rparr>"

text \<open>\<open>Subscribe\<close> returns when the channel is closed and drained, or the context is cancelled.\<close>

definition may_return :: "('w, 'c, 'd) program \<Rightarrow> bool" where
  "may_return s \<longleftrightarrow> chan_drained (pr_chan (pl_pub (pg_rest s))) \<or> bs_cancelled (sy_backward (pg_syncing s))"

text \<open>The publishing side moves without receiving, or the consuming side moves, receiving or not.\<close>

inductive pgstep ::
  "('w, 'c) fetcher \<Rightarrow> ('w, 'd) handlers \<Rightarrow> ('w, 'c, 'd) program \<Rightarrow> ('w, 'c, 'd) program \<Rightarrow> bool" for b h where
  publish: "\<lbrakk>systep b (pg_syncing s) y; pr_received (sy_run y) = pr_received (sy_run (pg_syncing s))\<rbrakk>
    \<Longrightarrow> pgstep b h s (s\<lparr>pg_syncing := y, pg_rest := (pg_rest s)\<lparr>pl_pub := sy_run y\<rparr>\<rparr>)"
| consume: "\<lbrakk>sy_alive (pg_syncing s); plstep h (pg_rest s) r;
      pl_pub r = pl_pub (pg_rest s) \<or> pr_received (pl_pub r) \<noteq> pr_received (pl_pub (pg_rest s));
      pl_returned r \<longrightarrow> pl_returned (pg_rest s) \<or> may_return s\<rbrakk>
    \<Longrightarrow> pgstep b h s (s\<lparr>pg_syncing := (pg_syncing s)\<lparr>sy_run := pl_pub r\<rparr>, pg_rest := r\<rparr>)"

inductive pgreach ::
  "('w, 'c) fetcher \<Rightarrow> ('w, 'd) handlers \<Rightarrow> ('w, 'c, 'd) program \<Rightarrow> ('w, 'c, 'd) program \<Rightarrow> bool" for b h s0 where
  start: "pgreach b h s0 s0"
| step: "pgreach b h s0 s \<Longrightarrow> pgstep b h s t \<Longrightarrow> pgreach b h s0 t"

section \<open>The parts of a run\<close>

lemma drained_pstep: "pstep r r' \<Longrightarrow> chan_drained (pr_chan r) \<Longrightarrow> chan_drained (pr_chan r')"
  by (induction rule: pstep.induct)
    (auto simp: chan_drained_def dest: chan_send_closed chan.recv_contents)

lemma cancelled_bstep: "bstep may s t \<Longrightarrow> bs_cancelled s \<Longrightarrow> bs_cancelled t"
  by (induction rule: bstep.induct) (auto simp: set_worker_def)

lemma cancelled_systep: "systep b s t \<Longrightarrow> bs_cancelled (sy_backward s) \<Longrightarrow> bs_cancelled (sy_backward t)"
  by (induction rule: systep.induct) (auto intro: cancelled_bstep)

text \<open>The halves share the channel, each is a run of its own theory, and the subscriber has returned only with reason.\<close>

definition pg_inv ::
  "('w, 'c) fetcher \<Rightarrow> ('w, 'd) handlers \<Rightarrow> ('w, 'c) publisher \<Rightarrow> 'w \<Rightarrow> 'd \<Rightarrow> ('w, 'c, 'd) program \<Rightarrow> bool" where
  "pg_inv b h p w d s \<longleftrightarrow>
     pl_pub (pg_rest s) = sy_run (pg_syncing s) \<and> syreach b p (pg_syncing s) \<and>
     plreach h (pipeline_start p w d) (pg_rest s) \<and> (pl_returned (pg_rest s) \<longrightarrow> may_return s)"

lemma consume_systep:
  assumes "plstep h q r" and "pl_pub q = sy_run s" and "sy_alive s"
    and "pl_pub r = pl_pub q \<or> pr_received (pl_pub r) \<noteq> pr_received (pl_pub q)"
  shows "s\<lparr>sy_run := pl_pub r\<rparr> = s \<or> systep b s (s\<lparr>sy_run := pl_pub r\<rparr>)"
  using assms
proof (induction rule: plstep.induct)
  case (receive q e c order now t)
  then show ?case using systep.receive [OF receive.prems(2), of e c b] by simp
qed auto

lemma pg_inv_step:
  assumes "pgstep b h s t" and "fresh_publisher p" and "pg_inv b h p w d s"
  shows "pg_inv b h p w d t"
  using assms
proof (induction rule: pgstep.induct)
  case (publish s y)
  have s: "pl_pub (pg_rest s) = sy_run (pg_syncing s)" "syreach b p (pg_syncing s)"
    "plreach h (pipeline_start p w d) (pg_rest s)" "pl_returned (pg_rest s) \<longrightarrow> may_return s"
    using publish.prems by (simp_all add: pg_inv_def)
  have run: "sy_run y = sy_run (pg_syncing s) \<or> pstep (sy_run (pg_syncing s)) (sy_run y)"
    using systep_run [OF publish(1) syreach_inv [OF s(2) assms(2)]] .
  have "plreach h (pipeline_start p w d) ((pg_rest s)\<lparr>pl_pub := sy_run y\<rparr>)"
  proof (cases "sy_run y = pl_pub (pg_rest s)")
    case False
    then have "plstep h (pg_rest s) ((pg_rest s)\<lparr>pl_pub := sy_run y\<rparr>)"
      using run s(1) publish(2) by (intro plstep.publish) auto
    with s(3) show ?thesis by (rule plreach.step)
  qed (use s(3) in simp)
  moreover have "syreach b p y" using s(2) publish(1) by (rule syreach.step)
  ultimately show ?case
    using s run cancelled_systep [OF publish(1)] by (auto simp: pg_inv_def may_return_def dest: drained_pstep)
next
  case (consume s r)
  have s: "pl_pub (pg_rest s) = sy_run (pg_syncing s)" "syreach b p (pg_syncing s)"
    "plreach h (pipeline_start p w d) (pg_rest s)" "pl_returned (pg_rest s) \<longrightarrow> may_return s"
    using consume.prems by (simp_all add: pg_inv_def)
  let ?y = "(pg_syncing s)\<lparr>sy_run := pl_pub r\<rparr>"
  have "?y = pg_syncing s \<or> systep b (pg_syncing s) ?y" using consume(2) s(1) consume(1,3) by (rule consume_systep)
  then have "syreach b p ?y" using s(2) by (auto intro: syreach.step)
  moreover have "plreach h (pipeline_start p w d) r" using s(3) consume(2) by (rule plreach.step)
  moreover have "chan_drained (pr_chan (pl_pub (pg_rest s))) \<Longrightarrow> chan_drained (pr_chan (pl_pub r))"
    using pl_pub_step [OF consume(2)] by (auto dest: drained_pstep)
  ultimately show ?case using s consume(4) by (auto simp: pg_inv_def may_return_def)
qed

lemma program_inv:
  assumes "pgreach b h (program_start p w d) s" and "fresh_publisher p"
  shows "pg_inv b h p w d s"
  using assms
proof (induction rule: pgreach.induct)
  case start
  show ?case
    by (auto simp: pg_inv_def program_start_def pipeline_start_def syncing_start_def
        intro: syreach.start [unfolded syncing_start_def] plreach.start [unfolded pipeline_start_def])
qed (blast intro: pg_inv_step)

section \<open>From blocks to tasks\<close>

definition batch_number :: "Task list \<Rightarrow> u32" where
  "batch_number ts = blk_Number (e_Block (tk_Event (hd ts)))"

lemma batch_ok_number: "batch_ok ts e \<Longrightarrow> batch_number ts = blk_Number (be_Block e)"
proof -
  assume ok: "batch_ok ts e"
  then have "ts \<noteq> []" by (auto simp: batch_ok_def handler_names_def)
  then have "tk_Event (hd ts) \<in> set (map tk_Event ts)" by simp
  then have "tk_Event (hd ts) = event_of e" using ok by (simp add: batch_ok_def)
  then show ?thesis by (simp add: batch_number_def event_of_def)
qed

lemma batch_numbers:
  "list_all2 batch_ok tss es \<Longrightarrow> map batch_number tss = map (\<lambda>e. blk_Number (be_Block e)) es"
  by (induction rule: list_all2_induct) (auto dest: batch_ok_number)

lemma batch_handlers:
  "list_all2 batch_ok tss es \<Longrightarrow> ts \<in> set tss \<Longrightarrow> mset (map tk_EventType ts) = mset handler_names"
  by (induction rule: list_all2_induct) (auto simp: batch_ok_def)

lemma wpwork_cap: "wpwork db run s t \<Longrightarrow> ch_cap (wp_taskQueue t) = ch_cap (wp_taskQueue s)"
  by (induction rule: wpwork.induct) (auto dest: chan.send_bound chan.recv_bound)

lemma wpreach_cap: "wpreach q db run s0 s \<Longrightarrow> ch_cap (wp_taskQueue s) = ch_cap (wp_taskQueue s0)"
proof (induction rule: wpreach.induct)
  case (step s t)
  from step(2) have "ch_cap (wp_taskQueue t) = ch_cap (wp_taskQueue s)" by cases (auto dest: wpwork_cap)
  with step show ?case by simp
qed simp

section \<open>Property\<close>

text \<open>C1: The program with an end block, from the blocks asked for to the work done on them: once it has stopped
  and nobody cancelled it, every block of the range was made into exactly one batch with one task for
  each handler, or its failure was logged; and every task was processed, recovered from a panic, or is one of at
  most a hundred that the shutdown left in the queue.\<close>

theorem program_indexes:
  assumes "NewPublisher cl g backSyncBlocks endBlock latest c w0 = (Ok p, w1)" and "node_numbers cl" and "endBlock \<noteq> 0"
    and "pgreach b h (program_start p w d) s" and "stopped (pg_rest s)" and "\<not> bs_cancelled (sy_backward (pg_syncing s))"
  defines "batches \<equiv> su_batches (pl_sub (pg_rest s))" and "pool \<equiv> pl_pool (pg_rest s)"
  shows "mset (map batch_number batches) + mset (bs_failed (sy_backward (pg_syncing s))) =
      span (bs_minBlock (pb_backward p)) endBlock \<and>
    (\<forall>ts \<in> set batches. mset (map tk_EventType ts) = mset handler_names) \<and>
    mset (concat batches) = mset (wp_processed pool) + mset (wp_recovered pool) + mset (ch_buf (wp_taskQueue pool)) \<and>
    length (ch_buf (wp_taskQueue pool)) \<le> 100"
proof -
  obtain head n where p: "fresh_publisher p" "pb_backward p = NewBackwardSyncer head n" "head = endBlock" "pb_forward p = None"
    using NewPublisher_parts [OF assms(1,2)] assms(3) by metis
  let ?y = "pg_syncing s"
  have inv: "pl_pub (pg_rest s) = sy_run ?y" "syreach b p ?y" "plreach h (pipeline_start p w d) (pg_rest s)"
    "pl_returned (pg_rest s) \<longrightarrow> may_return s"
    using program_inv [OF assms(4) p(1)] by (simp_all add: pg_inv_def)
  have drained: "chan_drained (pr_chan (sy_run ?y))" using inv(1,4) assms(5,6) by (simp add: stopped_def may_return_def)
  then have received: "pr_received (sy_run ?y) = pr_sent (sy_run ?y)" and closed: "ch_closed (pr_chan (sy_run ?y))"
    using syncing_channel(2) [OF inv(2) p(1)] by (simp_all add: chan_drained_def)
  have "\<forall>e \<in> set (pr_sent (sy_run ?y)). \<not> fk_Occurred (be_Fork e)"
    unfolding bounded_run_log [OF inv(2) p(1,4)] by (rule sent_numbers(2) [OF syncing_backward [OF inv(2) p(1,2)]])
  then have "ordinary (pr_received (pl_pub (pg_rest s))) = pr_sent (sy_run ?y)"
    unfolding ordinary_def inv(1) received by simp
  then have ok: "list_all2 batch_ok batches (pr_sent (sy_run ?y))"
    using pipeline_in_order [OF inv(3)] by (simp add: in_order_def batches_def)
  have "length (ch_buf (wp_taskQueue pool)) \<le> 100"
    using wpreach_inv [OF pipeline_pool [OF inv(3)] wp_inv_init] wpreach_cap [OF pipeline_pool [OF inv(3)]]
    by (simp add: wp_inv_def NewWorkerPool_def make_chan_def DefaultTaskQueueSize_def pool_def)
  then show ?thesis
    using bounded_run_numbers [OF inv(2) p(1,4,2) closed assms(6)] batch_handlers [OF ok]
      stopped_accounts [OF inv(3) assms(5)]
    unfolding batch_numbers [OF ok] p(2,3) new_backward batches_def [symmetric] pool_def [symmetric] by blast
qed

section \<open>Instances\<close>

text \<open>Runs of one half are runs of the program while the other waits.\<close>

lemma systep_received: "systep b s t \<Longrightarrow> \<exists>es. pr_received (sy_run t) = pr_received (sy_run s) @ es"
  by (induction rule: systep.induct) (auto dest: emit_flags)

lemma publishing_lifts:
  assumes "syreach b p y" and "pr_received (sy_run y) = []"
  shows "pgreach b h (program_start p w d)
    \<lparr>pg_syncing = y, pg_rest = (pipeline_start p w d)\<lparr>pl_pub := sy_run y\<rparr>\<rparr>"
  using assms
proof (induction rule: syreach.induct)
  case start
  have "program_start p w d = \<lparr>pg_syncing = syncing_start p,
      pg_rest = (pipeline_start p w d)\<lparr>pl_pub := sy_run (syncing_start p)\<rparr>\<rparr>"
    by (simp add: program_start_def pipeline_start_def syncing_start_def)
  then show ?case by (metis pgreach.start)
next
  case (step s t)
  have none: "pr_received (sy_run s) = []" using systep_received [OF step(2)] step.prems by auto
  let ?s = "\<lparr>pg_syncing = s, pg_rest = (pipeline_start p w d)\<lparr>pl_pub := sy_run s\<rparr>\<rparr>"
  from step.IH [OF none] have reach: "pgreach b h (program_start p w d) ?s" .
  have "pgstep b h ?s (?s\<lparr>pg_syncing := t, pg_rest := (pg_rest ?s)\<lparr>pl_pub := sy_run t\<rparr>\<rparr>)"
    using step(2) step.prems none by (intro pgstep.publish) simp_all
  then show ?case using pgreach.step [OF reach] by simp
qed

lemma pool_run_lifts:
  assumes "(wpwork (hd_database h) (runs h))\<^sup>*\<^sup>* (pl_pool q) t" and "pgreach b h s0 \<lparr>pg_syncing = y, pg_rest = q\<rparr>"
    and "sy_alive y" and "pl_pub q = sy_run y"
  shows "pgreach b h s0 \<lparr>pg_syncing = y, pg_rest = q\<lparr>pl_pool := t\<rparr>\<rparr>"
  using assms(1)
proof (induction rule: rtranclp_induct)
  case base
  then show ?case using assms(2) by simp
next
  case (step t u)
  let ?s = "\<lparr>pg_syncing = y, pg_rest = q\<lparr>pl_pool := t\<rparr>\<rparr>"
  have "plstep h (pg_rest ?s) (q\<lparr>pl_pool := u\<rparr>)"
    using plstep.pool [of h "q\<lparr>pl_pool := t\<rparr>" u] step(2) by simp
  then have "pgstep b h ?s (?s\<lparr>pg_syncing := y\<lparr>sy_run := pl_pub (q\<lparr>pl_pool := u\<rparr>)\<rparr>, pg_rest := q\<lparr>pl_pool := u\<rparr>\<rparr>)"
    using pgstep.consume [of ?s h "q\<lparr>pl_pool := u\<rparr>" b] assms(3) by simp
  then show ?case using pgreach.step [OF step.IH] assms(4) by simp
qed

text \<open>A batch that fits the queue can be submitted at once, and cancelled workers can all return.\<close>

lemma submit_all:
  assumes "wp_batch s = Some ts" and "\<not> ch_closed (wp_taskQueue s)"
    and "length (ch_buf (wp_taskQueue s)) + length ts \<le> ch_cap (wp_taskQueue s)"
  shows "(wpwork db run)\<^sup>*\<^sup>* s (s\<lparr>wp_taskQueue := (wp_taskQueue s)\<lparr>ch_buf := ch_buf (wp_taskQueue s) @ ts\<rparr>,
    wp_batch := None, wp_accepted := wp_accepted s @ ts\<rparr>)"
  using assms
proof (induction ts arbitrary: s)
  case Nil
  then have "wpwork db run s (s\<lparr>wp_batch := None\<rparr>)" by (intro wpwork.submitted)
  then show ?case by simp
next
  case (Cons t ts)
  let ?s = "s\<lparr>wp_taskQueue := (wp_taskQueue s)\<lparr>ch_buf := ch_buf (wp_taskQueue s) @ [t]\<rparr>, wp_batch := Some ts,
    wp_accepted := wp_accepted s @ [t]\<rparr>"
  have "wpwork db run s ?s"
    using Cons.prems by (intro wpwork.enqueue) (simp_all add: chan_send_def can_send_def)
  moreover have "(wpwork db run)\<^sup>*\<^sup>* ?s (?s\<lparr>wp_taskQueue := (wp_taskQueue ?s)\<lparr>ch_buf := ch_buf (wp_taskQueue ?s) @ ts\<rparr>,
      wp_batch := None, wp_accepted := wp_accepted ?s @ ts\<rparr>)"
    by (rule Cons.IH) (use Cons.prems in simp_all)
  ultimately show ?case by (simp add: converse_rtranclp_into_rtranclp)
qed

lemma quit_all:
  assumes "wp_cancelled s" and "wp_workers s = replicate k WReturned @ replicate m WIdle"
  shows "(wpwork db run)\<^sup>*\<^sup>* s (s\<lparr>wp_workers := replicate (k + m) WReturned\<rparr>)"
  using assms
proof (induction m arbitrary: k s)
  case 0
  then have "s\<lparr>wp_workers := replicate k WReturned\<rparr> = s" by (cases s) simp
  then show ?case by simp
next
  case (Suc m)
  let ?s = "set_wworker k WReturned s"
  have "wpwork db run s ?s"
    using Suc.prems by (intro wpwork.quit) (simp_all add: wworker_at_def nth_append)
  moreover have "wp_workers ?s = replicate (Suc k) WReturned @ replicate m WIdle"
    using Suc.prems(2) by (simp add: list_update_append replicate_app_Cons_same)
  then have "(wpwork db run)\<^sup>*\<^sup>* ?s (?s\<lparr>wp_workers := replicate (Suc k + m) WReturned\<rparr>)"
    by (intro Suc.IH) (use Suc.prems in simp_all)
  moreover have "?s\<lparr>wp_workers := ws\<rparr> = s\<lparr>wp_workers := ws\<rparr>" for ws by (simp add: set_wworker_def)
  ultimately show ?case by (simp add: converse_rtranclp_into_rtranclp)
qed

text \<open>One block is asked for: its event becomes a batch of eight tasks, of which the first is run and the others are
  left in the queue by the shutdown.\<close>

definition blocks_task :: "BlockEvent \<Rightarrow> Task" where
  "blocks_task e = \<lparr>tk_EventType = ''blocks'', tk_Event = event_of e\<rparr>"

text \<open>The publishing side asks for block n alone, and its event has block statistics.\<close>

definition one_block :: "('w, 'c) fetcher \<Rightarrow> ('w, 'c) publisher \<Rightarrow> u32 \<Rightarrow> BlockEvent \<Rightarrow> bool" where
  "one_block b p n e \<longleftrightarrow> service_may b n (Ok e) \<and> 0 < n \<and> pb_backward p = NewBackwardSyncer n 1 \<and> pb_forward p = None \<and>
     \<not> fk_Occurred (be_Fork e) \<and> (\<exists>q. blockstats_Write 10 (event_of e) = Ok [q])"

text \<open>The pool after the batch was submitted and its first task run.\<close>

definition worked_pool :: "BlockEvent \<Rightarrow> sample_store \<Rightarrow> (Task, sample_store) pool" where
  "worked_pool e d =
     \<lparr>wp_taskQueue = \<lparr>ch_cap = 100, ch_buf = tl (tasks_of blocks_first (event_of e)), ch_closed = False\<rparr>,
      wp_workers = replicate 10 WIdle, wp_cancelled = False, wp_isShutdown = False,
      wp_db = processTask sample_db (blockstats_Write 10 (event_of e)) d, wp_batch = None,
      wp_accepted = tasks_of blocks_first (event_of e), wp_processed = [blocks_task e], wp_recovered = [],
      wp_refused = 0, wp_panicked = False\<rparr>"

lemma one_block_work:
  assumes "one_block b p n e"
  shows "(wpwork sample_db (runs sample_handlers))\<^sup>*\<^sup>*
     ((NewWorkerPool 10 100 d)\<lparr>wp_batch := Some (tasks_of blocks_first (event_of e))\<rparr>) (worked_pool e d)"
proof -
  let ?ts = "tasks_of blocks_first (event_of e)" and ?run = "runs sample_handlers"
  let ?pool = "(NewWorkerPool 10 100 d)\<lparr>wp_batch := Some ?ts\<rparr>"
  let ?pool3 = "?pool\<lparr>wp_taskQueue := \<lparr>ch_cap = 100, ch_buf = ?ts, ch_closed = False\<rparr>, wp_batch := None, wp_accepted := ?ts\<rparr>"
  have "length ?ts = 8" by (simp add: tasks_of_def blocks_first_def handler_names_def)
  then have submit: "(wpwork sample_db ?run)\<^sup>*\<^sup>* ?pool ?pool3"
    using submit_all [of ?pool ?ts sample_db ?run] by (simp add: NewWorkerPool_def make_chan_def)
  obtain rest where ts: "?ts = blocks_task e # rest" by (simp add: tasks_of_def blocks_first_def blocks_task_def)
  obtain q where stats: "blockstats_Write 10 (event_of e) = Ok [q]" using assms by (auto simp: one_block_def)
  let ?busy = "set_wworker 0 (WRunning (blocks_task e)) (?pool3\<lparr>wp_taskQueue := \<lparr>ch_cap = 100, ch_buf = rest, ch_closed = False\<rparr>\<rparr>)"
  let ?done = "set_wworker 0 WIdle (?busy\<lparr>wp_db := processTask sample_db (Ok [q]) (wp_db ?busy), wp_processed := [blocks_task e]\<rparr>)"
  have "wpwork sample_db ?run ?pool3 ?busy"
    by (rule wpwork.take) (simp_all add: wworker_at_def NewWorkerPool_def chan_recv_def ts)
  moreover have "?run (blocks_task e) (Ok [q])"
    using stats by (intro runs.blocks) (simp_all add: sample_handlers_def blocks_task_def)
  then have "wpwork sample_db ?run ?busy ?done"
    using wpwork.handled [of ?busy 0 "blocks_task e" ?run "[q]" sample_db]
    by (simp add: wworker_at_def NewWorkerPool_def set_wworker_def)
  moreover have "?done = (worked_pool e d)"
    by (simp add: worked_pool_def set_wworker_def NewWorkerPool_def stats ts list_update_same_conv)
  ultimately show ?thesis using submit by (simp add: rtranclp.rtrancl_into_rtrancl)
qed

text \<open>The consuming side once the event was received, with its pool and whether \<open>Subscribe\<close> has returned.\<close>

definition drained_run :: "BlockEvent \<Rightarrow> prun" where
  "drained_run e = (closed_run e)\<lparr>pr_chan := (pr_chan (closed_run e))\<lparr>ch_buf := []\<rparr>, pr_received := [e]\<rparr>"

definition received_pipeline :: "BlockEvent \<Rightarrow> sample_store \<Rightarrow> (Task, sample_store) pool \<Rightarrow> bool \<Rightarrow> (int, sample_store) pipeline" where
  "received_pipeline e d pool returned = \<lparr>pl_pub = drained_run e,
     pl_sub = \<lparr>su_synced = update_synced (0 - unix_time (blk_Timestamp (be_Block e))) False, su_world = 0,
       su_db = d, su_batches = [tasks_of blocks_first (event_of e)]\<rparr>,
     pl_pool = pool, pl_returned = returned\<rparr>"

lemma received_pipeline_simps [simp]:
  "pl_pub (received_pipeline e d pool returned) = drained_run e" "pl_pool (received_pipeline e d pool returned) = pool"
  "pl_returned (received_pipeline e d pool returned) = returned"
  "su_batches (pl_sub (received_pipeline e d pool returned)) = [tasks_of blocks_first (event_of e)]"
  "(received_pipeline e d pool returned)\<lparr>pl_pool := q\<rparr> = received_pipeline e d q returned"
  "(received_pipeline e d pool returned)\<lparr>pl_returned := r\<rparr> = received_pipeline e d pool r"
  by (simp_all add: received_pipeline_def)

lemma one_block_received:
  fixes b :: "(int, 'c) fetcher"
  assumes "one_block b p n e"
  shows "\<exists>y. pgreach b sample_handlers (program_start p 0 d)
       \<lparr>pg_syncing = y, pg_rest = received_pipeline e d ((NewWorkerPool 10 100 d)\<lparr>wp_batch := Some (tasks_of blocks_first (event_of e))\<rparr>) False\<rparr> \<and>
     sy_alive y \<and> sy_run y = drained_run e \<and> \<not> bs_cancelled (sy_backward y) \<and> bs_failed (sy_backward y) = []"
proof -
  let ?h = sample_handlers and ?ts = "tasks_of blocks_first (event_of e)"
  let ?q0 = "pipeline_start p 0 d :: (int, sample_store) pipeline"
  obtain y where y: "syreach b p y" "sy_alive y" "\<not> bs_cancelled (sy_backward y)"
    "bs_failed (sy_backward y) = []" "sy_run y = closed_run e"
    using one_block_sends [of b n e p] assms by (auto simp: one_block_def)
  let ?q1 = "?q0\<lparr>pl_pub := closed_run e\<rparr>"
  have "pr_received (sy_run y) = []" unfolding y(5) by (simp add: closed_run_def)
  from publishing_lifts [OF y(1) this, of ?h 0 d]
  have 1: "pgreach b ?h (program_start p 0 d) \<lparr>pg_syncing = y, pg_rest = ?q1\<rparr>" unfolding y(5) .
  let ?sub = "(pl_sub ?q0)\<lparr>su_batches := [?ts], su_synced := update_synced (0 - unix_time (blk_Timestamp (be_Block e))) False\<rparr>"
  let ?q2 = "received_pipeline e d ((NewWorkerPool 10 100 d)\<lparr>wp_batch := Some ?ts\<rparr>) False"
  have nofork: "\<not> fk_Occurred (be_Fork e)" using assms by (simp add: one_block_def)
  have order: "iteration_of blocks_first" by (simp add: iteration_of_def blocks_first_def handler_names_def)
  have on: "on_event (hd_client ?h) (hd_database ?h) blocks_first 0 e ((pl_sub ?q1)\<lparr>su_db := wp_db (pl_pool ?q1)\<rparr>)
      = Some (Ok ?sub)"
    using nofork by (simp add: on_event_def pipeline_start_def NewWorkerPool_def Let_def)
  have recv: "chan_recv (pr_chan (closed_run e)) = Some (e, pr_chan (drained_run e))"
    by (simp add: chan_recv_def closed_run_def drained_run_def)
  have "plstep ?h ?q1 ?q2"
    using plstep.receive [of ?q1 e "pr_chan (drained_run e)" blocks_first ?h 0 ?sub] recv order on nofork
    by (simp add: pipeline_start_def NewWorkerPool_def Let_def batch_of_def closed_run_def drained_run_def received_pipeline_def
        DefaultWorkerPoolSize_def DefaultTaskQueueSize_def)
  then have "pgstep b ?h \<lparr>pg_syncing = y, pg_rest = ?q1\<rparr> \<lparr>pg_syncing = y\<lparr>sy_run := drained_run e\<rparr>, pg_rest = ?q2\<rparr>"
    using pgstep.consume [of "\<lparr>pg_syncing = y, pg_rest = ?q1\<rparr>" ?h ?q2 b] y(2)
    by (simp add: closed_run_def drained_run_def)
  with 1 have "pgreach b ?h (program_start p 0 d) \<lparr>pg_syncing = y\<lparr>sy_run := drained_run e\<rparr>, pg_rest = ?q2\<rparr>"
    by (rule pgreach.step)
  then show ?thesis using y(2-4) by (intro exI [of _ "y\<lparr>sy_run := drained_run e\<rparr>"]) (simp add: sy_alive_def)
qed

lemma one_block_program:
  fixes b :: "(int, 'c) fetcher"
  assumes "one_block b p n e"
  shows "\<exists>s. pgreach b sample_handlers (program_start p 0 d) s \<and> stopped (pg_rest s) \<and>
     \<not> bs_cancelled (sy_backward (pg_syncing s)) \<and> bs_failed (sy_backward (pg_syncing s)) = [] \<and>
     su_batches (pl_sub (pg_rest s)) = [tasks_of blocks_first (event_of e)] \<and>
     pr_received (pl_pub (pg_rest s)) = [e] \<and> wp_processed (pl_pool (pg_rest s)) = [blocks_task e] \<and>
     wp_recovered (pl_pool (pg_rest s)) = [] \<and>
     ch_buf (wp_taskQueue (pl_pool (pg_rest s))) = tl (tasks_of blocks_first (event_of e)) \<and>
     wp_db (pl_pool (pg_rest s)) = processTask sample_db (blockstats_Write 10 (event_of e)) d"
proof -
  let ?h = sample_handlers and ?q = "received_pipeline e d"
  let ?s0 = "program_start p 0 d :: (int, 'c, sample_store) program"
  obtain y where y: "pgreach b ?h ?s0 \<lparr>pg_syncing = y, pg_rest =
        ?q ((NewWorkerPool 10 100 d)\<lparr>wp_batch := Some (tasks_of blocks_first (event_of e))\<rparr>) False\<rparr>"
    "sy_alive y" "sy_run y = drained_run e" "\<not> bs_cancelled (sy_backward y)" "bs_failed (sy_backward y) = []"
    using one_block_received [OF assms, of d] by blast
  have db: "hd_database ?h = sample_db" by (simp add: sample_handlers_def)
  have same: "y\<lparr>sy_run := drained_run e\<rparr> = y" using y(3) by simp
  have drained: "chan_drained (pr_chan (drained_run e))" by (simp add: chan_drained_def closed_run_def drained_run_def)
  from pool_run_lifts [OF _ y(1,2)] one_block_work [OF assms, of d]
  have 1: "pgreach b ?h ?s0 \<lparr>pg_syncing = y, pg_rest = ?q (worked_pool e d) False\<rparr>" by (simp add: db y(3))
  have "plstep ?h (?q (worked_pool e d) False) (?q (worked_pool e d) True)"
    using plstep.return [of "?q (worked_pool e d) False" ?h] by (simp add: worked_pool_def)
  then have 2: "pgreach b ?h ?s0 \<lparr>pg_syncing = y, pg_rest = ?q (worked_pool e d) True\<rparr>"
    using pgstep.consume [of "\<lparr>pg_syncing = y, pg_rest = ?q (worked_pool e d) False\<rparr>" ?h "?q (worked_pool e d) True" b] y(2) pgreach.step [OF 1]
    by (simp add: may_return_def drained same)
  let ?cancelled = "(worked_pool e d)\<lparr>wp_cancelled := True\<rparr>"
  have "plstep ?h (?q (worked_pool e d) True) (?q ?cancelled True)"
    using plstep.shutdown [of "?q (worked_pool e d) True" ?h] by (simp add: worked_pool_def)
  then have 3: "pgreach b ?h ?s0 \<lparr>pg_syncing = y, pg_rest = ?q ?cancelled True\<rparr>"
    using pgstep.consume [of "\<lparr>pg_syncing = y, pg_rest = ?q (worked_pool e d) True\<rparr>" ?h "?q ?cancelled True" b] y(2) pgreach.step [OF 2]
    by (simp add: same)
  let ?closed = "?cancelled\<lparr>wp_taskQueue := chan_close (wp_taskQueue (worked_pool e d)), wp_isShutdown := True\<rparr>"
  let ?ended = "?closed\<lparr>wp_workers := replicate (0 + 10) WReturned\<rparr>"
  have "wpwork (hd_database ?h) (runs ?h) ?cancelled ?closed" using wpwork.close [of ?cancelled] by (simp add: worked_pool_def)
  moreover have "(wpwork (hd_database ?h) (runs ?h))\<^sup>*\<^sup>* ?closed ?ended" by (rule quit_all) (simp_all add: worked_pool_def)
  ultimately have "(wpwork (hd_database ?h) (runs ?h))\<^sup>*\<^sup>* (pl_pool (?q ?cancelled True)) ?ended"
    by (simp add: converse_rtranclp_into_rtranclp)
  from pool_run_lifts [OF this 3 y(2)] have "pgreach b ?h ?s0 \<lparr>pg_syncing = y, pg_rest = ?q ?ended True\<rparr>" by (simp add: y(3))
  then show ?thesis using y(4,5)
    by (intro exI [of _ "\<lparr>pg_syncing = y, pg_rest = ?q ?ended True\<rparr>"])
      (simp add: stopped_def someone_running_def drained_run_def closed_run_def all_returned_def worked_pool_def chan_close_def)
qed

lemma sample_stats:
  obtains p where "blockstats_Write 10 (event_of sample_event) = Ok [p]" and "pt_Measurement p = ''block_stats''"
    and "field p ''best_block_number'' = Some (VU32 1)"
  by (rule that)
    (simp add: blockstats_Write_def fee_fields_def sample_event_def block_event_def sample_result_def event_of_def
      sample_blocks Let_def, simp_all add: field_def)

lemma sample_one_block: "one_block (sample_fetcher 100 0) bounded_publisher 1 sample_event"
proof -
  obtain q where "blockstats_Write 10 (event_of sample_event) = Ok [q]" using sample_stats by metis
  moreover have "\<not> fk_Occurred (be_Fork sample_event)" by (simp add: sample_event_def block_event_def no_fork_def)
  ultimately show ?thesis using sample_may by (simp add: one_block_def bounded_publisher_def)
qed

lemmas sample_program = one_block_program [OF sample_one_block, where d = "([], [])"]

theorem program_indexes_witness:
  "\<exists>s :: (int, (u32 \<times> FetchResult) list, sample_store) program.
     su_batches (pl_sub (pg_rest s)) = [tasks_of blocks_first (event_of sample_event)] \<and>
     {#batch_number (tasks_of blocks_first (event_of sample_event))#} = span (backward_minBlock 1 1) 1"
proof -
  obtain s where s: "pgreach (sample_fetcher 100 0) sample_handlers (program_start bounded_publisher 0 ([], [])) s"
    "stopped (pg_rest s)" "\<not> bs_cancelled (sy_backward (pg_syncing s))" "bs_failed (sy_backward (pg_syncing s)) = []"
    "su_batches (pl_sub (pg_rest s)) = [tasks_of blocks_first (event_of sample_event)]"
    using sample_program by blast
  from program_indexes [OF bounded_NewPublisher sample_node_numbers _ s(1,2,3)] s(4,5) show ?thesis
    by (intro exI [of _ s]) (simp add: bounded_publisher_def new_backward)
qed

end
