(* ===== verification/Lifecycle.thy ===== *)
theory Lifecycle
  imports Program
begin

text \<open>
  The end of the program: every task that a worker takes up comes to a result, and a program that was
  given an end block or was cancelled stops, except in the one situation in which the forward syncer
  waits to report a fork that nobody will receive.
\<close>

section \<open>Every handler answers\<close>

text \<open>A handler has no error to return: what it meets it logs.\<close>

definition no_error :: "'a outcome \<Rightarrow> bool" where
  "no_error r \<longleftrightarrow> (\<forall>e. r \<noteq> Err e)"

named_theorems no_error

lemma no_error_simps [simp]: "no_error (Ok x)" "no_error (Panic p)" "\<not> no_error (Err e)"
  by (simp_all add: no_error_def)

lemma no_error_bind [no_error]: "no_error m \<Longrightarrow> (\<And>x. no_error (f x)) \<Longrightarrow> no_error (bind_outcome m f)"
  by (cases m) simp_all

lemma no_error_simple [no_error]: "no_error (nth_or_panic xs i)" "no_error (big_arg x)" "no_error (or_nothing r)"
  by (auto simp: nth_or_panic_def big_arg_def or_nothing_def split: option.split outcome.split)

lemma no_error_total_tip [no_error]: "no_error (total_tip txs)"
proof -
  let ?add = "\<lambda>acc t. bind_outcome acc (\<lambda>tip. case tx_Reward t of None \<Rightarrow> Panic NilDereference | Some r \<Rightarrow> Ok (tip + r))"
  have keeps: "no_error (?add acc t)" if "no_error acc" for acc t using that by (cases acc) (auto split: option.split)
  have "no_error (foldl ?add acc txs)" if "no_error acc" for acc
    using that by (induction txs arbitrary: acc) (auto simp: keeps simp del: bind_outcome.simps)
  then show ?thesis by (simp add: total_tip_def)
qed

lemma no_error_transactions: "no_error (transactions_Write iter ev)"
  using process_txs_not_Err by (auto simp: transactions_Write_def Let_def no_error_def [of "process_txs ts a" for ts a] intro!: no_error_bind)

lemma no_error_blocks: "no_error (blockstats_Write interval ev)"
  by (auto simp: blockstats_Write_def fee_fields_def Let_def intro!: no_error split: option.split)

lemma no_error_slots: "no_error (slots_Write env w ev)"
  by (auto simp: slots_Write_def calculatePoaProposers_def Let_def intro!: no_error split: option.split prod.split)

lemma no_error_liveness: "liveness_Write epochLength cl now ev w = (r, w') \<Longrightarrow> no_error r"
  by (auto simp: liveness_Write_def Let_def split: if_splits prod.splits sum.splits)

lemma no_error_slot_points: "no_error (slot_points interval epoch b prev l shuffled slots proposer is)"
  by (induction "is" arbitrary: proposer) (auto simp: slot_proposer_def Let_def intro!: no_error)

lemma no_error_block_slot_points: "block_slot_points env ev prev l w = (r, l', w') \<Longrightarrow> no_error r"
  by (auto simp: block_slot_points_def Let_def intro!: no_error no_error_slot_points split: prod.splits outcome.splits)

lemma no_error_authority: "authority_Write env ev l w = (r, l', w') \<Longrightarrow> no_error r"
  by (auto simp: authority_Write_def dest: no_error_block_slot_points split: if_splits option.splits prod.splits outcome.splits)

lemma no_error_ensure_parent: "ensure_parent s ev w = (r, w') \<Longrightarrow> no_error r"
  by (auto simp: ensure_parent_def split: option.splits prod.splits outcome.splits)

lemma no_error_overview: "no_error (createValidatorOverview s ev info)"
proof -
  have "no_error (overview_all vs o0)" for vs o0
    by (induction vs arbitrary: o0) (auto simp: overview_add_def Let_def intro!: no_error)
  then show ?thesis by (auto simp: createValidatorOverview_def intro!: no_error)
qed

lemma no_error_single: "no_error (createSingleValidatorStats s ev info)"
proof -
  have "no_error (validator_points ev qs prev vs)" for qs prev vs
    by (induction vs) (auto simp: validator_point_def intro!: no_error)
  then show ?thesis by (auto simp: createSingleValidatorStats_def Let_def intro!: no_error)
qed

lemma no_error_bindW: "no_error (fst m) \<Longrightarrow> (\<And>x w. no_error (fst (f x w))) \<Longrightarrow> no_error (fst (bindW m f))"
  by (auto simp: bindW_def split: prod.split outcome.split)

text \<open>The points that do not depend on the slots.\<close>

lemma no_error_staker_points:
  "bindW (bind_outcome (createSingleValidatorStats s ev info) (\<lambda>ps1.
       bind_outcome (createValidatorOverview s ev info) (\<lambda>ps2.
       bind_outcome (or_nothing (createEnergyStats s ev info)) (\<lambda>ps3. Ok (map Some (ps1 @ ps2 @ ps3))))), w)
     (\<lambda>ps w. case createBlockPoints s ev w of
        (r, w) \<Rightarrow> (bind_outcome (or_nothing r) (\<lambda>ps4. Ok (ps @ ps4)), w)) \<noteq> (Err e, w')"
  (is "?m \<noteq> _")
proof -
  have "no_error (fst ?m)"
    by (rule no_error_bindW) (auto intro!: no_error no_error_single no_error_overview split: prod.split)
  then show ?thesis by auto
qed

lemma no_error_staker: "staker_Write s ev w = Some (r, w') \<Longrightarrow> no_error r"
  unfolding staker_Write_def Let_def
  by (auto simp: no_error_staker_points [simplified] dest: no_error_ensure_parent split: if_splits prod.splits outcome.splits intro!: no_error)

lemma runs_no_error: "runs h t r \<Longrightarrow> no_error r"
  by (induction rule: runs.induct)
    (auto simp: utilisation_Write_def no_error_transactions no_error_blocks no_error_slots
      dest: no_error_authority no_error_staker no_error_liveness)

text \<open>The loop over the missed slots is the only one that might not end.\<close>

definition datable :: "('w, 'd) handlers \<Rightarrow> Block \<Rightarrow> bool" where
  "datable h b \<longleftrightarrow> unat (blk_Timestamp b) + unat (pe_BlockInterval (st_pos (hd_staker h))) < 2 ^ 64"

lemma createSlotPoints_Some:
  assumes "0 < pe_BlockInterval (st_pos s)" and "unat (blk_Timestamp (e_Block ev)) + unat (pe_BlockInterval (st_pos s)) < 2 ^ 64"
  shows "\<exists>r. createSlotPoints s ev info = Some r"
  using MissedSlots_Some [OF assms] by (auto simp: createSlotPoints_def split: option.split)

lemma staker_Write_Some:
  assumes "0 < pe_BlockInterval (st_pos s)" and "unat (blk_Timestamp (e_Block ev)) + unat (pe_BlockInterval (st_pos s)) < 2 ^ 64"
  shows "\<exists>r w'. staker_Write s ev w = Some (r, w')"
proof -
  have same: "e_Block ev' = e_Block ev" if "ensure_parent s ev w = (Ok ev', w')" for ev' w'
    using that by (auto simp: ensure_parent_def split: option.splits prod.splits outcome.splits)
  have "\<exists>r. createSlotPoints s ev' info = Some r" if "ensure_parent s ev w = (Ok ev', w')" for ev' w' info
    using createSlotPoints_Some [of s ev'] assms same [OF that] by simp
  then show ?thesis unfolding staker_Write_def Let_def by (fastforce split: prod.split outcome.split)
qed

lemma runs_something:
  assumes "tk_EventType t \<in> set handler_names" and "0 < pe_BlockInterval (st_pos (hd_staker h))" and "datable h (e_Block (tk_Event t))"
  shows "\<exists>r. runs h t r"
proof -
  obtain r w where "staker_Write (hd_staker h) (tk_Event t) undefined = Some (r, w)"
    using staker_Write_Some [OF assms(2)] assms(3) by (fastforce simp: datable_def)
  moreover obtain r l w where "authority_Write (hd_authority h) (tk_Event t) undefined undefined = (r, l, w)" by (metis prod_cases3)
  moreover obtain r w where "liveness_Write (hd_epochLength h) (hd_client h) undefined (tk_Event t) undefined = (r, w)" by fastforce
  moreover obtain ps a w d where "price_Write (hd_timer h) (hd_feed h) (hd_database h) undefined undefined undefined = (ps, a, w, d)"
    by (metis prod_cases4)
  ultimately show ?thesis using assms(1) unfolding handler_names_def by (auto intro: runs.intros)
qed

section \<open>The pool\<close>

lemma wpreach_workers:
  assumes "wpreach True db run (NewWorkerPool k q d) s"
  shows "length (wp_workers s) = nat (if k \<le> 0 then DefaultWorkerPoolSize else k) \<and> (wp_cancelled s \<or> WReturned \<notin> set (wp_workers s))"
  using assms
proof (induction rule: wpreach.induct)
  case start
  show ?case by (simp add: NewWorkerPool_def Let_def)
next
  case (step s t)
  have shut: "ch_closed (wp_taskQueue s) \<longrightarrow> wp_cancelled s"
    using wpreach_inv [OF step(1) wp_inv_init] by (auto simp: wp_inv_def)
  have "length (wp_workers t) = length (wp_workers s) \<and> (wp_cancelled t \<or> WReturned \<notin> set (wp_workers t))"
    if "wpwork db run s t"
    using that step.IH shut
    by (induction rule: wpwork.induct) (auto simp: chan_drained_def dest: set_update_subset_insert [THEN subsetD])
  with step show ?case by (auto elim: wpstep.cases)
qed

text \<open>How much the pool has left to do.\<close>

definition batch_weight :: "'t list option \<Rightarrow> nat" where
  "batch_weight batch = (case batch of None \<Rightarrow> 0 | Some ts \<Rightarrow> 1 + 3 * length ts)"

definition pool_weight :: "('t, 'd) pool \<Rightarrow> nat" where
  "pool_weight s = wpmeasure s + batch_weight (wp_batch s) + of_bool (\<not> wp_isShutdown s) + of_bool (\<not> wp_cancelled s)"

lemma same_submission_weight:
  "same_submission s t \<Longrightarrow> wpmeasure t < wpmeasure s \<Longrightarrow> pool_weight t < pool_weight s"
  by (simp add: same_submission_def pool_weight_def)

lemma wpwork_weight:
  assumes "wpwork db run s t" and "wp_inv True s"
  shows "(\<exists>n. t = s\<lparr>wp_refused := n\<rparr>) \<or> pool_weight t < pool_weight s"
  using assms
proof (induction rule: wpwork.induct)
  case (enqueue s t ts q)
  then show ?case
    using chan.send_contents [OF enqueue(2)] by (simp add: pool_weight_def wpmeasure_def batch_weight_def)
next
  case (take s i t q)
  then show ?case
    using weight_set_wworker [OF take(1), of "WRunning t"] chan.recv_contents [OF take(2)]
    by (simp add: pool_weight_def wpmeasure_def)
next
  case (finish s i)
  then show ?case using weight_set_wworker [OF finish(1), of WReturned] by (simp add: pool_weight_def wpmeasure_def)
next
  case (quit s i)
  then show ?case using weight_set_wworker [OF quit(1), of WReturned] by (simp add: pool_weight_def wpmeasure_def)
next
  case (handled s i t points)
  then show ?case using weight_set_wworker [OF handled(1), of WIdle] by (simp add: pool_weight_def wpmeasure_def)
next
  case (recovered s i t p)
  then show ?case using weight_set_wworker [OF recovered(1), of WIdle] by (simp add: pool_weight_def wpmeasure_def)
qed (auto simp: wp_inv_def pool_weight_def wpmeasure_def batch_weight_def chan_close_def)

text \<open>Tasks that come to a result when they are run.\<close>

definition answered :: "('t \<Rightarrow> point list outcome \<Rightarrow> bool) \<Rightarrow> ('t, 'd) pool \<Rightarrow> bool" where
  "answered run s \<longleftrightarrow> (\<forall>t. WRunning t \<in> set (wp_workers s) \<longrightarrow> (\<exists>r. run t r \<and> no_error r))"

lemma worker_moves_weight:
  assumes "v \<in> set (wp_workers s)" and "v \<noteq> WReturned" and "answered run s"
    and "ch_buf (wp_taskQueue s) \<noteq> [] \<or> wp_cancelled s"
  shows "\<exists>t. wpwork db run s t \<and> pool_weight t < pool_weight s"
proof -
  have "\<exists>r. run t r \<and> (\<forall>e. r \<noteq> Err e)" if "v = WRunning t" for t
    using assms(1,3) that by (auto simp: answered_def no_error_def)
  then obtain t where "wpwork db run s t" "wpmeasure t < wpmeasure s" "same_submission s t"
    using worker_moves_on [OF assms(1,2), of run db] assms(4) by blast
  then show ?thesis using same_submission_weight by blast
qed

text \<open>A batch can go on being submitted: there is room in the queue, or a worker that can make some.\<close>

lemma pending_moves:
  assumes "wp_batch s \<noteq> None" and "wp_inv True s" and "wp_workers s \<noteq> []" and "wp_cancelled s \<or> WReturned \<notin> set (wp_workers s)"
    and "0 < ch_cap (wp_taskQueue s)" and "answered run s"
  shows "\<exists>t. wpwork db run s t \<and> pool_weight t < pool_weight s"
proof -
  have live: "\<not> wp_cancelled s" "\<not> ch_closed (wp_taskQueue s)" using assms(1,2) by (auto simp: wp_inv_def)
  have idle: "pool_weight t < pool_weight s" if "wpwork db run s t" "wp_batch t \<noteq> wp_batch s" for t
    using wpwork_weight [OF that(1) assms(2)] that(2) by auto
  consider (submitted) "wp_batch s = Some []" | (room) t ts where "wp_batch s = Some (t # ts)"
      "length (ch_buf (wp_taskQueue s)) < ch_cap (wp_taskQueue s)"
    | (full) "ch_buf (wp_taskQueue s) \<noteq> []"
    using assms(1,5) by (cases "wp_batch s"; cases "the (wp_batch s)"; cases "ch_buf (wp_taskQueue s)") auto
  then show ?thesis
  proof cases
    case submitted
    then have "wpwork db run s (s\<lparr>wp_batch := None\<rparr>)" by (rule wpwork.submitted)
    from idle [OF this] this submitted show ?thesis by auto
  next
    case room
    then have "chan_send (wp_taskQueue s) t = Some ((wp_taskQueue s)\<lparr>ch_buf := ch_buf (wp_taskQueue s) @ [t]\<rparr>)"
      using live(2) by (simp add: chan_send_def can_send_def)
    note step = wpwork.enqueue [OF room(1) this, of db run]
    from idle [OF step] step room(1) show ?thesis by auto
  next
    case full
    then show ?thesis
      using worker_moves_weight [of "hd (wp_workers s)" s run db] assms(3,4,6) live(1) by (metis list.set_sel(1))
  qed
qed

lemma cancelled_moves:
  assumes "wp_cancelled s" and "\<not> all_returned s" and "answered run s"
  shows "\<exists>t. wpwork db run s t \<and> pool_weight t < pool_weight s"
proof (cases "wp_isShutdown s")
  case True
  then obtain v where "v \<in> set (wp_workers s)" "v \<noteq> WReturned" using assms(2) by (auto simp: all_returned_def)
  then show ?thesis using worker_moves_weight assms(1,3) by blast
next
  case False
  let ?t = "s\<lparr>wp_taskQueue := chan_close (wp_taskQueue s), wp_isShutdown := True\<rparr>"
  have "wpwork db run s ?t" using assms(1) False by (rule wpwork.close)
  moreover have "pool_weight ?t < pool_weight s" using False by (simp add: pool_weight_def wpmeasure_def chan_close_def)
  ultimately show ?thesis by blast
qed

section \<open>The program\<close>

text \<open>
  How far the program is from its end. A batch that an event becomes weighs 25 and its event weighs one
  before it is received, so thirty for each unit of the publishing side is enough.
\<close>

definition pg_weight :: "('w, 'c, 'd) program \<Rightarrow> nat" where
  "pg_weight s = 30 * sy_measure (pg_syncing s) + pool_weight (pl_pool (pg_rest s)) + of_bool (\<not> pl_returned (pg_rest s))"

text \<open>What may happen any number of times: another goroutine fills the cache, the database changes, a refusal is counted.\<close>

definition quiet :: "('w, 'c, 'd) program \<Rightarrow> ('w, 'c, 'd) program \<Rightarrow> bool" where
  "quiet s t \<longleftrightarrow> (cache_only (pg_syncing s) (pg_syncing t) \<or> pg_syncing t = pg_syncing s) \<and>
     (\<exists>d n. pg_rest t = (pg_rest s)\<lparr>pl_pool := (pl_pool (pg_rest s))\<lparr>wp_db := d, wp_refused := n\<rparr>\<rparr>)"

text \<open>The program hangs: its consumers are gone and the forward syncer waits for room to report a fork.\<close>

definition hung :: "('w, 'c, 'd) program \<Rightarrow> bool" where
  "hung s \<longleftrightarrow> fork_blocked (pg_syncing s) \<and> pl_returned (pg_rest s) \<and> all_returned (pl_pool (pg_rest s))"

lemma same_pool: "(pl_pool q)\<lparr>wp_db := wp_db (pl_pool q), wp_refused := wp_refused (pl_pool q)\<rparr> = pl_pool q"
  "q\<lparr>pl_pub := pl_pub q\<rparr> = q" "q\<lparr>pl_pool := pl_pool q\<rparr> = q" "y\<lparr>sy_run := sy_run y\<rparr> = y"
  "q\<lparr>pl_returned := pl_returned q\<rparr> = q"
  by simp_all

lemma quiet_rest:
  assumes "pg_syncing t = pg_syncing s \<or> cache_only (pg_syncing s) (pg_syncing t)"
    and "pg_rest t = (pg_rest s)\<lparr>pl_pool := (pl_pool (pg_rest s))\<lparr>wp_db := d, wp_refused := n\<rparr>\<rparr>"
  shows "quiet s t"
  using assms by (auto simp: quiet_def)

lemma quiet_same: "pg_syncing t = pg_syncing s \<or> cache_only (pg_syncing s) (pg_syncing t) \<Longrightarrow> pg_rest t = pg_rest s \<Longrightarrow> quiet s t"
  by (rule quiet_rest [where d = "wp_db (pl_pool (pg_rest s))" and n = "wp_refused (pl_pool (pg_rest s))"]) simp_all

lemma pending_batch_weight:
  assumes "on_event cl db order now e u = Some (Ok u')" and "iteration_of order"
  shows "batch_weight (batch_of e u') \<le> 25"
proof (cases "fk_Occurred (be_Fork e)")
  case False
  then obtain ts where "su_batches u' = su_batches u @ [ts]" "batch_ok ts e" using on_event_batches [OF assms] by auto
  moreover from this have "length ts = length handler_names"
    by (metis batch_ok_def length_map size_mset)
  ultimately show ?thesis using False by (simp add: batch_of_def batch_weight_def handler_names_def)
qed (simp add: batch_of_def batch_weight_def)

lemma consume_weight:
  assumes "plstep h q r" and "pl_pub q = sy_run y" and "sy_alive y" and "winding_down y" and "wp_inv True (pl_pool q)"
    and "pl_pub r = pl_pub q \<or> pr_received (pl_pub r) \<noteq> pr_received (pl_pub q)"
  shows "quiet \<lparr>pg_syncing = y, pg_rest = q\<rparr> \<lparr>pg_syncing = y\<lparr>sy_run := pl_pub r\<rparr>, pg_rest = r\<rparr> \<or>
    pg_weight \<lparr>pg_syncing = y\<lparr>sy_run := pl_pub r\<rparr>, pg_rest = r\<rparr> < pg_weight \<lparr>pg_syncing = y, pg_rest = q\<rparr>"
  using assms
proof (induction rule: plstep.induct)
  case (publish q p)
  then show ?case by (auto intro: quiet_same)
next
  case (receive q e c order now u)
  let ?y = "y\<lparr>sy_run := (sy_run y)\<lparr>pr_chan := c, pr_received := pr_received (sy_run y) @ [e]\<rparr>\<rparr>"
  have "Suc (sy_measure ?y) \<le> sy_measure y"
    using chan.recv_contents [OF receive(3)] chan_recv_closed [OF receive(3)] receive.prems(1)
    by (simp add: sy_measure_def forward_weight_def)
  moreover have "batch_weight (batch_of e u) \<le> 25" using receive(5,4) by (rule pending_batch_weight)
  ultimately show ?case using receive(2) receive.prems(1)
    by (simp add: pg_weight_def pool_weight_def wpmeasure_def)
next
  case (pool q p)
  from wpwork_weight [OF pool(1) pool.prems(4)] show ?case
  proof
    assume "\<exists>n. p = (pl_pool q)\<lparr>wp_refused := n\<rparr>"
    then obtain n where "p = (pl_pool q)\<lparr>wp_db := wp_db (pl_pool q), wp_refused := n\<rparr>" by auto
    then show ?thesis using pool.prems(1)
      by (intro disjI1 quiet_rest [where d = "wp_db (pl_pool q)" and n = n]) simp_all
  qed (use pool.prems(1) in \<open>simp add: pg_weight_def\<close>)
next
  case (return q)
  then show ?case by (cases "pl_returned q") (auto simp: pg_weight_def intro: quiet_same)
next
  case (shutdown q)
  then show ?case by (simp add: pg_weight_def pool_weight_def wpmeasure_def)
next
  case (old_prices start stop q e d)
  then show ?case by (intro disjI1 quiet_rest [where d = d and n = "wp_refused (pl_pool q)"]) simp_all
next
  case (background q d)
  then show ?case by (intro disjI1 quiet_rest [where d = d and n = "wp_refused (pl_pool q)"]) simp_all
qed

lemma pgstep_weight:
  assumes "pgstep b h s t" and "winding_down (pg_syncing s)" and "pl_pub (pg_rest s) = sy_run (pg_syncing s)"
    and "wp_inv True (pl_pool (pg_rest s))"
  shows "quiet s t \<or> sy_ended (pg_syncing t) \<or> pg_weight t < pg_weight s"
  using assms
proof (induction rule: pgstep.induct)
  case (publish s y)
  from systep_measure [OF publish(1,3)] consider (cache) "cache_only (pg_syncing s) y" | (ended) "sy_ended y"
    | (less) "sy_measure y < sy_measure (pg_syncing s)" by blast
  then show ?case
  proof cases
    case cache
    then have "sy_run y = pl_pub (pg_rest s)" using publish.prems(2) by (simp add: cache_only_def)
    with cache show ?thesis by (simp add: quiet_same)
  qed (simp_all add: pg_weight_def)
next
  case (consume s r)
  from consume_weight [OF consume(2) consume.prems(2) consume(1) consume.prems(1,3) consume(3)] show ?case
    by (cases s) auto
qed

text \<open>The facts about a reachable state that the progress of the program rests on.\<close>

lemma program_facts:
  assumes "pgreach b h (program_start p w d) s" and "fresh_publisher p"
  shows "pl_pub (pg_rest s) = sy_run (pg_syncing s)" and "syreach b p (pg_syncing s)" and "pl_inv (pg_rest s)"
    and "wp_inv True (pl_pool (pg_rest s))" and "pl_returned (pg_rest s) \<Longrightarrow> may_return s"
    and "wp_workers (pl_pool (pg_rest s)) \<noteq> []"
    and "wp_cancelled (pl_pool (pg_rest s)) \<or> WReturned \<notin> set (wp_workers (pl_pool (pg_rest s)))"
    and "0 < ch_cap (wp_taskQueue (pl_pool (pg_rest s)))" and "in_order (pg_rest s)"
proof -
  have rest: "plreach h (pipeline_start p w d) (pg_rest s)" using program_inv [OF assms] by (simp add: pg_inv_def)
  note pool = pipeline_pool [OF rest]
  have "length (wp_workers (pl_pool (pg_rest s))) = 10" using wpreach_workers [OF pool] by (simp add: DefaultWorkerPoolSize_def)
  then show "wp_workers (pl_pool (pg_rest s)) \<noteq> []" by auto
  show "0 < ch_cap (wp_taskQueue (pl_pool (pg_rest s)))"
    using wpreach_cap [OF pool] by (simp add: NewWorkerPool_def make_chan_def DefaultTaskQueueSize_def)
  show "wp_cancelled (pl_pool (pg_rest s)) \<or> WReturned \<notin> set (wp_workers (pl_pool (pg_rest s)))"
    using wpreach_workers [OF pool] by simp
  show "wp_inv True (pl_pool (pg_rest s))" using pool wp_inv_init by (rule wpreach_inv)
  show "pl_inv (pg_rest s)" "in_order (pg_rest s)" using rest by (rule pipeline_inv, rule pipeline_in_order)
qed (use program_inv [OF assms] in \<open>simp_all add: pg_inv_def\<close>)

text \<open>A task being run stems from an event that was received, and has an answer when that event's block is datable.\<close>

lemma carried_worker: "WRunning t \<in> set (wp_workers s) \<Longrightarrow> t \<in># carried s"
proof -
  have "WRunning t \<in> set vs \<Longrightarrow> t \<in># sum_list (map carries vs)" for vs by (induction vs) auto
  then show "WRunning t \<in> set (wp_workers s) \<Longrightarrow> t \<in># carried s" by (simp add: carried_def)
qed

lemma batch_task:
  assumes "list_all2 batch_ok tss es" and "ts \<in> set tss" and "t \<in> set ts"
  shows "\<exists>e \<in> set es. tk_Event t = event_of e \<and> tk_EventType t \<in> set handler_names"
  using assms
proof (induction rule: list_all2_induct)
  case (Cons ts' tss e es)
  show ?case
  proof (cases "t \<in> set ts'")
    case True
    then have "tk_Event t \<in> set (map tk_Event ts')" "tk_EventType t \<in> set (map tk_EventType ts')" by simp_all
    then show ?thesis using Cons(1) by (auto simp: batch_ok_def dest!: mset_eq_setD simp del: set_map mset_map)
  qed (use Cons in auto)
qed simp

lemma received_answered:
  assumes "in_order q" and "wp_inv True (pl_pool q)" and "0 < pe_BlockInterval (st_pos (hd_staker h))"
    and "\<forall>e \<in> set (pr_received (pl_pub q)). datable h (be_Block e)"
  shows "answered (runs h) (pl_pool q)"
  unfolding answered_def
proof (intro allI impI)
  fix t assume "WRunning t \<in> set (wp_workers (pl_pool q))"
  then have "t \<in># carried (pl_pool q)" by (rule carried_worker)
  then have "t \<in># mset (wp_accepted (pl_pool q))" using assms(2) by (simp add: wp_inv_def accounted_tasks_def)
  moreover have "wp_accepted (pl_pool q) @ pending (pl_pool q) = concat (su_batches (pl_sub q))"
    using assms(1) by (simp add: in_order_def)
  ultimately have "t \<in> set (concat (su_batches (pl_sub q)))" by (metis UnI1 set_append set_mset_mset)
  then obtain ts where "ts \<in> set (su_batches (pl_sub q))" "t \<in> set ts" by auto
  then obtain e where e: "e \<in> set (ordinary (pr_received (pl_pub q)))" "tk_Event t = event_of e" "tk_EventType t \<in> set handler_names"
    using batch_task assms(1) by (auto simp: in_order_def) blast
  then have "datable h (e_Block (tk_Event t))" using assms(4) by (auto simp: ordinary_def event_of_def)
  then show "\<exists>r. runs h t r \<and> no_error r" using runs_something [OF e(3) assms(3)] runs_no_error by blast
qed

lemma program_pool_lift:
  assumes "\<exists>u. wpwork (hd_database h) (runs h) (pl_pool (pg_rest s)) u \<and> pool_weight u < pool_weight (pl_pool (pg_rest s))"
    and "sy_alive (pg_syncing s)" and "pl_pub (pg_rest s) = sy_run (pg_syncing s)"
  shows "\<exists>t. pgstep b h s t \<and> pg_weight t < pg_weight s"
proof -
  obtain u where u: "wpwork (hd_database h) (runs h) (pl_pool (pg_rest s)) u" "pool_weight u < pool_weight (pl_pool (pg_rest s))"
    using assms(1) by blast
  let ?r = "(pg_rest s)\<lparr>pl_pool := u\<rparr>"
  let ?t = "s\<lparr>pg_syncing := (pg_syncing s)\<lparr>sy_run := pl_pub ?r\<rparr>, pg_rest := ?r\<rparr>"
  have "pgstep b h s ?t" using assms(2) plstep.pool [OF u(1)] by (intro pgstep.consume) simp_all
  moreover have "pg_weight ?t < pg_weight s" using u(2) assms(3) by (simp add: pg_weight_def)
  ultimately show ?thesis by blast
qed

text \<open>The subscriber's own moves: returning, and what follows it.\<close>

lemma program_returns:
  assumes "sy_alive (pg_syncing s)" and "pl_pub (pg_rest s) = sy_run (pg_syncing s)" and "wp_batch (pl_pool (pg_rest s)) = None"
    and "\<not> pl_returned (pg_rest s)" and "may_return s"
  shows "\<exists>t. pgstep b h s t \<and> pg_weight t < pg_weight s"
proof -
  let ?r = "(pg_rest s)\<lparr>pl_returned := True\<rparr>"
  let ?t = "s\<lparr>pg_syncing := (pg_syncing s)\<lparr>sy_run := pl_pub ?r\<rparr>, pg_rest := ?r\<rparr>"
  have "pgstep b h s ?t" using assms(1,5) plstep.return [OF assms(3)] by (intro pgstep.consume) simp_all
  moreover have "pg_weight ?t < pg_weight s" using assms(2,4) by (simp add: pg_weight_def)
  ultimately show ?thesis by blast
qed

lemma program_shuts_down:
  assumes "sy_alive (pg_syncing s)" and "pl_pub (pg_rest s) = sy_run (pg_syncing s)" and "pl_returned (pg_rest s)"
    and "\<not> wp_cancelled (pl_pool (pg_rest s))"
  shows "\<exists>t. pgstep b h s t \<and> pg_weight t < pg_weight s"
proof -
  let ?r = "(pg_rest s)\<lparr>pl_pool := (pl_pool (pg_rest s))\<lparr>wp_cancelled := True\<rparr>\<rparr>"
  let ?t = "s\<lparr>pg_syncing := (pg_syncing s)\<lparr>sy_run := pl_pub ?r\<rparr>, pg_rest := ?r\<rparr>"
  have "pgstep b h s ?t" using assms(1) plstep.shutdown [OF assms(3,4)] by (intro pgstep.consume) (simp_all add: assms(3))
  moreover have "pg_weight ?t < pg_weight s" using assms(2,4) by (simp add: pg_weight_def pool_weight_def wpmeasure_def)
  ultimately show ?thesis by blast
qed

lemma program_receives:
  assumes "sy_alive (pg_syncing s)" and "pl_pub (pg_rest s) = sy_run (pg_syncing s)" and "wp_batch (pl_pool (pg_rest s)) = None"
    and "\<not> pl_returned (pg_rest s)" and "ch_buf (pr_chan (sy_run (pg_syncing s))) = e # es" and "\<not> fk_Occurred (be_Fork e)"
    and "winding_down (pg_syncing s)" and "wp_inv True (pl_pool (pg_rest s))"
  shows "\<exists>t. pgstep b h s t \<and> pg_weight t < pg_weight s"
proof -
  let ?q = "pg_rest s"
  have recv: "chan_recv (pr_chan (pl_pub ?q)) = Some (e, (pr_chan (pl_pub ?q))\<lparr>ch_buf := es\<rparr>)"
    using assms(2,5) by (simp add: chan_recv_def)
  have order: "iteration_of handler_names" by (simp add: iteration_of_def)
  obtain u where "on_event (hd_client h) (hd_database h) handler_names 0 e ((pl_sub ?q)\<lparr>su_db := wp_db (pl_pool ?q)\<rparr>) = Some (Ok u)"
    using assms(6) by (simp add: on_event_def)
  from plstep.receive [OF assms(4,3) recv order this] obtain r where r: "plstep h ?q r"
    "pr_received (pl_pub r) = pr_received (pl_pub ?q) @ [e]" "\<not> pl_returned r" using assms(4) by auto
  let ?t = "s\<lparr>pg_syncing := (pg_syncing s)\<lparr>sy_run := pl_pub r\<rparr>, pg_rest := r\<rparr>"
  have step: "pgstep b h s ?t" using assms(1) r by (intro pgstep.consume) simp_all
  have "\<not> quiet s ?t" using r(2) by (auto simp: quiet_def)
  moreover have "\<not> sy_ended (pg_syncing ?t)" using assms(1) by (simp add: sy_alive_def)
  ultimately show ?thesis using pgstep_weight [OF step assms(7,2,8)] step by blast
qed

lemma program_publishes:
  assumes "systep b (pg_syncing s) y" and "pr_received (sy_run y) = pr_received (sy_run (pg_syncing s))"
    and "sy_measure y < sy_measure (pg_syncing s)"
  shows "\<exists>t. pgstep b h s t \<and> pg_weight t < pg_weight s"
proof -
  let ?t = "s\<lparr>pg_syncing := y, pg_rest := (pg_rest s)\<lparr>pl_pub := sy_run y\<rparr>\<rparr>"
  have "pgstep b h s ?t" using assms(1,2) by (rule pgstep.publish)
  moreover have "pg_weight ?t < pg_weight s" using assms(3) by (simp add: pg_weight_def)
  ultimately show ?thesis by blast
qed

lemma bounded_no_forks:
  assumes "syreach b p s" and "fresh_publisher p" and "pb_forward p = None" and "pb_backward p = NewBackwardSyncer head n"
    and "e \<in> set (ch_buf (pr_chan (sy_run s)))"
  shows "\<not> fk_Occurred (be_Fork e)"
proof -
  have "\<forall>e \<in> set (pr_sent (sy_run s)). \<not> fk_Occurred (be_Fork e)"
    unfolding bounded_run_log [OF assms(1-3)] by (rule sent_numbers(2) [OF syncing_backward [OF assms(1,2,4)]])
  then show ?thesis using assms(5) by (simp add: syncing_channel(2) [OF assms(1,2)])
qed

text \<open>While the publishing side has not closed its channel: it moves, its event is received, or it waits to report a fork.\<close>

lemma open_progress:
  assumes "pgreach b h (program_start p w d) s" and "fresh_publisher p" and "pb_backward p = NewBackwardSyncer head n"
    and "\<And>n. \<exists>r. service_may b n r" and "sy_alive (pg_syncing s)" and "winding_down (pg_syncing s)"
    and "\<not> ch_closed (pr_chan (sy_run (pg_syncing s)))"
    and "ch_buf (pr_chan (sy_run (pg_syncing s))) = [] \<or> bs_cancelled (sy_backward (pg_syncing s))"
  shows "fork_blocked (pg_syncing s) \<or> (\<exists>t. pgstep b h s t \<and> pg_weight t < pg_weight s)"
proof -
  note reach = program_facts(2) [OF assms(1,2)]
  have "ch_cap (pr_chan (sy_run (pg_syncing s))) = DefaultChannelBuffer"
    using syreach_inv [OF reach assms(2)] by (auto simp: sy_inv_def pr_inv_def dest: preach_inv)
  then have "length (ch_buf (pr_chan (sy_run (pg_syncing s)))) < ch_cap (pr_chan (sy_run (pg_syncing s))) \<or>
      bs_cancelled (sy_backward (pg_syncing s))"
    using assms(8) by (auto simp: DefaultChannelBuffer_def)
  from publishing_progress [OF reach assms(2-7) this] show ?thesis using program_publishes by blast
qed

lemma program_progress:
  assumes "pgreach b h (program_start p w d) s" and "fresh_publisher p" and "pb_backward p = NewBackwardSyncer head n"
    and "\<And>n. \<exists>r. service_may b n r" and "sy_alive (pg_syncing s)"
    and "pb_forward p = None \<or> bs_cancelled (sy_backward (pg_syncing s))" and "answered (runs h) (pl_pool (pg_rest s))"
  shows "stopped (pg_rest s) \<or> hung s \<or> (\<exists>t. pgstep b h s t \<and> pg_weight t < pg_weight s)"
proof -
  note facts = program_facts [OF assms(1,2)]
  let ?y = "pg_syncing s" and ?q = "pg_rest s"
  have down: "winding_down ?y"
    using assms(6) alone_alive [OF facts(2)] by (auto simp: winding_down_def alone_def)
  note open_ = open_progress [OF assms(1-5) down]
  consider (pending) "wp_batch (pl_pool ?q) \<noteq> None" | (returning) "wp_batch (pl_pool ?q) = None" "\<not> pl_returned ?q" "may_return s"
    | (running) "wp_batch (pl_pool ?q) = None" "\<not> pl_returned ?q" "\<not> may_return s"
    | (shutdown) "pl_returned ?q" "\<not> wp_cancelled (pl_pool ?q)"
    | (workers) "wp_cancelled (pl_pool ?q)" "\<not> all_returned (pl_pool ?q)"
    | (gone) "pl_returned ?q" "all_returned (pl_pool ?q)"
    by blast
  then show ?thesis
  proof cases
    case pending
    from program_pool_lift [OF pending_moves [OF this facts(4,6-8) assms(7)] assms(5) facts(1)] show ?thesis by blast
  next
    case returning
    from program_returns [OF assms(5) facts(1) this] show ?thesis by blast
  next
    case running
    then have "pb_forward p = None" using assms(6) by (auto simp: may_return_def)
    then have unblocked: "\<not> fork_blocked ?y" using alone_alive [OF facts(2)] by (simp add: alone_def fork_blocked_def)
    show ?thesis
    proof (cases "ch_buf (pr_chan (sy_run ?y))")
      case Nil
      then have "\<not> ch_closed (pr_chan (sy_run ?y))" using running(3) facts(1) by (simp add: may_return_def chan_drained_def)
      with open_ Nil unblocked show ?thesis by blast
    next
      case (Cons e es)
      have "\<not> fk_Occurred (be_Fork e)"
        using bounded_no_forks [OF facts(2) assms(2) \<open>pb_forward p = None\<close> assms(3)] Cons by simp
      from program_receives [OF assms(5) facts(1) running(1,2) Cons this down facts(4)] show ?thesis by blast
    qed
  next
    case shutdown
    from program_shuts_down [OF assms(5) facts(1) this] show ?thesis by blast
  next
    case workers
    from program_pool_lift [OF cancelled_moves [OF this assms(7)] assms(5) facts(1)] show ?thesis by blast
  next
    case gone
    show ?thesis
    proof (cases "ch_closed (pr_chan (sy_run ?y))")
      case True
      then have "\<not> someone_running (sy_run ?y)" using open_while_running syreach_inv [OF facts(2) assms(2)] by (auto simp: sy_inv_def)
      with True gone facts(1) show ?thesis by (simp add: stopped_def)
    next
      case False
      then have "bs_cancelled (sy_backward ?y)" using facts(1,5) gone by (auto simp: may_return_def chan_drained_def)
      with open_ False gone show ?thesis by (auto simp: hung_def)
    qed
  qed
qed

section \<open>Properties\<close>

text \<open>C4: A program that was given an end block, or that was cancelled, comes to its end: of its steps all but the
  quiet ones bring the end nearer, and as long as the process lives it has stopped, or such a step is
  possible, or it hangs in the report of a fork that nobody will receive.\<close>

theorem program_stops:
  assumes "NewPublisher cl g backSyncBlocks endBlock latest c w0 = (Ok p, w1)" and "node_numbers cl"
    and "\<And>n. clock_laws (bf_timer b) (fetch_attempt b n)" and "cache_inv b s0"
    and "0 < pe_BlockInterval (st_pos (hd_staker h))"
    and "pgreach b h (program_start p w d) s" and "endBlock \<noteq> 0 \<or> bs_cancelled (sy_backward (pg_syncing s))"
    and "\<forall>e \<in> set (pr_received (pl_pub (pg_rest s))). datable h (be_Block e)"
  shows "(\<forall>t. pgstep b h s t \<longrightarrow> quiet s t \<or> sy_ended (pg_syncing t) \<or> pg_weight t < pg_weight s) \<and>
    (sy_alive (pg_syncing s) \<longrightarrow> stopped (pg_rest s) \<or> hung s \<or> (\<exists>t. pgstep b h s t \<and> pg_weight t < pg_weight s))"
proof -
  obtain head n where p: "fresh_publisher p" "pb_backward p = NewBackwardSyncer head n" "endBlock \<noteq> 0 \<Longrightarrow> pb_forward p = None"
    using NewPublisher_parts [OF assms(1,2)] by metis
  note facts = program_facts [OF assms(6) p(1)]
  have end_: "pb_forward p = None \<or> bs_cancelled (sy_backward (pg_syncing s))" using p(3) assms(7) by blast
  then have "winding_down (pg_syncing s)" using alone_alive [OF facts(2)] by (auto simp: winding_down_def alone_def)
  moreover have "answered (runs h) (pl_pool (pg_rest s))" using facts(9,4) assms(5,8) by (rule received_answered)
  ultimately show ?thesis
    using pgstep_weight facts(1,4) program_progress [OF assms(6) p(1,2) service_answers [OF assms(3,4)] _ end_] by blast
qed

section \<open>Hanging\<close>

text \<open>Once the program hangs it does so forever: nothing makes room in the channel, and the pending send looks at nothing else.\<close>

lemma full_emit:
  assumes "emit out r = Some r'" and "ch_cap (pr_chan r) \<le> length (ch_buf (pr_chan r))" and "\<not> ch_closed (pr_chan r)"
  shows "out = None \<and> r' = r"
  using assms by (cases out) (auto simp: emit_def chan_send_def can_send_def)

lemma fork_blocked_step:
  assumes "systep b s t" and "fork_blocked s" and "\<not> ch_closed (pr_chan (sy_run s))"
    and "pr_received (sy_run t) = pr_received (sy_run s)"
  shows "fork_blocked t"
  using assms
proof (induction rule: systep.induct)
  case (backward s k out r)
  then have "r = sy_run s" using full_emit by (auto simp: fork_blocked_def)
  with backward show ?case by (simp add: fork_blocked_def)
next
  case (forward_sends s g r)
  then show ?case using full_emit [of "Some (to_send g)" "sy_run s" r] by (auto simp: fork_blocked_def)
qed (auto simp: fork_blocked_def someone_running_def)

lemma returned_worker: "\<forall>v \<in> set (wp_workers s). v = WReturned \<Longrightarrow> wworker_at s i v \<Longrightarrow> v = WReturned"
  by (auto simp: wworker_at_def)

lemma all_returned_work: "wpwork db run s t \<Longrightarrow> all_returned s \<Longrightarrow> all_returned t"
  by (induction rule: wpwork.induct) (auto simp: all_returned_def dest: returned_worker)

lemma hung_step:
  assumes "pgstep b h s t" and "hung s" and "\<not> ch_closed (pr_chan (sy_run (pg_syncing s)))"
    and "pl_pub (pg_rest s) = sy_run (pg_syncing s)"
  shows "hung t"
  using assms
proof (induction rule: pgstep.induct)
  case (publish s y)
  then show ?case using fork_blocked_step [OF publish(1)] by (simp add: hung_def)
next
  case (consume s r)
  from consume(2) consume.prems show ?case
    by (induction rule: plstep.cases)
      (use consume(3) in \<open>auto simp: hung_def fork_blocked_def all_returned_def dest: all_returned_work [unfolded all_returned_def]\<close>)
qed

lemma pgreach_trans: "pgreach b h s t \<Longrightarrow> pgreach b h s0 s \<Longrightarrow> pgreach b h s0 t"
  by (induction rule: pgreach.induct) (auto intro: pgreach.step)

lemma hung_forever:
  assumes "pgreach b h s t" and "pgreach b h (program_start p w d) s" and "fresh_publisher p" and "hung s"
  shows "hung t"
  using assms
proof (induction rule: pgreach.induct)
  case (step t u)
  have reach: "pgreach b h (program_start p w d) t" using step(1) step.prems(1) by (rule pgreach_trans)
  have hung: "hung t" using step.IH step.prems by blast
  note facts = program_facts [OF reach step.prems(2)]
  have "preach p (sy_run (pg_syncing t))" using syreach_inv [OF facts(2) step.prems(2)] by (simp add: sy_inv_def)
  moreover have "someone_running (sy_run (pg_syncing t))" using hung by (simp add: hung_def fork_blocked_def someone_running_def)
  ultimately have "\<not> ch_closed (pr_chan (sy_run (pg_syncing t)))" by (rule open_while_running)
  then show ?case using hung_step [OF step(2) hung _ facts(1)] by blast
qed

lemma hung_never_stops:
  assumes "pgreach b h (program_start p w d) s" and "fresh_publisher p" and "hung s" and "pgreach b h s t"
  shows "hung t \<and> \<not> stopped (pg_rest t)"
proof -
  have "hung t" using hung_forever [OF assms(4,1,2,3)] .
  moreover have "pl_pub (pg_rest t) = sy_run (pg_syncing t)"
    using program_facts(1) [OF pgreach_trans [OF assms(4,1)] assms(2)] .
  ultimately show ?thesis by (simp add: stopped_def hung_def fork_blocked_def someone_running_def)
qed

text \<open>A node whose first block is not a child of its finalized block, and a run in which the reports of this fork fill the channel.\<close>

definition stray_block :: Block where
  "stray_block = sample_block 1 200 199"

definition stray_client :: "int client" where
  "stray_client = sample_client\<lparr>cl_ExpandedBlock := \<lambda>r w. (if r = RevNumber 1 then Inr stray_block else sample_answer r, w)\<rparr>"

definition stray_fetcher :: "(int, (u32 \<times> FetchResult) list) fetcher" where
  "stray_fetcher = (sample_fetcher 100 0)\<lparr>bf_client := stray_client\<rparr>"

lemma stray_simps:
  "cl_ExpandedBlock stray_client (RevNumber 1) w = (Inr stray_block, w)"
  "cl_ExpandedBlock stray_client RevFinalized w = (Inr genesis_block, w)"
  "bf_client stray_fetcher = stray_client" "bf_timer stray_fetcher = sample_timer" "bf_cfg stray_fetcher = sample_cfg"
  by (simp_all add: stray_client_def stray_fetcher_def sample_answer_def)

lemma stray_node_numbers: "node_numbers stray_client"
  by (auto simp: node_numbers_def stray_client_def sample_client_def sample_answer_def found_def best_chain_Number stray_block_def
      sample_block_def split: option.splits if_splits)

lemma stray_cache_inv: "cache_inv stray_fetcher ([], w)"
  by (simp add: cache_inv_def stray_fetcher_def sample_lru_laws stray_node_numbers)

lemma stray_NewPublisher:
  "NewPublisher stray_client \<lparr>gc_HAYABUSA = Some 100, gc_HayabusaTP = Some 50\<rparr> 7 0 NoRecord [] 0 = (Ok sample_publisher, 0)"
proof -
  have "blk_Number genesis_block = 0" "blk_Number stray_block = 1" by (simp_all add: sample_blocks stray_block_def)
  then show ?thesis
    by (simp add: NewPublisher_def first_block_def hayabusa_heights_def first_and_previous_def sample_publisher_def
        back_sync_blocks_def Let_def stray_simps)
qed

definition stray_event :: BlockEvent where
  "stray_event = fork_event stray_block genesis_block genesis_block"

lemma stray_pass:
  assumes "fs_prev f = genesis_block" and "fs_world f = 10"
  shows "forward_pass stray_fetcher False c2 f = Some (FContinue, f\<lparr>fs_sent := fs_sent f @ [stray_event]\<rparr>)"
proof -
  have "blk_Number genesis_block = 0" "blk_Timestamp genesis_block = 0" "blk_ParentID stray_block \<noteq> blk_ID genesis_block"
    by (simp_all add: sample_blocks stray_block_def)
  moreover have "fetch_finalized sample_timer stray_client w = Some (genesis_block, w)" for w
    by (simp add: fetch_finalized.simps stray_simps)
  ultimately show ?thesis using assms
    by (cases f) (simp add: forward_pass_def stray_simps poll_wait_def sample_cfg_def sample_timer_def unix_time_def sec_def
        on_fork_def stray_event_def Let_def)
qed

definition stray_state :: "nat \<Rightarrow> (int, (u32 \<times> FetchResult) list) fsync option \<Rightarrow> (int, (u32 \<times> FetchResult) list) syncing" where
  "stray_state k sending = \<lparr>sy_backward = NewBackwardSyncer 1 0,
     sy_forward = Some \<lparr>fs_prev = genesis_block, fs_cache = [], fs_world = 10, fs_sent = replicate k stray_event\<rparr>,
     sy_sending = sending,
     sy_run = (start_run sample_publisher)\<lparr>pr_chan := (make_chan DefaultChannelBuffer)\<lparr>ch_buf := replicate k stray_event\<rparr>,
       pr_sent := replicate k stray_event\<rparr>,
     sy_ended = False\<rparr>"

lemma stray_simps_state [simp]:
  "sy_alive (stray_state k sending)" "pr_forwardRunning (sy_run (stray_state k sending))" "sy_sending (stray_state k sending) = sending"
  "sy_forward (stray_state k sending) =
     Some \<lparr>fs_prev = genesis_block, fs_cache = [], fs_world = 10, fs_sent = replicate k stray_event\<rparr>"
  "sy_backward (stray_state k sending) = NewBackwardSyncer 1 0"
  by (simp_all add: stray_state_def sy_alive_def syncing_start_def sample_publisher_def NewBackwardSyncer_def)

text \<open>One more report waits to be sent.\<close>

definition stray_next :: "nat \<Rightarrow> (int, (u32 \<times> FetchResult) list) fsync" where
  "stray_next k = \<lparr>fs_prev = genesis_block, fs_cache = [], fs_world = 10, fs_sent = replicate k stray_event @ [stray_event]\<rparr>"

lemma stray_wants: "systep stray_fetcher (stray_state k None) (stray_state k (Some (stray_next k)))"
proof -
  let ?f = "\<lparr>fs_prev = genesis_block, fs_cache = [], fs_world = 10, fs_sent = replicate k stray_event\<rparr>"
  have pass: "forward_pass stray_fetcher (bs_cancelled (sy_backward (stray_state k None))) False ?f = Some (FContinue, stray_next k)"
    using stray_pass [of ?f False] by (simp add: stray_next_def NewBackwardSyncer_def)
  have "systep stray_fetcher (stray_state k None) ((stray_state k None)\<lparr>sy_sending := Some (stray_next k)\<rparr>)"
    by (rule systep.forward_wants [OF _ _ _ _ pass, of stray_event]) (simp_all add: stray_next_def)
  then show ?thesis by (simp add: stray_state_def)
qed

lemma stray_sends:
  assumes "k < DefaultChannelBuffer"
  shows "systep stray_fetcher (stray_state k (Some (stray_next k))) (stray_state (Suc k) None)"
proof -
  let ?s = "stray_state k (Some (stray_next k))"
  have "emit (Some (to_send (stray_next k))) (sy_run ?s) = Some (sy_run (stray_state (Suc k) None))"
    using assms
    by (simp add: emit_def to_send_def stray_next_def stray_state_def chan_send_def can_send_def make_chan_def replicate_append_same)
  then have "systep stray_fetcher ?s (?s\<lparr>sy_forward := Some (stray_next k), sy_sending := None, sy_run := sy_run (stray_state (Suc k) None)\<rparr>)"
    by (intro systep.forward_sends) simp_all
  then show ?thesis by (simp add: stray_state_def stray_next_def replicate_append_same)
qed

lemma stray_fills: "k \<le> DefaultChannelBuffer \<Longrightarrow> syreach stray_fetcher sample_publisher (stray_state k None)"
proof (induction k)
  case 0
  have "systep stray_fetcher (syncing_start sample_publisher) (stray_state 0 None)"
    using systep.others [of "syncing_start sample_publisher" "NewForwardSyncer genesis_block [] 0" stray_fetcher "[]" 10] stray_cache_inv
    by (simp add: stray_state_def syncing_start_def sample_publisher_def sy_alive_def NewBackwardSyncer_def NewForwardSyncer_def
        start_run_def make_chan_def)
  then show ?case using syreach.start by (rule syreach.step [rotated])
next
  case (Suc k)
  then have "syreach stray_fetcher sample_publisher (stray_state k None)" "k < DefaultChannelBuffer" by simp_all
  then show ?case using stray_wants stray_sends by (blast intro: syreach.step)
qed

lemma stray_blocked:
  "\<exists>y. syreach stray_fetcher sample_publisher y \<and> fork_blocked y \<and> bs_cancelled (sy_backward y) \<and> sy_alive y \<and>
     pr_received (sy_run y) = []"
proof -
  let ?s = "stray_state DefaultChannelBuffer (Some (stray_next DefaultChannelBuffer))"
  let ?k = "(NewBackwardSyncer 1 0)\<lparr>bs_cancelled := True\<rparr>"
  have "syreach stray_fetcher sample_publisher ?s" using stray_fills stray_wants by (blast intro: syreach.step)
  moreover have "bstep (service_may stray_fetcher) (NewBackwardSyncer 1 0) ?k"
    by (rule bstep.cancel) (simp_all add: NewBackwardSyncer_def)
  then have "systep stray_fetcher ?s (?s\<lparr>sy_backward := ?k, sy_run := sy_run ?s\<rparr>)"
    by (intro systep.backward [where out = None]) simp_all
  ultimately have "syreach stray_fetcher sample_publisher (?s\<lparr>sy_backward := ?k, sy_run := sy_run ?s\<rparr>)" by (rule syreach.step)
  moreover have "fork_blocked (?s\<lparr>sy_backward := ?k, sy_run := sy_run ?s\<rparr>)"
    by (simp add: fork_blocked_def to_send_def stray_next_def stray_event_def fork_event_def)
      (simp add: stray_state_def make_chan_def)
  ultimately show ?thesis
    by (intro exI [of _ "?s\<lparr>sy_backward := ?k, sy_run := sy_run ?s\<rparr>"])
      (simp add: sy_alive_def NewBackwardSyncer_def, simp add: stray_state_def syncing_start_def)
qed

text \<open>The consuming side of a cancelled program that has received nothing can end at once.\<close>

lemma consumers_leave:
  assumes "pgreach b h s0 \<lparr>pg_syncing = y, pg_rest = (pipeline_start p w d)\<lparr>pl_pub := sy_run y\<rparr>\<rparr>"
    and "sy_alive y" and "bs_cancelled (sy_backward y)"
  shows "\<exists>q. pgreach b h s0 \<lparr>pg_syncing = y, pg_rest = q\<rparr> \<and> pl_returned q \<and> all_returned (pl_pool q)"
proof -
  let ?q0 = "(pipeline_start p w d)\<lparr>pl_pub := sy_run y\<rparr>"
  let ?pool = "pl_pool ?q0"
  have pool: "pl_pool (pipeline_start p w d) = NewWorkerPool 10 100 d" by (simp add: pipeline_start_def DefaultWorkerPoolSize_def DefaultTaskQueueSize_def)
  have consume: "pgreach b h s0 \<lparr>pg_syncing = y, pg_rest = r\<rparr>"
    if "pgreach b h s0 \<lparr>pg_syncing = y, pg_rest = q\<rparr>" "plstep h q r" "pl_pub q = sy_run y" "pl_pub r = sy_run y" for q r
    using pgreach.step [OF that(1) pgstep.consume [of "\<lparr>pg_syncing = y, pg_rest = q\<rparr>" h r b]] that assms(2,3)
    by (simp add: may_return_def)
  let ?q1 = "?q0\<lparr>pl_returned := True\<rparr>"
  have "plstep h ?q0 ?q1" by (rule plstep.return) (simp add: pool NewWorkerPool_def)
  then have 1: "pgreach b h s0 \<lparr>pg_syncing = y, pg_rest = ?q1\<rparr>" using consume [OF assms(1)] by simp
  let ?pool2 = "?pool\<lparr>wp_cancelled := True\<rparr>"
  let ?q2 = "?q1\<lparr>pl_pool := ?pool2\<rparr>"
  have "\<not> wp_cancelled (pl_pool ?q1)" by (simp add: pool NewWorkerPool_def)
  from plstep.shutdown [OF _ this, of h] have "plstep h ?q1 ?q2" by simp
  then have 2: "pgreach b h s0 \<lparr>pg_syncing = y, pg_rest = ?q2\<rparr>" using consume [OF 1] by simp
  let ?pool3 = "?pool2\<lparr>wp_taskQueue := chan_close (wp_taskQueue ?pool2), wp_isShutdown := True\<rparr>"
  let ?pool4 = "?pool3\<lparr>wp_workers := replicate (0 + 10) WReturned\<rparr>"
  have "wpwork (hd_database h) (runs h) ?pool2 ?pool3"
    by (rule wpwork.close) (simp_all add: pool NewWorkerPool_def)
  moreover have "(wpwork (hd_database h) (runs h))\<^sup>*\<^sup>* ?pool3 ?pool4"
    by (rule quit_all) (simp_all add: pool NewWorkerPool_def)
  ultimately have "(wpwork (hd_database h) (runs h))\<^sup>*\<^sup>* (pl_pool ?q2) ?pool4" by (simp add: converse_rtranclp_into_rtranclp)
  from pool_run_lifts [OF this 2 assms(2)] show ?thesis
    by (intro exI [of _ "?q2\<lparr>pl_pool := ?pool4\<rparr>"]) (simp add: all_returned_def)
qed

lemma sample_fresh: "fresh_publisher sample_publisher"
  by (simp add: fresh_publisher_def sample_publisher_def NewBackwardSyncer_def NewForwardSyncer_def)

lemma hanging_run:
  "\<exists>s. pgreach stray_fetcher sample_handlers (program_start sample_publisher 0 ([], [])) s \<and> sy_alive (pg_syncing s) \<and>
     bs_cancelled (sy_backward (pg_syncing s)) \<and> hung s"
proof -
  obtain y where y: "syreach stray_fetcher sample_publisher y" "fork_blocked y" "bs_cancelled (sy_backward y)" "sy_alive y"
    "pr_received (sy_run y) = []" using stray_blocked by blast
  let ?start = "program_start sample_publisher 0 ([], []) :: (int, (u32 \<times> FetchResult) list, sample_store) program"
  obtain q where q: "pgreach stray_fetcher sample_handlers ?start \<lparr>pg_syncing = y, pg_rest = q\<rparr>" "pl_returned q" "all_returned (pl_pool q)"
    using consumers_leave [OF publishing_lifts [OF y(1,5), of sample_handlers 0 "([], [])"] y(4,3)] by blast
  then have "hung \<lparr>pg_syncing = y, pg_rest = q\<rparr>" using y(2) by (simp add: hung_def)
  then show ?thesis using q(1) y(3,4) by (intro exI [of _ "\<lparr>pg_syncing = y, pg_rest = q\<rparr>"]) simp
qed

text \<open>C5: Whether or not the context is cancelled, a program whose forward syncer waits in the plain send of a fork event, with
  the channel full and no one left to receive, stays so in every continuation and never stops.\<close>

theorem hung_is_final:
  assumes "NewPublisher cl gc blocks end_block latest c w0 = (Ok p, w1)" and "node_numbers cl"
    and "pgreach b h (program_start p w d) s" and "hung s" and "pgreach b h s t"
  shows "hung t \<and> \<not> stopped (pg_rest t)"
proof -
  have "fresh_publisher p" using NewPublisher_parts [OF assms(1,2)] by metis
  then show ?thesis using hung_never_stops [OF assms(3) _ assms(4,5)] by simp
qed

text \<open>Stopping the program need not end it: a run in which the forward syncer meets a fork while the channel is full
  and is then cancelled comes to a state from which no run ever stops.\<close>

theorem stop_can_hang:
  "\<exists>s. pgreach stray_fetcher sample_handlers (program_start sample_publisher 0 ([], [])) s \<and> sy_alive (pg_syncing s) \<and>
     bs_cancelled (sy_backward (pg_syncing s)) \<and> hung s \<and>
     (\<forall>t. pgreach stray_fetcher sample_handlers s t \<longrightarrow> \<not> stopped (pg_rest t))"
proof -
  obtain s :: "(int, (u32 \<times> FetchResult) list, sample_store) program"
    where s: "pgreach stray_fetcher sample_handlers (program_start sample_publisher 0 ([], [])) s" "sy_alive (pg_syncing s)"
      "bs_cancelled (sy_backward (pg_syncing s))" "hung s" using hanging_run by blast
  then show ?thesis using hung_never_stops [OF s(1) sample_fresh s(4)] by (intro exI [of _ s]) simp
qed

section \<open>Instances\<close>

lemma sample_interval: "pe_BlockInterval (st_pos (hd_staker sample_handlers)) = 10"
  by (simp add: sample_handlers_def sample_st_def sample_pos_env_def)

lemma sample_datable: "datable sample_handlers (be_Block sample_event)"
  unfolding datable_def sample_interval
  by (simp add: sample_event_def block_event_def sample_result_def sample_blocks)

theorem program_stops_witness:
  "(\<exists>t. pgstep (sample_fetcher 100 0) sample_handlers (program_start bounded_publisher 0 ([], [])) t \<and>
      pg_weight t < pg_weight (program_start bounded_publisher 0 ([], []) :: (int, (u32 \<times> FetchResult) list, sample_store) program)) \<and>
   (\<exists>s :: (int, (u32 \<times> FetchResult) list, sample_store) program. pr_received (pl_pub (pg_rest s)) = [sample_event] \<and>
      (\<forall>t. pgstep (sample_fetcher 100 0) sample_handlers s t \<longrightarrow> quiet s t \<or> sy_ended (pg_syncing t) \<or> pg_weight t < pg_weight s))"
proof -
  have clock: "clock_laws (bf_timer (sample_fetcher 100 0)) (fetch_attempt (sample_fetcher 100 0) n)" for n
    by (simp add: sample_clock)
  have interval: "0 < pe_BlockInterval (st_pos (hd_staker sample_handlers))" by (simp add: sample_interval)
  note stops = program_stops [OF bounded_NewPublisher sample_node_numbers clock sample_cache_inv interval]
  let ?start = "program_start bounded_publisher 0 ([], []) :: (int, (u32 \<times> FetchResult) list, sample_store) program"
  have "sy_alive (pg_syncing ?start)" "\<not> stopped (pg_rest ?start)" "\<not> hung ?start" "pr_received (pl_pub (pg_rest ?start)) = []"
    by (simp_all add: program_start_def pipeline_start_def syncing_start_def sy_alive_def stopped_def hung_def bounded_publisher_def
        NewBackwardSyncer_def)
  then have "\<exists>t. pgstep (sample_fetcher 100 0) sample_handlers ?start t \<and> pg_weight t < pg_weight ?start"
    using stops [OF pgreach.start, of 0 "([], [])"] by simp
  moreover obtain s where s: "pgreach (sample_fetcher 100 0) sample_handlers ?start s" "pr_received (pl_pub (pg_rest s)) = [sample_event]"
    using sample_program by blast
  have "\<forall>e \<in> set (pr_received (pl_pub (pg_rest s))). datable sample_handlers (be_Block e)"
    by (simp add: s(2) sample_datable)
  from stops [OF s(1) _ this] s(2) have "\<exists>s :: (int, (u32 \<times> FetchResult) list, sample_store) program.
      pr_received (pl_pub (pg_rest s)) = [sample_event] \<and>
      (\<forall>t. pgstep (sample_fetcher 100 0) sample_handlers s t \<longrightarrow> quiet s t \<or> sy_ended (pg_syncing t) \<or> pg_weight t < pg_weight s)"
    by (intro exI [of _ s]) simp
  ultimately show ?thesis by blast
qed

theorem hung_is_final_witness:
  "\<exists>s :: (int, (u32 \<times> FetchResult) list, sample_store) program. hung s \<and> bs_cancelled (sy_backward (pg_syncing s)) \<and> \<not> stopped (pg_rest s)"
proof -
  obtain s :: "(int, (u32 \<times> FetchResult) list, sample_store) program"
    where s: "pgreach stray_fetcher sample_handlers (program_start sample_publisher 0 ([], [])) s"
      "bs_cancelled (sy_backward (pg_syncing s))" "hung s" using hanging_run by blast
  have "hung s \<and> \<not> stopped (pg_rest s)"
    by (rule hung_is_final [OF stray_NewPublisher stray_node_numbers s(1,3) pgreach.start])
  then show ?thesis using s(2) by blast
qed

end
