(* ===== verification/Stored.thy ===== *)
theory Stored
  imports Program
begin

text \<open>
  What the program writes. With an end block there are no forks, and what is handed to the database client
  is what the handlers returned for the blocks of the range. Whether the client delivers it is not up to the
  program; but no field gets into the database that was not there before or was handed over. This is
  followed through the start of the next program, which reads the last block number back (\<open>Latest\<close> of
  \<^verbatim>\<open>influxdb/influxdb.go\<close>).
\<close>

section \<open>The points of a run without forks\<close>

text \<open>
  The outputs of the processed tasks are what was handed over, the database has no other fields, and a task that
  was given up panicked.
\<close>

definition written_by_run ::
  "'d database \<Rightarrow> ('t \<Rightarrow> point list outcome \<Rightarrow> bool) \<Rightarrow> 'd \<Rightarrow> ('t, 'd) pool \<Rightarrow> bool" where
  "written_by_run db run d s \<longleftrightarrow>
     (\<exists>outs. list_all2 (\<lambda>t ps. run t (Ok ps)) (wp_processed s) outs \<and>
        mset (db_handed db (wp_db s)) = mset (db_handed db d) + mset (concat outs) \<and>
        db_fields db (wp_db s) \<subseteq> db_fields db d \<union> fields_in (set (concat outs))) \<and>
     (\<forall>t \<in> set (wp_recovered s). \<exists>p. run t (Panic p))"

lemma written_by_run_same:
  "written_by_run db run d s \<Longrightarrow> wp_processed s' = wp_processed s \<Longrightarrow> wp_recovered s' = wp_recovered s \<Longrightarrow>
     db_handed db (wp_db s') = db_handed db (wp_db s) \<Longrightarrow> db_fields db (wp_db s') \<subseteq> db_fields db (wp_db s) \<Longrightarrow>
     written_by_run db run d s'"
  unfolding written_by_run_def by (metis (no_types, lifting) order_trans)

lemma written_by_work: "wpwork db run s t \<Longrightarrow> db_laws db \<Longrightarrow> written_by_run db run d s \<Longrightarrow> written_by_run db run d t"
proof (induction rule: wpwork.induct)
  case (handled s i t points)
  then obtain outs where outs: "list_all2 (\<lambda>t ps. run t (Ok ps)) (wp_processed s) outs"
    "mset (db_handed db (wp_db s)) = mset (db_handed db d) + mset (concat outs)"
    "db_fields db (wp_db s) \<subseteq> db_fields db d \<union> fields_in (set (concat outs))"
    by (auto simp: written_by_run_def)
  have "list_all2 (\<lambda>t ps. run t (Ok ps)) (wp_processed s @ [t]) (outs @ [points])"
    using outs(1) handled(2) by (simp add: list_all2_appendI)
  moreover have "mset (db_handed db (WritePoints db points (wp_db s))) = mset (db_handed db d) + mset (concat (outs @ [points]))"
    using outs(2) by (simp add: WritePoints_handed [OF handled.prems(1)])
  moreover have "db_fields db (WritePoints db points (wp_db s)) \<subseteq> db_fields db d \<union> fields_in (set (concat (outs @ [points])))"
    using outs(3) by (auto simp: db_fields_write [OF handled.prems(1)] fields_in_Un)
  ultimately show ?case using handled.prems(2) unfolding written_by_run_def
    by (intro conjI exI [of _ "outs @ [points]"]) (auto simp: processTask_def)
next
  case (recovered s i t p)
  then show ?case by (auto simp: written_by_run_def processTask_def)
qed (auto simp: written_by_run_def)

lemma on_event_keeps_db:
  "on_event cl db order now b s = Some (Ok t) \<Longrightarrow> \<not> fk_Occurred (be_Fork b) \<Longrightarrow> su_db t = su_db s"
  by (auto simp: on_event_def)

lemma written_by_step:
  assumes "plstep h s t" and "db_laws (hd_database h)"
    and "\<forall>e \<in> set (pr_received (pl_pub t)). \<not> fk_Occurred (be_Fork e)"
    and "written_by_run (hd_database h) (runs h) d (pl_pool s)"
  shows "written_by_run (hd_database h) (runs h) d (pl_pool t)"
  using assms
proof (induction rule: plstep.induct)
  case (receive s b c order now t)
  have "su_db t = wp_db (pl_pool s)" using on_event_keeps_db [OF receive(5)] receive.prems(2) by simp
  then show ?case using receive.prems(3) by (auto intro: written_by_run_same)
next
  case (pool s p)
  then show ?case by (auto intro: written_by_work)
next
  case (old_prices start stop s e d')
  then show ?case using db_law_delete(1) [OF old_prices(2,1)] db_fields_delete [OF old_prices(2,1)]
    by (intro written_by_run_same [OF old_prices.prems(3)]) simp_all
next
  case (background s d')
  then show ?case using db_law_background(1) [OF background(2,1)] db_fields_background [OF background(2,1)]
    by (intro written_by_run_same [OF background.prems(3)]) simp_all
qed (auto intro: written_by_run_same)

lemma pipeline_written:
  assumes "plreach h (pipeline_start p w d) s" and "db_laws (hd_database h)"
    and "\<forall>e \<in> set (pr_received (pl_pub s)). \<not> fk_Occurred (be_Fork e)"
  shows "written_by_run (hd_database h) (runs h) d (pl_pool s)"
  using assms(1,3)
proof (induction rule: plreach.induct)
  case start
  show ?case by (auto simp: written_by_run_def pipeline_start_def NewWorkerPool_def Let_def)
next
  case (step s t)
  have "set (pr_received (pl_pub s)) \<subseteq> set (pr_received (pl_pub t))"
    using pl_pub_step [OF step(2)] by (auto elim: pstep_cases)
  then show ?case using written_by_step [OF step(2) assms(2) step.prems] step.IH step.prems by blast
qed

section \<open>The tasks of a run with an end block\<close>

lemma list_all2_partner:
  "list_all2 P xs ys \<Longrightarrow> x \<in> set xs \<Longrightarrow> \<exists>y \<in> set ys. P x y" "list_all2 P xs ys \<Longrightarrow> y \<in> set ys \<Longrightarrow> \<exists>x \<in> set xs. P x y"
  by (induction rule: list_all2_induct) auto

definition task_number :: "Task \<Rightarrow> u32" where
  "task_number t = blk_Number (e_Block (tk_Event t))"

lemma sent_in_range:
  assumes "breach may head n k" and "(m, e) \<in> set (bs_sent k)"
  shows "backward_minBlock head n < m" and "m \<le> head"
proof -
  have inv: "accounted_numbers k \<subseteq># span (backward_minBlock head n) head"
    using breach_inv [OF assms(1)] by (auto simp: bs_inv_def)
  have "m \<in> fst ` set (bs_sent k)" using assms(2) by force
  then have "m \<in># accounted_numbers k" by (simp add: accounted_numbers_def)
  then have "m \<in># span (backward_minBlock head n) head" using inv by (rule mset_subset_eqD [rotated])
  then have "0 < count (span (backward_minBlock head n) head) m" by (simp add: count_greater_zero_iff)
  then show "backward_minBlock head n < m" "m \<le> head" by (simp_all add: count_span split: if_splits)
qed

text \<open>What is known of a program with an end block: its parts, and where its events and tasks come from.\<close>

lemma bounded_program:
  assumes "NewPublisher cl g backSyncBlocks endBlock latest c w0 = (Ok p, w1)" and "node_numbers cl" and "endBlock \<noteq> 0"
    and "pgreach b h (program_start p w d) s"
  shows "plreach h (pipeline_start p w d) (pg_rest s)" and "syreach b p (pg_syncing s)"
    and "\<forall>e \<in> set (pr_received (pl_pub (pg_rest s))). \<not> fk_Occurred (be_Fork e) \<and>
      bs_minBlock (pb_backward p) < blk_Number (be_Block e) \<and> blk_Number (be_Block e) \<le> endBlock \<and>
      service_may b (blk_Number (be_Block e)) (Ok e)"
    and "t \<in># accounted_tasks (pl_pool (pg_rest s)) \<Longrightarrow> \<exists>e \<in> set (pr_received (pl_pub (pg_rest s))). tk_Event t = event_of e"
proof -
  obtain head n where p: "fresh_publisher p" "pb_backward p = NewBackwardSyncer head n" "head = endBlock" "pb_forward p = None"
    using NewPublisher_parts [OF assms(1,2)] assms(3) by metis
  have inv: "pl_pub (pg_rest s) = sy_run (pg_syncing s)" and reach: "syreach b p (pg_syncing s)"
    and rest: "plreach h (pipeline_start p w d) (pg_rest s)"
    using program_inv [OF assms(4) p(1)] by (simp_all add: pg_inv_def)
  show "plreach h (pipeline_start p w d) (pg_rest s)" "syreach b p (pg_syncing s)" by (fact rest reach)+
  let ?k = "sy_backward (pg_syncing s)"
  have k: "breach (service_may b) head n ?k" using syncing_backward [OF reach p(1,2)] .
  have "set (pr_received (pl_pub (pg_rest s))) \<subseteq> snd ` set (bs_sent ?k)"
    using syncing_channel(2) [OF reach p(1)] bounded_run_log [OF reach p(1,4)] unfolding inv
    by (metis list.set_map le_sup_iff order_refl set_append)
  moreover have "\<not> fk_Occurred (be_Fork e) \<and> bs_minBlock (pb_backward p) < blk_Number (be_Block e) \<and>
      blk_Number (be_Block e) \<le> endBlock \<and> service_may b (blk_Number (be_Block e)) (Ok e)" if "(m, e) \<in> set (bs_sent ?k)" for m e
  proof -
    have may: "service_may b m (Ok e)" using breach_events [OF k] that by (auto simp: events_from_def)
    then have "blk_Number (be_Block e) = m" using service.may_number by blast
    with may sent_in_range [OF k that] sent_numbers(2) [OF k] that show ?thesis
      by (force simp: p(2,3) new_backward)
  qed
  ultimately show "\<forall>e \<in> set (pr_received (pl_pub (pg_rest s))). \<not> fk_Occurred (be_Fork e) \<and>
      bs_minBlock (pb_backward p) < blk_Number (be_Block e) \<and> blk_Number (be_Block e) \<le> endBlock \<and>
      service_may b (blk_Number (be_Block e)) (Ok e)"
    by fastforce
  show "\<exists>e \<in> set (pr_received (pl_pub (pg_rest s))). tk_Event t = event_of e"
    if "t \<in># accounted_tasks (pl_pool (pg_rest s))"
  proof -
    have order: "in_order (pg_rest s)" using pipeline_in_order [OF rest] .
    have "mset (wp_accepted (pl_pool (pg_rest s))) = accounted_tasks (pl_pool (pg_rest s))"
      using wpreach_inv [OF pipeline_pool [OF rest] wp_inv_init] by (simp add: wp_inv_def)
    then have "t \<in> set (wp_accepted (pl_pool (pg_rest s)))" using that by (metis set_mset_mset)
    then have "t \<in> set (concat (su_batches (pl_sub (pg_rest s))))"
      using order unfolding in_order_def by (metis UnI1 set_append)
    then obtain ts where ts: "ts \<in> set (su_batches (pl_sub (pg_rest s)))" "t \<in> set ts" by auto
    obtain e where "e \<in> set (ordinary (pr_received (pl_pub (pg_rest s))))" "batch_ok ts e"
      using order list_all2_partner(1) [OF _ ts(1)] unfolding in_order_def by blast
    then show ?thesis using ts(2) by (force simp: batch_ok_def ordinary_def)
  qed
qed

text \<open>The range lies above the last number in the database, if it is not empty.\<close>

lemma range_above_latest:
  assumes "NewPublisher cl g backSyncBlocks endBlock latest c w0 = (Ok p, w1)" and "node_numbers cl" and "endBlock \<noteq> 0"
    and "Latest latest = Inr m"
    and "bs_minBlock (pb_backward p) < n" and "n \<le> endBlock"
  shows "m < n"
proof -
  obtain first :: Block where first: "0 < blk_Number first" "blk_Number first = endBlock"
    "pb_backward p = NewBackwardSyncer (blk_Number first) (back_sync_blocks (blk_Number first) m backSyncBlocks)"
    using NewPublisher_Ok [OF assms(1,2)] assms(3,4) by (metis sum.simps(6))
  have "unat (bs_minBlock (pb_backward p)) \<ge> min (unat endBlock) (unat m)"
    unfolding first(3) new_backward unat_backward_minBlock [OF first(1)] unfolding first(2) by simp
  then show ?thesis using assms(5,6) by (simp add: word_less_nat_alt word_le_nat_alt min_def split: if_splits)
qed

text \<open>Every block of the range that did not fail has its task among the batches.\<close>

lemma asked_task:
  assumes "NewPublisher cl g backSyncBlocks endBlock latest c w0 = (Ok p, w1)" and "node_numbers cl" and "endBlock \<noteq> 0"
    and "pgreach b h (program_start p w d) s" and "stopped (pg_rest s)" and "\<not> bs_cancelled (sy_backward (pg_syncing s))"
    and "bs_minBlock (pb_backward p) < n" and "n \<le> endBlock" and "n \<notin> set (bs_failed (sy_backward (pg_syncing s)))"
  shows "\<exists>t \<in> set (concat (su_batches (pl_sub (pg_rest s)))). tk_EventType t = ''blocks'' \<and> task_number t = n"
proof -
  obtain head k where p: "fresh_publisher p" "pb_backward p = NewBackwardSyncer head k" "head = endBlock" "pb_forward p = None"
    using NewPublisher_parts [OF assms(1,2)] assms(3) by metis
  have inv: "pg_inv b h p w d s" using program_inv [OF assms(4) p(1)] .
  then have reach: "syreach b p (pg_syncing s)" by (simp add: pg_inv_def)
  have "chan_drained (pr_chan (sy_run (pg_syncing s)))"
    using inv assms(5,6) by (auto simp: pg_inv_def stopped_def may_return_def)
  then have closed: "ch_closed (pr_chan (sy_run (pg_syncing s)))"
    and received: "pr_sent (sy_run (pg_syncing s)) = pr_received (pl_pub (pg_rest s))"
    using inv syncing_channel(2) [OF reach p(1)] by (simp_all add: chan_drained_def pg_inv_def)
  have "0 < count (span (bs_minBlock (pb_backward p)) endBlock) n" using assms(7,8) by (simp add: count_span)
  then have "n \<in># span (backward_minBlock endBlock k) endBlock" by (simp add: p(2,3) new_backward count_greater_zero_iff)
  then have "n \<in># mset (map (\<lambda>e. blk_Number (be_Block e)) (pr_received (pl_pub (pg_rest s))))"
    using bounded_run_numbers [OF reach p(1,4,2) closed assms(6), unfolded received p(3), symmetric] assms(9) by simp
  then obtain e where e: "e \<in> set (pr_received (pl_pub (pg_rest s)))" "blk_Number (be_Block e) = n" by auto
  have "ordinary (pr_received (pl_pub (pg_rest s))) = pr_received (pl_pub (pg_rest s))"
    unfolding ordinary_def filter_id_conv using bounded_program(3) [OF assms(1-4)] by blast
  then have order: "list_all2 batch_ok (su_batches (pl_sub (pg_rest s))) (pr_received (pl_pub (pg_rest s)))"
    using pipeline_in_order [OF bounded_program(1) [OF assms(1-4)]] by (simp only: in_order_def)
  then obtain ts where ts: "ts \<in> set (su_batches (pl_sub (pg_rest s)))" "batch_ok ts e"
    using list_all2_partner(2) [OF _ e(1)] by blast
  have "''blocks'' \<in># mset handler_names" by (simp add: handler_names_def)
  then have "''blocks'' \<in># mset (map tk_EventType ts)" using ts(2) by (simp only: batch_ok_def)
  then have "''blocks'' \<in> tk_EventType ` set ts" by simp
  then obtain t where t: "t \<in> set ts" "''blocks'' = tk_EventType t" by (rule imageE)
  have "tk_Event t \<in> set (map tk_Event ts)" using t(1) by simp
  then have "tk_Event t = event_of e" using ts(2) by (simp only: batch_ok_def singleton_iff)
  then have "task_number t = n" using e(2) by (simp add: task_number_def event_of_def)
  moreover have "t \<in> set (concat (su_batches (pl_sub (pg_rest s))))" using ts(1) t(1) by auto
  ultimately show ?thesis using t(2) by (intro bexI [of _ t]) simp_all
qed

lemma processed_accounted:
  "t \<in> set (wp_processed s) \<Longrightarrow> t \<in># accounted_tasks s" "t \<in> set (wp_recovered s) \<Longrightarrow> t \<in># accounted_tasks s"
  by (simp_all add: accounted_tasks_def)

section \<open>The block numbers in the database\<close>

text \<open>What \<open>Latest\<close> asks for: block statistics with this number.\<close>

definition number_in :: "point set \<Rightarrow> u32 \<Rightarrow> bool" where
  "number_in ps n \<longleftrightarrow> (''block_stats'', KStr ''best_block_number'', VU32 n) \<in> fields_in ps"

lemma number_in_iff:
  "number_in ps n \<longleftrightarrow> (\<exists>p \<in> ps. pt_Measurement p = ''block_stats'' \<and> (KStr ''best_block_number'', VU32 n) \<in> set (pt_Fields p))"
  by (simp add: number_in_def fields_in_iff)

lemma number_in_Un [simp]: "number_in (A \<union> B) n \<longleftrightarrow> number_in A n \<or> number_in B n"
  by (simp add: number_in_def fields_in_Un)

lemma blockstats_number:
  assumes "blockstats_Write interval ev = Ok ps"
  shows "number_in (set ps) n \<longleftrightarrow> n = blk_Number (e_Block ev)"
  using assms by (auto simp: blockstats_Write_def fee_fields_def Let_def outcome_simps number_in_iff
      split: option.splits outcome.splits)

lemma blocks_runs: "runs h t r \<Longrightarrow> tk_EventType t = ''blocks'' \<Longrightarrow> r = blockstats_Write (hd_interval h) (tk_Event t)"
  by (erule runs.cases) auto

lemma block_stats_writer: "''block_stats'' \<in> set (measurements_of name) \<Longrightarrow> name = ''blocks''"
  by (simp add: measurements_of.simps split: if_splits)

lemma written_number:
  assumes "runs h t (Ok ps)"
  shows "number_in (set ps) n \<longleftrightarrow> tk_EventType t = ''blocks'' \<and> task_number t = n"
proof (cases "tk_EventType t = ''blocks''")
  case True
  then have "blockstats_Write (hd_interval h) (tk_Event t) = Ok ps" using blocks_runs [OF assms] by simp
  with True show ?thesis using blockstats_number by (auto simp: task_number_def)
next
  case False
  then show ?thesis
    using runs_written [OF assms] block_stats_writer by (fastforce simp: number_in_iff written_by_def)
qed

lemma written_numbers:
  "list_all2 (\<lambda>t ps. runs h t (Ok ps)) ts outs \<Longrightarrow>
     number_in (set (concat outs)) n \<longleftrightarrow> (\<exists>t \<in> set ts. tk_EventType t = ''blocks'' \<and> task_number t = n)"
proof (induction rule: list_all2_induct)
  case Nil
  show ?case by (simp add: number_in_iff)
next
  case (Cons t ts ps outs)
  then show ?case by (simp add: written_number [of h])
qed

text \<open>
  A number is handed over exactly if it was before or a task of the block statistics was processed for it; and
  only such numbers get into the database.
\<close>

lemma handed_numbers:
  assumes "written_by_run (hd_database h) (runs h) d s"
  shows "number_in (set (db_handed (hd_database h) (wp_db s))) n \<longleftrightarrow> number_in (set (db_handed (hd_database h) d)) n \<or>
      (\<exists>t \<in> set (wp_processed s). tk_EventType t = ''blocks'' \<and> task_number t = n)"
    and "number_in (db_points (hd_database h) (wp_db s)) n \<Longrightarrow> number_in (db_points (hd_database h) d) n \<or>
      number_in (set (db_handed (hd_database h) d)) n \<or>
      (\<exists>t \<in> set (wp_processed s). tk_EventType t = ''blocks'' \<and> task_number t = n)"
proof -
  obtain outs where outs: "list_all2 (\<lambda>t ps. runs h t (Ok ps)) (wp_processed s) outs"
    "mset (db_handed (hd_database h) (wp_db s)) = mset (db_handed (hd_database h) d) + mset (concat outs)"
    "db_fields (hd_database h) (wp_db s) \<subseteq> db_fields (hd_database h) d \<union> fields_in (set (concat outs))"
    using assms by (auto simp: written_by_run_def)
  have "set (db_handed (hd_database h) (wp_db s)) = set (db_handed (hd_database h) d) \<union> set (concat outs)"
    using outs(2) by (metis mset_append set_append set_mset_mset)
  then show "number_in (set (db_handed (hd_database h) (wp_db s))) n \<longleftrightarrow> number_in (set (db_handed (hd_database h) d)) n \<or>
      (\<exists>t \<in> set (wp_processed s). tk_EventType t = ''blocks'' \<and> task_number t = n)"
    using written_numbers [OF outs(1)] by simp
  assume "number_in (db_points (hd_database h) (wp_db s)) n"
  then show "number_in (db_points (hd_database h) d) n \<or> number_in (set (db_handed (hd_database h) d)) n \<or>
      (\<exists>t \<in> set (wp_processed s). tk_EventType t = ''blocks'' \<and> task_number t = n)"
    using outs(3) written_numbers [OF outs(1), of n] unfolding number_in_def db_fields_def fields_in_Un by blast
qed

section \<open>Properties\<close>

text \<open>C3: With an end block, in whatever order the goroutines moved so far, the points handed to the database client are
  those that the processed tasks returned, each as often as it was returned, and nothing else; the database has no
  field besides those it had, those the client held at the start, and those of the points handed over; and each
  processed task ran its handler on the proper event of a block of the range.\<close>

theorem program_writes:
  assumes "NewPublisher cl g backSyncBlocks endBlock latest c w0 = (Ok p, w1)" and "node_numbers cl" and "endBlock \<noteq> 0"
    and "pgreach b h (program_start p w d) s" and "db_laws (hd_database h)"
  defines "pool \<equiv> pl_pool (pg_rest s)" and "db \<equiv> hd_database h"
  shows "(\<exists>outs. list_all2 (\<lambda>t ps. runs h t (Ok ps)) (wp_processed pool) outs \<and>
      mset (db_handed db (wp_db pool)) = mset (db_handed db d) + mset (concat outs) \<and>
      fields_in (db_points db (wp_db pool)) \<subseteq>
        fields_in (db_points db d \<union> set (db_handed db d) \<union> set (concat outs))) \<and>
    (\<forall>t \<in> set (wp_processed pool). \<exists>e. tk_Event t = event_of e \<and> bs_minBlock (pb_backward p) < blk_Number (be_Block e) \<and>
      blk_Number (be_Block e) \<le> endBlock \<and> service_may b (blk_Number (be_Block e)) (Ok e))"
proof -
  note facts = bounded_program [OF assms(1-4)]
  have "written_by_run db (runs h) d pool"
    unfolding pool_def db_def by (rule pipeline_written [OF facts(1) assms(5)]) (use facts(3) in blast)
  then obtain outs where outs: "list_all2 (\<lambda>t ps. runs h t (Ok ps)) (wp_processed pool) outs"
    "mset (db_handed db (wp_db pool)) = mset (db_handed db d) + mset (concat outs)"
    "db_fields db (wp_db pool) \<subseteq> db_fields db d \<union> fields_in (set (concat outs))"
    by (auto simp: written_by_run_def)
  have "fields_in (db_points db (wp_db pool)) \<subseteq> fields_in (db_points db d \<union> set (db_handed db d) \<union> set (concat outs))"
    using outs(3) unfolding db_fields_def fields_in_Un by blast
  moreover have "\<exists>e \<in> set (pr_received (pl_pub (pg_rest s))). tk_Event t = event_of e" if t: "t \<in> set (wp_processed pool)" for t
    using facts(4) processed_accounted(1) [OF t] unfolding pool_def by blast
  ultimately show ?thesis using facts(3) outs(1,2) by blast
qed

text \<open>C2: Once the program with an end block has stopped and nobody cancelled it, the statistics of every block of the range
  were handed to the database client, except where the fetch of the block failed and was logged, its handler panicked
  and was recovered, or its task is one of those that the shutdown left in the queue. (That the client delivers them is
  not claimed: it sends in batches, asynchronously, and drops a batch after five attempts.)\<close>

theorem every_block_written:
  assumes "NewPublisher cl g backSyncBlocks endBlock latest c w0 = (Ok p, w1)" and "node_numbers cl" and "endBlock \<noteq> 0"
    and "pgreach b h (program_start p w d) s" and "stopped (pg_rest s)" and "\<not> bs_cancelled (sy_backward (pg_syncing s))"
    and "db_laws (hd_database h)" and "db_handed (hd_database h) d = []"
    and "bs_minBlock (pb_backward p) < n" and "n \<le> endBlock"
  shows "number_in (set (db_handed (hd_database h) (wp_db (pl_pool (pg_rest s))))) n \<or>
    n \<in> set (bs_failed (sy_backward (pg_syncing s))) \<or>
    (\<exists>t \<in> set (wp_recovered (pl_pool (pg_rest s))). task_number t = n \<and>
      (\<exists>q. blockstats_Write (hd_interval h) (tk_Event t) = Panic q)) \<or>
    (\<exists>t \<in> set (ch_buf (wp_taskQueue (pl_pool (pg_rest s)))). tk_EventType t = ''blocks'' \<and> task_number t = n)"
proof (cases "n \<in> set (bs_failed (sy_backward (pg_syncing s)))")
  case False
  note facts = bounded_program [OF assms(1-4)]
  let ?pool = "pl_pool (pg_rest s)" and ?batches = "su_batches (pl_sub (pg_rest s))"
  have written: "written_by_run (hd_database h) (runs h) d ?pool"
    by (rule pipeline_written [OF facts(1) assms(7)]) (use facts(3) in blast)
  obtain t where t: "t \<in> set (concat ?batches)" "tk_EventType t = ''blocks''" "task_number t = n"
    using asked_task [OF assms(1-6,9,10) False] by blast
  have "t \<in># mset (wp_processed ?pool) + mset (wp_recovered ?pool) + mset (ch_buf (wp_taskQueue ?pool))"
    using t(1) stopped_accounts [OF facts(1) assms(5)] by (metis set_mset_mset)
  then consider "t \<in> set (wp_processed ?pool)" | "t \<in> set (wp_recovered ?pool)" | "t \<in> set (ch_buf (wp_taskQueue ?pool))" by auto
  then show ?thesis
  proof cases
    case 1
    then show ?thesis using handed_numbers(1) [OF written] t by blast
  next
    case 2
    then obtain q where "runs h t (Panic q)" using written by (auto simp: written_by_run_def)
    then show ?thesis using 2 t blocks_runs by metis
  next
    case 3
    then show ?thesis using t by blast
  qed
qed simp

text \<open>C6: A program with an end block starts above the last number that it read from the database, and never comes back.
  A block up to that number whose statistics are not in the database, because the run before was interrupted on its
  way down, dropped the task or lost the batch, is therefore never indexed by it: its statistics are not handed to the
  database client, and they are not in the database at any later time either.\<close>

theorem holes_stay:
  assumes "NewPublisher cl g backSyncBlocks endBlock latest c w0 = (Ok p, w1)" and "node_numbers cl" and "endBlock \<noteq> 0"
    and "Latest latest = Inr m" and "n \<le> m"
    and "pgreach b h (program_start p w d) s"
    and "db_laws (hd_database h)" and "db_handed (hd_database h) d = []" and "\<not> number_in (db_points (hd_database h) d) n"
  shows "\<not> number_in (set (db_handed (hd_database h) (wp_db (pl_pool (pg_rest s))))) n \<and>
    \<not> number_in (db_points (hd_database h) (wp_db (pl_pool (pg_rest s)))) n"
proof -
  note facts = bounded_program [OF assms(1-3,6)]
  let ?pool = "pl_pool (pg_rest s)"
  have written: "written_by_run (hd_database h) (runs h) d ?pool"
    by (rule pipeline_written [OF facts(1) assms(7)]) (use facts(3) in blast)
  have "m < task_number t" if t: "t \<in> set (wp_processed ?pool)" for t
  proof -
    obtain e where "e \<in> set (pr_received (pl_pub (pg_rest s)))" "tk_Event t = event_of e"
      using facts(4) [OF processed_accounted(1) [OF t]] by blast
    then have "bs_minBlock (pb_backward p) < task_number t" "task_number t \<le> endBlock"
      using facts(3) by (auto simp: task_number_def event_of_def)
    then show ?thesis using range_above_latest [OF assms(1-4)] by auto
  qed
  then have "\<not> (\<exists>t \<in> set (wp_processed ?pool). tk_EventType t = ''blocks'' \<and> task_number t = n)"
    using assms(5) by (auto simp: not_less [symmetric])
  moreover have "\<not> number_in (set (db_handed (hd_database h) d)) n" by (simp add: assms(8) number_in_iff)
  ultimately show ?thesis using handed_numbers [OF written, of n] assms(9) by blast
qed

section \<open>Instances\<close>

lemma sample_database: "hd_database sample_handlers = sample_db"
  by (simp add: sample_handlers_def)

theorem program_writes_witness:
  "\<exists>(s :: (int, (u32 \<times> FetchResult) list, sample_store) program) outs.
     wp_processed (pl_pool (pg_rest s)) = [blocks_task sample_event] \<and>
     list_all2 (\<lambda>t ps. runs sample_handlers t (Ok ps)) [blocks_task sample_event] outs \<and>
     mset (fst (wp_db (pl_pool (pg_rest s)))) = mset (concat outs)"
proof -
  obtain s :: "(int, (u32 \<times> FetchResult) list, sample_store) program"
    where s: "pgreach (sample_fetcher 100 0) sample_handlers (program_start bounded_publisher 0 ([], [])) s"
      "wp_processed (pl_pool (pg_rest s)) = [blocks_task sample_event]" using sample_program by blast
  from program_writes [OF bounded_NewPublisher sample_node_numbers _ s(1)] s(2) show ?thesis
    by (intro exI [of _ s]) (auto simp: sample_database sample_db_laws)
qed

theorem every_block_written_witness:
  "\<exists>s :: (int, (u32 \<times> FetchResult) list, sample_store) program. stopped (pg_rest s) \<and>
     number_in (set (fst (wp_db (pl_pool (pg_rest s))))) 1"
proof -
  obtain s :: "(int, (u32 \<times> FetchResult) list, sample_store) program"
    where s: "pgreach (sample_fetcher 100 0) sample_handlers (program_start bounded_publisher 0 ([], [])) s"
      "stopped (pg_rest s)" "\<not> bs_cancelled (sy_backward (pg_syncing s))" "bs_failed (sy_backward (pg_syncing s)) = []"
      "wp_recovered (pl_pool (pg_rest s)) = []"
      "ch_buf (wp_taskQueue (pl_pool (pg_rest s))) = tl (tasks_of blocks_first (event_of sample_event))"
    using sample_program by blast
  have "tk_EventType t \<noteq> ''blocks''" if "t \<in> set (ch_buf (wp_taskQueue (pl_pool (pg_rest s))))" for t
    using that by (auto simp: s(6) tasks_of_def blocks_first_def)
  moreover have "bs_minBlock (pb_backward bounded_publisher) < 1"
    by (simp add: bounded_publisher_def NewBackwardSyncer_def backward_minBlock_def)
  ultimately have "number_in (set (fst (wp_db (pl_pool (pg_rest s))))) 1"
    using every_block_written [OF bounded_NewPublisher sample_node_numbers _ s(1-3)]
    by (simp add: sample_database sample_db_laws s(4,5))
  then show ?thesis using s(2) by blast
qed

text \<open>
  A program that is started again up to block 3, on a database that has block 2 but not block 1: it processes block 3
  and stops, and block 1 is still missing.
\<close>

definition resumed_client :: "int client" where
  "resumed_client = sample_client\<lparr>cl_ExpandedBlock := \<lambda>r w. (case r of
       RevNumber n \<Rightarrow> Inr (sample_block n (ucast n) (ucast n - 1)) | _ \<Rightarrow> Inl ErrNotFound, w)\<rparr>"

definition resumed_fetcher :: "(int, (u32 \<times> FetchResult) list) fetcher" where
  "resumed_fetcher = (sample_fetcher 100 0)\<lparr>bf_client := resumed_client\<rparr>"

definition resumed_publisher :: "(int, (u32 \<times> FetchResult) list) publisher" where
  "resumed_publisher = \<lparr>pb_forked = 100, pb_active = 150, pb_forward = None, pb_backward = NewBackwardSyncer 3 1\<rparr>"

definition resumed_result :: "u32 \<Rightarrow> FetchResult" where
  "resumed_result n = \<lparr>fr_Block = sample_block n (ucast n) (ucast n - 1), fr_Seed = [], fr_Staker = None, fr_AuthNodes = [],
     fr_FutureSeed = []\<rparr>"

definition resumed_event :: BlockEvent where
  "resumed_event = block_event 100 0 3 (resumed_result 3) (Some (resumed_result 2))"

definition only_block_two :: sample_store where
  "only_block_two = ([], [\<lparr>pt_Measurement = ''block_stats'', pt_Tags = [], pt_Fields = [(KStr ''best_block_number'', VU32 2)],
     pt_Time = 20\<rparr>])"

lemma resumed_numbers: "node_numbers resumed_client"
  by (simp add: node_numbers_def resumed_client_def sample_block_def)

lemma resumed_NewPublisher:
  "NewPublisher resumed_client \<lparr>gc_HAYABUSA = Some 100, gc_HayabusaTP = Some 50\<rparr> 3 3 (Record (QUint64 2)) [] 0 = (Ok resumed_publisher, 0)"
  by (simp add: NewPublisher_def first_block_def hayabusa_heights_def first_and_previous_def resumed_publisher_def
      resumed_client_def sample_block_def back_sync_blocks_def outcome_simps Let_def)

lemma resumed_simps:
  "bf_lru resumed_fetcher = sample_lru" "bf_timer resumed_fetcher = sample_timer" "bf_client resumed_fetcher = resumed_client"
  "bf_hayabusaForkedBlock resumed_fetcher = 100" "bf_hayabusaActiveBlock resumed_fetcher = 0"
  by (simp_all add: resumed_fetcher_def)

lemma resumed_attempt:
  assumes "n = 2 \<or> n = 3"
  shows "fetch_attempt resumed_fetcher n w = (Ok (resumed_result n), w)"
proof -
  let ?blk = "sample_block n (ucast n) (ucast n - 1)"
  have e: "cl_ExpandedBlock resumed_client (RevNumber n) w = (Inr ?blk, w)" by (simp add: resumed_client_def)
  have p: "blk_ParentID ?blk = Bytes32 (ucast n - 1)" by (simp add: sample_block_def)
  have s: "fetchSeed sample_cfg cd cl (Bytes32 (ucast n - 1)) w = (Ok [], w)" for cd and cl :: "int client" and w
    using assms by (auto intro!: sample_seed simp: id_uint32_def)
  have "(2 + 1 :: u32) mod 8640 \<noteq> 0" "(3 + 1 :: u32) mod 8640 \<noteq> 0" by simp_all
  then have m: "(n + 1) mod cfg_SeederInterval sample_cfg \<noteq> 0"
    unfolding sample_cfg_def chain_config.simps using assms by metis
  have "n < 100" "n \<noteq> 0" using assms by auto
  note m = m this
  show ?thesis
    using m by (simp add: fetch_attempt_def resumed_fetcher_def e p s callW_def wrapW_def wrap_err_def
        linorder_not_le [THEN iffD2] resumed_result_def)
qed

lemma resumed_Fetch:
  assumes "n = 2 \<or> n = 3" and "map_of c n = None"
  shows "FetchBlock resumed_fetcher n (c, w) = Some (Ok (resumed_result n), ((n, resumed_result n) # c, w))"
  using assms(2)
  by (simp add: FetchBlock_def RetryIncreasing_def RetryIncreasing_loop.simps resumed_attempt [OF assms(1)] resumed_simps sample_lru_def)

lemma resumed_one_block: "one_block resumed_fetcher resumed_publisher 3 resumed_event"
proof -
  have "ProcessBlock (FetchBlock resumed_fetcher) 100 0 3 ([], 0) =
      Some (Ok resumed_event, ([(2, resumed_result 2), (3, resumed_result 3)], 0))"
    by (simp add: ProcessBlock_def resumed_Fetch resumed_event_def)
  moreover have "cache_inv resumed_fetcher ([], 0)"
    by (simp add: cache_inv_def resumed_simps sample_lru_laws resumed_numbers)
  ultimately have "service_may resumed_fetcher 3 (Ok resumed_event)"
    unfolding service_may_def resumed_simps by blast
  then show ?thesis
    by (simp add: one_block_def resumed_publisher_def resumed_event_def block_event_def no_fork_def blockstats_Write_def
        fee_fields_def resumed_result_def event_of_def sample_block_def Let_def)
qed

theorem holes_stay_witness:
  "\<exists>s :: (int, (u32 \<times> FetchResult) list, sample_store) program.
     wp_processed (pl_pool (pg_rest s)) = [blocks_task resumed_event] \<and> stopped (pg_rest s) \<and>
     number_in (set (fst (wp_db (pl_pool (pg_rest s))))) 3 \<and>
     number_in (set (snd only_block_two)) 2 \<and> \<not> number_in (set (snd only_block_two)) 1 \<and>
     \<not> number_in (set (fst (wp_db (pl_pool (pg_rest s))))) 1 \<and> \<not> number_in (set (snd (wp_db (pl_pool (pg_rest s))))) 1"
proof -
  obtain s :: "(int, (u32 \<times> FetchResult) list, sample_store) program"
    where s: "pgreach resumed_fetcher sample_handlers (program_start resumed_publisher 0 only_block_two) s" "stopped (pg_rest s)"
      "wp_processed (pl_pool (pg_rest s)) = [blocks_task resumed_event]"
      "wp_db (pl_pool (pg_rest s)) = processTask sample_db (blockstats_Write 10 (event_of resumed_event)) only_block_two"
    using one_block_program [OF resumed_one_block, of only_block_two] by blast
  obtain q where q: "blockstats_Write 10 (event_of resumed_event) = Ok [q]"
    using resumed_one_block by (auto simp: one_block_def)
  have "blk_Number (e_Block (event_of resumed_event)) = 3"
    by (simp add: resumed_event_def block_event_def event_of_def resumed_result_def sample_block_def)
  then have "number_in (set (fst (wp_db (pl_pool (pg_rest s))))) 3"
    using blockstats_number [OF q, of 3] by (simp add: s(4) q processTask_def only_block_two_def)
  moreover have two: "number_in (set (snd only_block_two)) 2" "\<not> number_in (set (snd only_block_two)) 1"
    by (simp_all add: number_in_iff only_block_two_def)
  moreover have "Latest (Record (QUint64 2)) = Inr 2" by simp
  from holes_stay [OF resumed_NewPublisher resumed_numbers _ this _ s(1), of 1] two(2)
  have "\<not> number_in (set (fst (wp_db (pl_pool (pg_rest s))))) 1 \<and> \<not> number_in (set (snd (wp_db (pl_pool (pg_rest s))))) 1"
    by (simp add: sample_database sample_db_laws only_block_two_def)
  ultimately show ?thesis using s(2,3) by blast
qed

end
