(* ===== verification/SharedFetch.thy ===== *)
theory SharedFetch
  imports BackwardSyncer
begin

text \<open>
  The event service with many callers at once. The backward workers and the forward syncer call
  \<^verbatim>\<open>ProcessBlock\<close> (\<^verbatim>\<open>pubsub/event_block.go\<close>) concurrently, and the calls of \<^verbatim>\<open>FetchBlock\<close>
  (\<^verbatim>\<open>pubsub/block_fetcher.go\<close>) they make meet in a \<open>singleflight\<close> group. BlockFetcher and
  EventBlock see one call as one step; here its requests, sleeps and accesses to the cache interleave with
  those of the other callers, and what comes out is shown to be what the one-step reading allows.
\<close>

section \<open>The group\<close>

text \<open>
  \<open>singleflight.Group\<close>, whose documentation promises that one execution is in flight for a key at a
  time and that a duplicate caller waits for it and receives the same results. The keys
  \<open>block_<number>\<close> are the numbers.
\<close>

record 'g flight_group =
  sg_busy :: "'g \<Rightarrow> u32 \<Rightarrow> bool"
  sg_enter :: "'g \<Rightarrow> u32 \<Rightarrow> 'g"
  sg_leave :: "'g \<Rightarrow> u32 \<Rightarrow> 'g"

definition group_laws :: "'g flight_group \<Rightarrow> bool" where
  "group_laws gr \<longleftrightarrow>
     (\<forall>g n m. sg_busy gr (sg_enter gr g n) m \<longleftrightarrow> m = n \<or> sg_busy gr g m) \<and>
     (\<forall>g n m. sg_busy gr (sg_leave gr g n) m \<longleftrightarrow> m \<noteq> n \<and> sg_busy gr g m)"

section \<open>Flights and callers\<close>

text \<open>
  Where the function given to \<open>Do\<close> stands: before the look into the cache, between two attempts of
  \<open>RetryIncreasing\<close> (start time and delay), asleep until a time, with a result not stored yet, or
  about to return.
\<close>

datatype flight =
    Looking
  | Trying int int
  | Asleep int int int
  | Storing FetchResult
  | Landing "FetchResult outcome"

text \<open>A call of \<open>ProcessBlock\<close>: its number, and the block's result once it is there.\<close>

type_synonym request = "u32 \<times> FetchResult option"

definition wanted :: "request \<Rightarrow> u32" where
  "wanted q = (case q of (n, None) \<Rightarrow> n | (n, Some cur) \<Rightarrow> n - 1)"

datatype reader = RIdle | RReady request | RWaiting request | RDone u32 "BlockEvent outcome"

text \<open>What a caller of \<open>FetchBlock\<close> does with its result.\<close>

definition deliver :: "u32 \<Rightarrow> u32 \<Rightarrow> request \<Rightarrow> FetchResult outcome \<Rightarrow> reader" where
  "deliver forked active q r =
     (case q of
        (n, None) \<Rightarrow>
          (case r of
             Panic p \<Rightarrow> RDone n (Panic p)
           | Err e \<Rightarrow> RDone n (Err (ErrWrap ''failed to fetch block'' e))
           | Ok cur \<Rightarrow> if 1 < n then RReady (n, Some cur) else RDone n (Ok (block_event forked active n cur None)))
      | (n, Some cur) \<Rightarrow>
          (case r of
             Panic p \<Rightarrow> RDone n (Panic p)
           | Err e \<Rightarrow> RDone n (Err (ErrWrap ''failed to fetch previous block'' e))
           | Ok prev \<Rightarrow> RDone n (Ok (block_event forked active n cur (Some prev)))))"

text \<open>Everyone who waits for the number gets the result.\<close>

definition land :: "u32 \<Rightarrow> u32 \<Rightarrow> u32 \<Rightarrow> FetchResult outcome \<Rightarrow> reader \<Rightarrow> reader" where
  "land forked active n r v =
     (case v of RWaiting q \<Rightarrow> if wanted q = n then deliver forked active q r else v | _ \<Rightarrow> v)"

record ('w, 'c, 'g) sharing =
  sh_cache :: 'c
  sh_world :: 'w
  sh_group :: 'g
  sh_flights :: "u32 \<rightharpoonup> flight"
  sh_readers :: "reader list"
  sh_fetched :: "u32 list"
  sh_crashed :: bool

definition sharing_start :: "nat \<Rightarrow> 'c \<Rightarrow> 'w \<Rightarrow> 'g \<Rightarrow> ('w, 'c, 'g) sharing" where
  "sharing_start k c w g = \<lparr>sh_cache = c, sh_world = w, sh_group = g, sh_flights = Map.empty,
     sh_readers = replicate k RIdle, sh_fetched = [], sh_crashed = False\<rparr>"

definition reader_at :: "('w, 'c, 'g) sharing \<Rightarrow> nat \<Rightarrow> reader \<Rightarrow> bool" where
  "reader_at s i v \<longleftrightarrow> i < length (sh_readers s) \<and> sh_readers s ! i = v"

definition set_reader :: "nat \<Rightarrow> reader \<Rightarrow> ('w, 'c, 'g) sharing \<Rightarrow> ('w, 'c, 'g) sharing" where
  "set_reader i v s = s\<lparr>sh_readers := (sh_readers s)[i := v]\<rparr>"

definition set_flight :: "u32 \<Rightarrow> flight \<Rightarrow> ('w, 'c, 'g) sharing \<Rightarrow> ('w, 'c, 'g) sharing" where
  "set_flight n f s = s\<lparr>sh_flights := (sh_flights s)(n \<mapsto> f)\<rparr>"

section \<open>Steps\<close>

text \<open>
  Callers begin a call, start a flight or join one, and take their answer; a flight looks into the
  cache, tries, sleeps, stores and lands; in between time passes and the node moves on. A panic of an
  attempt ends the process. \<open>sh_fetched\<close> is the record of the numbers fetched from the node with success.
\<close>

inductive shstep ::
  "('w, 'c) fetcher \<Rightarrow> 'g flight_group \<Rightarrow> ('w, 'c, 'g) sharing \<Rightarrow> ('w, 'c, 'g) sharing \<Rightarrow> bool" for b gr where
  begins: "\<lbrakk>\<not> sh_crashed s; reader_at s i RIdle\<rbrakk> \<Longrightarrow> shstep b gr s (set_reader i (RReady (n, None)) s)"
| launches: "\<lbrakk>\<not> sh_crashed s; reader_at s i (RReady q); \<not> sg_busy gr (sh_group s) (wanted q)\<rbrakk>
    \<Longrightarrow> shstep b gr s (set_reader i (RWaiting q)
          (set_flight (wanted q) Looking (s\<lparr>sh_group := sg_enter gr (sh_group s) (wanted q)\<rparr>)))"
| joins: "\<lbrakk>\<not> sh_crashed s; reader_at s i (RReady q); sg_busy gr (sh_group s) (wanted q)\<rbrakk>
    \<Longrightarrow> shstep b gr s (set_reader i (RWaiting q) s)"
| hits: "\<lbrakk>\<not> sh_crashed s; sh_flights s n = Some Looking; lru_Get (bf_lru b) (sh_cache s) n = (Some r, c)\<rbrakk>
    \<Longrightarrow> shstep b gr s (set_flight n (Landing (Ok r)) (s\<lparr>sh_cache := c\<rparr>))"
| misses: "\<lbrakk>\<not> sh_crashed s; sh_flights s n = Some Looking; lru_Get (bf_lru b) (sh_cache s) n = (None, c)\<rbrakk>
    \<Longrightarrow> shstep b gr s (set_flight n (Trying (tm_now (bf_timer b) (sh_world s)) (ms 100)) (s\<lparr>sh_cache := c\<rparr>))"
| succeeds: "\<lbrakk>\<not> sh_crashed s; sh_flights s n = Some (Trying t0 d); fetch_attempt b n (sh_world s) = (Ok r, w)\<rbrakk>
    \<Longrightarrow> shstep b gr s (set_flight n (Storing r) (s\<lparr>sh_world := w, sh_fetched := sh_fetched s @ [n]\<rparr>))"
| fails: "\<lbrakk>\<not> sh_crashed s; sh_flights s n = Some (Trying t0 d); fetch_attempt b n (sh_world s) = (Err e, w);
      \<not> sec 120 < tm_now (bf_timer b) w - t0\<rbrakk>
    \<Longrightarrow> shstep b gr s (set_flight n (Asleep t0 (next_delay (sec 30) d) (tm_now (bf_timer b) w + d)) (s\<lparr>sh_world := w\<rparr>))"
| times_out: "\<lbrakk>\<not> sh_crashed s; sh_flights s n = Some (Trying t0 d); fetch_attempt b n (sh_world s) = (Err e, w);
      sec 120 < tm_now (bf_timer b) w - t0\<rbrakk>
    \<Longrightarrow> shstep b gr s (set_flight n (Landing (Err (ErrWrap ''retry timeout, latest err'' e))) (s\<lparr>sh_world := w\<rparr>))"
| panics: "\<lbrakk>\<not> sh_crashed s; sh_flights s n = Some (Trying t0 d); fetch_attempt b n (sh_world s) = (Panic p, w)\<rbrakk>
    \<Longrightarrow> shstep b gr s (s\<lparr>sh_world := w, sh_crashed := True\<rparr>)"
| wakes: "\<lbrakk>\<not> sh_crashed s; sh_flights s n = Some (Asleep t0 d wake); wake \<le> tm_now (bf_timer b) (sh_world s)\<rbrakk>
    \<Longrightarrow> shstep b gr s (set_flight n (Trying t0 d) s)"
| stores: "\<lbrakk>\<not> sh_crashed s; sh_flights s n = Some (Storing r)\<rbrakk>
    \<Longrightarrow> shstep b gr s (set_flight n (Landing (Ok r)) (s\<lparr>sh_cache := lru_Add (bf_lru b) (sh_cache s) n r\<rparr>))"
| lands: "\<lbrakk>\<not> sh_crashed s; sh_flights s n = Some (Landing r)\<rbrakk>
    \<Longrightarrow> shstep b gr s (s\<lparr>sh_group := sg_leave gr (sh_group s) n, sh_flights := (sh_flights s)(n := None),
          sh_readers := map (land (bf_hayabusaForkedBlock b) (bf_hayabusaActiveBlock b) n r) (sh_readers s)\<rparr>)"
| takes: "\<lbrakk>\<not> sh_crashed s; reader_at s i (RDone n r)\<rbrakk> \<Longrightarrow> shstep b gr s (set_reader i RIdle s)"
| passes: "\<lbrakk>\<not> sh_crashed s; tm_now (bf_timer b) (sh_world s) \<le> tm_now (bf_timer b) w\<rbrakk>
    \<Longrightarrow> shstep b gr s (s\<lparr>sh_world := w\<rparr>)"

inductive shreach ::
  "('w, 'c) fetcher \<Rightarrow> 'g flight_group \<Rightarrow> ('w, 'c, 'g) sharing \<Rightarrow> ('w, 'c, 'g) sharing \<Rightarrow> bool" for b gr s0 where
  start: "shreach b gr s0 s0"
| step: "shreach b gr s0 s \<Longrightarrow> shstep b gr s t \<Longrightarrow> shreach b gr s0 t"

lemma set_simps [simp]:
  "sh_cache (set_reader i v s) = sh_cache s" "sh_world (set_reader i v s) = sh_world s" "sh_group (set_reader i v s) = sh_group s"
  "sh_flights (set_reader i v s) = sh_flights s" "sh_fetched (set_reader i v s) = sh_fetched s"
  "sh_crashed (set_reader i v s) = sh_crashed s" "sh_readers (set_reader i v s) = (sh_readers s)[i := v]"
  "sh_cache (set_flight n f s) = sh_cache s" "sh_world (set_flight n f s) = sh_world s" "sh_group (set_flight n f s) = sh_group s"
  "sh_flights (set_flight n f s) = (sh_flights s)(n \<mapsto> f)" "sh_fetched (set_flight n f s) = sh_fetched s"
  "sh_crashed (set_flight n f s) = sh_crashed s" "sh_readers (set_flight n f s) = sh_readers s"
  by (simp_all add: set_reader_def set_flight_def)

section \<open>What the cache, the flights and the callers hold\<close>

text \<open>A result that an attempt made for a number that some cache did not have.\<close>

definition fetched_result :: "('w, 'c) fetcher \<Rightarrow> u32 \<Rightarrow> FetchResult \<Rightarrow> bool" where
  "fetched_result b n r \<longleftrightarrow>
     (\<exists>c w w'. cache_inv b (c, w) \<and> fst (lru_Get (bf_lru b) c n) = None \<and> fetch_attempt b n w = (Ok r, w'))"

text \<open>An error that was met after two minutes of attempts.\<close>

definition timed_out :: "('w, 'c) fetcher \<Rightarrow> u32 \<Rightarrow> gerror \<Rightarrow> bool" where
  "timed_out b n e \<longleftrightarrow> (\<exists>e' w w' t0. e = ErrWrap ''retry timeout, latest err'' e' \<and>
     fetch_attempt b n w = (Err e', w') \<and> t0 + sec 120 < tm_now (bf_timer b) w')"

definition cache_ok :: "('w, 'c) fetcher \<Rightarrow> ('w, 'c, 'g) sharing \<Rightarrow> bool" where
  "cache_ok b s \<longleftrightarrow> cache_inv b (sh_cache s, sh_world s) \<and>
     (\<forall>n r. fst (lru_Get (bf_lru b) (sh_cache s) n) = Some r \<longrightarrow> fetched_result b n r)"

text \<open>Until a flight stores its result the cache does not have the number.\<close>

fun flight_ok :: "('w, 'c) fetcher \<Rightarrow> 'c \<Rightarrow> u32 \<Rightarrow> flight \<Rightarrow> bool" where
  "flight_ok b c n Looking = True"
| "flight_ok b c n (Trying t0 d) = (fst (lru_Get (bf_lru b) c n) = None)"
| "flight_ok b c n (Asleep t0 d wake) = (fst (lru_Get (bf_lru b) c n) = None)"
| "flight_ok b c n (Storing r) = (fst (lru_Get (bf_lru b) c n) = None \<and> fetched_result b n r)"
| "flight_ok b c n (Landing (Ok r)) = fetched_result b n r"
| "flight_ok b c n (Landing (Err e)) = timed_out b n e"
| "flight_ok b c n (Landing (Panic p)) = False"

definition flights_ok :: "('w, 'c) fetcher \<Rightarrow> 'g flight_group \<Rightarrow> ('w, 'c, 'g) sharing \<Rightarrow> bool" where
  "flights_ok b gr s \<longleftrightarrow> (\<forall>n. sg_busy gr (sh_group s) n \<longleftrightarrow> sh_flights s n \<noteq> None) \<and>
     (\<forall>n f. sh_flights s n = Some f \<longrightarrow> flight_ok b (sh_cache s) n f)"

fun request_ok :: "('w, 'c) fetcher \<Rightarrow> request \<Rightarrow> bool" where
  "request_ok b (n, None) = True"
| "request_ok b (n, Some cur) = (1 < n \<and> fetched_result b n cur)"

text \<open>The answer of a call: an event that the service read as one step may give, or the error of a fetch.\<close>

fun answer_ok :: "('w, 'c) fetcher \<Rightarrow> u32 \<Rightarrow> BlockEvent outcome \<Rightarrow> bool" where
  "answer_ok b n (Ok e) = service_may b n (Ok e)"
| "answer_ok b n (Err e) = (\<exists>e'. e = ErrWrap ''failed to fetch block'' e' \<and> timed_out b n e' \<or>
     e = ErrWrap ''failed to fetch previous block'' e' \<and> 1 < n \<and> timed_out b (n - 1) e')"
| "answer_ok b n (Panic p) = False"

fun reader_ok :: "('w, 'c) fetcher \<Rightarrow> (u32 \<Rightarrow> bool) \<Rightarrow> reader \<Rightarrow> bool" where
  "reader_ok b flying RIdle = True"
| "reader_ok b flying (RReady q) = request_ok b q"
| "reader_ok b flying (RWaiting q) = (request_ok b q \<and> flying (wanted q))"
| "reader_ok b flying (RDone n r) = answer_ok b n r"

definition readers_ok :: "('w, 'c) fetcher \<Rightarrow> ('w, 'c, 'g) sharing \<Rightarrow> bool" where
  "readers_ok b s \<longleftrightarrow> (\<forall>v \<in> set (sh_readers s). reader_ok b (\<lambda>n. sh_flights s n \<noteq> None) v)"

section \<open>Events made of fetched results\<close>

lemma fetched_result_good: "fetched_result b n r \<Longrightarrow> good_result b n r"
  by (auto simp: fetched_result_def cache_inv_def intro: fetch_attempt_good)

lemma first_try:
  "fetch_attempt b n w = (Ok r, w') \<Longrightarrow> fst (lru_Get (bf_lru b) c n) = None \<Longrightarrow> \<exists>s'. FetchBlock b n (c, w) = Some (Ok r, s')"
  by (cases "lru_Get (bf_lru b) c n") (simp add: FetchBlock_def RetryIncreasing_def RetryIncreasing_loop.simps)

lemma shared_first:
  assumes "fetched_result b n cur" and "\<not> 1 < n"
  shows "service_may b n (Ok (block_event (bf_hayabusaForkedBlock b) (bf_hayabusaActiveBlock b) n cur None))"
proof -
  obtain c w w' where c: "cache_inv b (c, w)" "fst (lru_Get (bf_lru b) c n) = None" "fetch_attempt b n w = (Ok cur, w')"
    using assms(1) by (auto simp: fetched_result_def)
  obtain s' where "FetchBlock b n (c, w) = Some (Ok cur, s')" using first_try [OF c(3,2)] by blast
  then show ?thesis using c(1) assms(2) unfolding service_may_def
    by (intro exI [of _ "(c, w)"] exI [of _ s']) (simp add: ProcessBlock_def)
qed

lemma same_lookups: "lru_laws l \<Longrightarrow> lru_Get l c n = (x, c') \<Longrightarrow> fst (lru_Get l c' m) = fst (lru_Get l c m)"
  unfolding lru_laws_def by (metis snd_conv)

lemma added_lookup:
  "lru_laws l \<Longrightarrow> fst (lru_Get l (lru_Add l c n r) m) = Some r' \<Longrightarrow> m = n \<and> r' = r \<or> fst (lru_Get l c m) = Some r'"
  unfolding lru_laws_def by metis

text \<open>A cache that has the block but not its parent answers with exactly the two results.\<close>

lemma shared_later:
  assumes "fetched_result b n cur" and "fetched_result b (n - 1) prev" and "1 < n"
  shows "service_may b n (Ok (block_event (bf_hayabusaForkedBlock b) (bf_hayabusaActiveBlock b) n cur (Some prev)))"
proof -
  obtain c w w' where c: "cache_inv b (c, w)" "fst (lru_Get (bf_lru b) c (n - 1)) = None" "fetch_attempt b (n - 1) w = (Ok prev, w')"
    using assms(2) by (auto simp: fetched_result_def)
  let ?c = "lru_Add (bf_lru b) c n cur"
  obtain x c1 where get: "lru_Get (bf_lru b) ?c n = (x, c1)" by fastforce
  have laws: "lru_laws (bf_lru b)" using c(1) by (simp add: cache_inv_def)
  have inv: "cache_inv b (?c, w)" using cache_inv_Add [OF c(1) fetched_result_good [OF assms(1)]] .
  have "x = Some cur" using laws get unfolding lru_laws_def by (metis fst_conv)
  then have 1: "FetchBlock b n (?c, w) = Some (Ok cur, (c1, w))" by (simp add: FetchBlock_def get)
  have "n - 1 \<noteq> n" by simp
  then have "fst (lru_Get (bf_lru b) c1 (n - 1)) = None"
    using same_lookups [OF laws get] added_lookup [OF laws] c(2) by (metis not_None_eq)
  from first_try [OF c(3) this] obtain s' where "FetchBlock b (n - 1) (c1, w) = Some (Ok prev, s')" by blast
  then show ?thesis using inv 1 assms(3) unfolding service_may_def
    by (intro exI [of _ "(?c, w)"] exI [of _ s']) (simp add: ProcessBlock_def)
qed

section \<open>Preservation\<close>

lemma cache_ok_laws: "cache_ok b s \<Longrightarrow> lru_laws (bf_lru b)"
  by (simp add: cache_ok_def cache_inv_def)

lemma flights_okD: "flights_ok b gr s \<Longrightarrow> sh_flights s n = Some f \<Longrightarrow> flight_ok b (sh_cache s) n f"
  by (auto simp: flights_ok_def)

lemma cache_ok_step:
  assumes "shstep b gr s t" and "cache_ok b s" and "flights_ok b gr s"
  shows "cache_ok b t"
  using assms
proof (induction rule: shstep.induct)
  case (hits s n r c)
  note laws = cache_ok_laws [OF hits.prems(1)]
  from hits.prems(1) show ?case
    using same_lookups [OF laws hits(3)] cache_inv_Get [OF _ hits(3)] by (auto simp: cache_ok_def)
next
  case (misses s n c)
  note laws = cache_ok_laws [OF misses.prems(1)]
  from misses.prems(1) show ?case
    using same_lookups [OF laws misses(3)] cache_inv_Get [OF _ misses(3)] by (auto simp: cache_ok_def)
next
  case (stores s n r)
  have "fetched_result b n r" using flights_okD [OF stores.prems(2) stores(2)] by simp
  then show ?case
    using stores.prems(1) cache_inv_Add [OF _ fetched_result_good] added_lookup [OF cache_ok_laws [OF stores.prems(1)], of _ n r]
    by (fastforce simp: cache_ok_def)
qed (auto simp: cache_ok_def intro: cache_inv_world)

lemma flight_ok_mono:
  "flight_ok b c n f \<Longrightarrow> (fst (lru_Get (bf_lru b) c n) = None \<Longrightarrow> fst (lru_Get (bf_lru b) c' n) = None) \<Longrightarrow> flight_ok b c' n f"
  by (induction b c n f rule: flight_ok.induct) auto

text \<open>A step of the flight for one number leaves the flights for the others in order.\<close>

lemma flights_ok_set:
  assumes "flights_ok b gr s" and "sh_flights s n \<noteq> None" and "flight_ok b c n f"
    and "\<And>m. m \<noteq> n \<Longrightarrow> fst (lru_Get (bf_lru b) (sh_cache s) m) = None \<Longrightarrow> fst (lru_Get (bf_lru b) c m) = None"
    and "sh_group t = sh_group s" and "sh_flights t = (sh_flights s)(n \<mapsto> f)" and "sh_cache t = c"
  shows "flights_ok b gr t"
  using assms(1,2,3,5-7) flight_ok_mono [OF flights_okD [OF assms(1)] assms(4)]
  by (auto simp: flights_ok_def)

lemma flights_ok_step:
  assumes "shstep b gr s t" and "flights_ok b gr s" and "cache_ok b s" and "group_laws gr"
  shows "flights_ok b gr t"
  using assms
proof (induction rule: shstep.induct)
  case (launches s i q)
  then show ?case by (auto simp: flights_ok_def group_laws_def)
next
  case (hits s n r c)
  note same = same_lookups [OF cache_ok_laws [OF hits.prems(2)] hits(3)]
  have fetched: "fetched_result b n r" using hits(3) hits.prems(2) by (auto simp: cache_ok_def)
  show ?case
    by (rule flights_ok_set [OF hits.prems(1), of n c "Landing (Ok r)"]) (use fetched same hits(2) in simp_all)
next
  case (misses s n c)
  note same = same_lookups [OF cache_ok_laws [OF misses.prems(2)] misses(3)]
  have none: "fst (lru_Get (bf_lru b) (sh_cache s) n) = None" using misses(3) by simp
  show ?case
    by (rule flights_ok_set [OF misses.prems(1), of n c "Trying (tm_now (bf_timer b) (sh_world s)) (ms 100)"])
      (use none same misses(2) in simp_all)
next
  case (succeeds s n t0 d r w)
  have none: "fst (lru_Get (bf_lru b) (sh_cache s) n) = None" using flights_okD [OF succeeds.prems(1) succeeds(2)] by simp
  then have fetched: "fetched_result b n r" using succeeds(3) succeeds.prems(2) by (auto simp: fetched_result_def cache_ok_def)
  show ?case
    by (rule flights_ok_set [OF succeeds.prems(1), of n "sh_cache s" "Storing r"]) (use none fetched succeeds(2) in simp_all)
next
  case (fails s n t0 d e w)
  show ?case
    by (rule flights_ok_set [OF fails.prems(1), of n "sh_cache s" "Asleep t0 (next_delay (sec 30) d) (tm_now (bf_timer b) w + d)"])
      (use fails(2) flights_okD [OF fails.prems(1) fails(2)] in simp_all)
next
  case (times_out s n t0 d e w)
  let ?e = "ErrWrap ''retry timeout, latest err'' e"
  have late: "timed_out b n ?e" using times_out(3,4) unfolding timed_out_def
    by (intro exI [of _ e] exI [of _ "sh_world s"] exI [of _ w] exI [of _ t0]) simp
  show ?case
    by (rule flights_ok_set [OF times_out.prems(1), of n "sh_cache s" "Landing (Err ?e)"]) (use late times_out(2) in simp_all)
next
  case (wakes s n t0 d wake)
  show ?case
    by (rule flights_ok_set [OF wakes.prems(1), of n "sh_cache s" "Trying t0 d"])
      (use wakes(2) flights_okD [OF wakes.prems(1) wakes(2)] in simp_all)
next
  case (stores s n r)
  let ?c = "lru_Add (bf_lru b) (sh_cache s) n r"
  have fetched: "fetched_result b n r" using flights_okD [OF stores.prems(1) stores(2)] by simp
  have others: "fst (lru_Get (bf_lru b) ?c m) = None" if "m \<noteq> n" "fst (lru_Get (bf_lru b) (sh_cache s) m) = None" for m
    using added_lookup [OF cache_ok_laws [OF stores.prems(2)], of "sh_cache s" n r m] that
    by (cases "fst (lru_Get (bf_lru b) ?c m)") auto
  show ?case
    by (rule flights_ok_set [OF stores.prems(1), of n ?c "Landing (Ok r)"]) (use fetched others stores(2) in simp_all)
next
  case (lands s n r)
  then show ?case by (auto simp: flights_ok_def group_laws_def)
qed (auto simp: flights_ok_def)

text \<open>The callers.\<close>

lemma deliver_ok:
  assumes "request_ok b q" and "flight_ok b c (wanted q) (Landing r)"
  shows "reader_ok b flying (deliver (bf_hayabusaForkedBlock b) (bf_hayabusaActiveBlock b) q r)"
proof (cases q)
  case (Pair n cur)
  then show ?thesis
    using assms shared_first shared_later
    by (cases cur; cases r) (auto simp: deliver_def wanted_def)
qed

lemma reader_ok_mono: "reader_ok b flying v \<Longrightarrow> (\<And>n. flying n \<Longrightarrow> flying' n) \<Longrightarrow> reader_ok b flying' v"
  by (cases v) auto

lemma readers_ok_set:
  assumes "readers_ok b s" and "reader_ok b (\<lambda>n. sh_flights t n \<noteq> None) v"
    and "\<And>n. sh_flights s n \<noteq> None \<Longrightarrow> sh_flights t n \<noteq> None" and "sh_readers t = (sh_readers s)[i := v]"
  shows "readers_ok b t"
proof -
  have "reader_ok b (\<lambda>n. sh_flights t n \<noteq> None) u" if "u \<in> set (sh_readers t)" for u
  proof -
    have "u = v \<or> u \<in> set (sh_readers s)" using that assms(4) set_update_subset_insert by fastforce
    then show ?thesis using assms(1,2) reader_ok_mono [of b _ u, OF _ assms(3)] by (auto simp: readers_ok_def)
  qed
  then show ?thesis by (simp add: readers_ok_def)
qed

lemma readers_okD: "readers_ok b s \<Longrightarrow> reader_at s i v \<Longrightarrow> reader_ok b (\<lambda>n. sh_flights s n \<noteq> None) v"
  by (auto simp: readers_ok_def reader_at_def)

lemma readers_ok_flights:
  "readers_ok b s \<Longrightarrow> sh_readers t = sh_readers s \<Longrightarrow> (\<And>n. sh_flights s n \<noteq> None \<Longrightarrow> sh_flights t n \<noteq> None) \<Longrightarrow> readers_ok b t"
  unfolding readers_ok_def by (auto elim!: reader_ok_mono)

lemma readers_ok_step:
  assumes "shstep b gr s t" and "readers_ok b s" and "flights_ok b gr s"
  shows "readers_ok b t"
  using assms
proof (induction rule: shstep.induct)
  case (begins s i n)
  show ?case by (rule readers_ok_set [OF begins.prems(1)]) simp_all
next
  case (launches s i q)
  from readers_okD [OF launches.prems(1) launches(2)] have "request_ok b q" by simp
  then show ?case by (intro readers_ok_set [OF launches.prems(1)]) simp_all
next
  case (joins s i q)
  from readers_okD [OF joins.prems(1) joins(2)] have "request_ok b q" by simp
  moreover have "sh_flights s (wanted q) \<noteq> None" using joins by (simp add: flights_ok_def)
  ultimately show ?case by (intro readers_ok_set [OF joins.prems(1)]) simp_all
next
  case (lands s n r)
  let ?v = "land (bf_hayabusaForkedBlock b) (bf_hayabusaActiveBlock b) n r"
  have flight: "flight_ok b (sh_cache s) n (Landing r)" using lands.prems(2) lands(2) by (rule flights_okD)
  have "reader_ok b (\<lambda>m. ((sh_flights s)(n := None)) m \<noteq> None) (?v v)" if "v \<in> set (sh_readers s)" for v
  proof -
    have ok: "reader_ok b (\<lambda>m. sh_flights s m \<noteq> None) v" using lands.prems(1) that by (simp add: readers_ok_def)
    show ?thesis
    proof (cases "\<exists>q. v = RWaiting q \<and> wanted q = n")
      case True
      then show ?thesis using ok flight deliver_ok by (auto simp: land_def)
    next
      case False
      then have "?v v = v" by (auto simp: land_def split: reader.split)
      then show ?thesis using ok False by (cases v) auto
    qed
  qed
  then show ?case by (simp add: readers_ok_def)
next
  case (takes s i n r)
  show ?case by (rule readers_ok_set [OF takes.prems(1)]) simp_all
qed (erule readers_ok_flights; simp)+

text \<open>All of it in every reachable state.\<close>

definition empty_lru :: "('w, 'c) fetcher \<Rightarrow> 'c \<Rightarrow> bool" where
  "empty_lru b c \<longleftrightarrow> lru_laws (bf_lru b) \<and> node_numbers (bf_client b) \<and> (\<forall>n. fst (lru_Get (bf_lru b) c n) = None)"

lemma sharing_inv:
  assumes "shreach b gr (sharing_start k c w g) s" and "empty_lru b c" and "group_laws gr" and "\<And>n. \<not> sg_busy gr g n"
  shows "cache_ok b s \<and> flights_ok b gr s \<and> readers_ok b s"
  using assms(1)
proof (induction rule: shreach.induct)
  case start
  show ?case using assms(2,4)
    by (simp add: sharing_start_def cache_ok_def cache_inv_def empty_lru_def flights_ok_def readers_ok_def)
qed (use assms(3) cache_ok_step flights_ok_step readers_ok_step in blast)

section \<open>Fetching once\<close>

definition cacheSize :: nat where
  "cacheSize = 100"

text \<open>
  The states of a cache that was created as \<open>c0\<close>, with the keys added so far, and what a least-recently-used cache
  of a given size promises: as long as no more keys were added than fit, none is evicted.
\<close>

inductive lru_runs :: "'c lru \<Rightarrow> 'c \<Rightarrow> u32 set \<Rightarrow> 'c \<Rightarrow> bool" for l c0 where
  created: "lru_runs l c0 {} c0"
| got: "lru_runs l c0 K c \<Longrightarrow> lru_runs l c0 K (snd (lru_Get l c n))"
| added: "lru_runs l c0 K c \<Longrightarrow> lru_runs l c0 (insert n K) (lru_Add l c n r)"

definition lru_keeps :: "'c lru \<Rightarrow> nat \<Rightarrow> 'c \<Rightarrow> bool" where
  "lru_keeps l size0 c0 \<longleftrightarrow>
     (\<forall>K c n. lru_runs l c0 K c \<longrightarrow> card K \<le> size0 \<longrightarrow> n \<in> K \<longrightarrow> fst (lru_Get l c n) \<noteq> None)"

lemma lru_runs_got: "lru_runs l c0 K c \<Longrightarrow> lru_Get l c n = (x, c') \<Longrightarrow> lru_runs l c0 K c'"
  using lru_runs.got [of l c0 K c n] by simp

text \<open>What was fetched was added to the cache, or is about to be.\<close>

definition fetched_once :: "('w, 'c) fetcher \<Rightarrow> 'c \<Rightarrow> ('w, 'c, 'g) sharing \<Rightarrow> bool" where
  "fetched_once b c0 s \<longleftrightarrow> (card (set (sh_fetched s)) \<le> cacheSize \<longrightarrow> distinct (sh_fetched s)) \<and>
     (\<exists>K. lru_runs (bf_lru b) c0 K (sh_cache s) \<and> K \<subseteq> set (sh_fetched s) \<and>
        (\<forall>n \<in> set (sh_fetched s). n \<in> K \<or> (\<exists>r. sh_flights s n = Some (Storing r)))) \<and>
     (\<forall>n r. sh_flights s n = Some (Storing r) \<longrightarrow> n \<in> set (sh_fetched s))"

lemma fetched_onceI:
  assumes "card (set (sh_fetched s)) \<le> cacheSize \<Longrightarrow> distinct (sh_fetched s)"
    and "lru_runs (bf_lru b) c0 K (sh_cache s)" and "K \<subseteq> set (sh_fetched s)"
    and "\<And>n. n \<in> set (sh_fetched s) \<Longrightarrow> n \<in> K \<or> (\<exists>r. sh_flights s n = Some (Storing r))"
    and "\<And>n r. sh_flights s n = Some (Storing r) \<Longrightarrow> n \<in> set (sh_fetched s)"
  shows "fetched_once b c0 s"
  using assms unfolding fetched_once_def by blast

lemma fetched_onceE:
  assumes "fetched_once b c0 s"
  obtains K where "card (set (sh_fetched s)) \<le> cacheSize \<Longrightarrow> distinct (sh_fetched s)"
    and "lru_runs (bf_lru b) c0 K (sh_cache s)" and "K \<subseteq> set (sh_fetched s)"
    and "\<And>n. n \<in> set (sh_fetched s) \<Longrightarrow> n \<in> K \<or> (\<exists>r. sh_flights s n = Some (Storing r))"
    and "\<And>n r. sh_flights s n = Some (Storing r) \<Longrightarrow> n \<in> set (sh_fetched s)"
  using assms unfolding fetched_once_def by blast

lemma fetched_once_same:
  assumes "fetched_once b c0 s" and "sh_fetched t = sh_fetched s"
    and runs: "\<And>K. lru_runs (bf_lru b) c0 K (sh_cache s) \<Longrightarrow> lru_runs (bf_lru b) c0 K (sh_cache t)"
    and flights: "\<And>n r. sh_flights t n = Some (Storing r) \<longleftrightarrow> sh_flights s n = Some (Storing r)"
  shows "fetched_once b c0 t"
  using assms(1)
proof (rule fetched_onceE)
  fix K assume K: "card (set (sh_fetched s)) \<le> cacheSize \<Longrightarrow> distinct (sh_fetched s)"
    "lru_runs (bf_lru b) c0 K (sh_cache s)" "K \<subseteq> set (sh_fetched s)"
    "\<And>n. n \<in> set (sh_fetched s) \<Longrightarrow> n \<in> K \<or> (\<exists>r. sh_flights s n = Some (Storing r))"
    "\<And>n r. sh_flights s n = Some (Storing r) \<Longrightarrow> n \<in> set (sh_fetched s)"
  show ?thesis
    by (rule fetched_onceI [OF _ runs [OF K(2)]]) (use K assms(2) in \<open>simp_all add: flights\<close>)
qed

lemma fetched_once_step:
  assumes "shstep b gr s t" and "fetched_once b c0 s" and "flights_ok b gr s" and "lru_keeps (bf_lru b) cacheSize c0"
  shows "fetched_once b c0 t"
  using assms
proof (induction rule: shstep.induct)
  case (launches s i q)
  then have "sh_flights s (wanted q) = None" by (auto simp: flights_ok_def)
  then show ?case by (intro fetched_once_same [OF launches.prems(1)]) auto
next
  case (hits s n r c)
  show ?case by (rule fetched_once_same [OF hits.prems(1)]) (use hits(2) lru_runs_got [OF _ hits(3)] in auto)
next
  case (misses s n c)
  show ?case by (rule fetched_once_same [OF misses.prems(1)]) (use misses(2) lru_runs_got [OF _ misses(3)] in auto)
next
  case (succeeds s n t0 d r w)
  have none: "fst (lru_Get (bf_lru b) (sh_cache s) n) = None" using flights_okD [OF succeeds.prems(2) succeeds(2)] by simp
  let ?t = "set_flight n (Storing r) (s\<lparr>sh_world := w, sh_fetched := sh_fetched s @ [n]\<rparr>)"
  from succeeds.prems(1) show ?case
  proof (rule fetched_onceE)
    fix K assume K: "card (set (sh_fetched s)) \<le> cacheSize \<Longrightarrow> distinct (sh_fetched s)"
      "lru_runs (bf_lru b) c0 K (sh_cache s)" "K \<subseteq> set (sh_fetched s)"
      "\<And>n. n \<in> set (sh_fetched s) \<Longrightarrow> n \<in> K \<or> (\<exists>r. sh_flights s n = Some (Storing r))"
      "\<And>n r. sh_flights s n = Some (Storing r) \<Longrightarrow> n \<in> set (sh_fetched s)"
    have new: "distinct (sh_fetched s @ [n])" if fits: "card (set (sh_fetched s @ [n])) \<le> cacheSize"
    proof -
      have "set (sh_fetched s) \<subseteq> set (sh_fetched s @ [n])" "K \<subseteq> set (sh_fetched s @ [n])" using K(3) by auto
      then have le: "card (set (sh_fetched s)) \<le> cacheSize" "card K \<le> cacheSize"
        using fits card_mono [OF finite_set] order_trans by blast+
      then have "n \<notin> K" using none K(2) succeeds.prems(3) unfolding lru_keeps_def by blast
      then have "n \<notin> set (sh_fetched s)" using K(4) succeeds(2) by fastforce
      then show ?thesis using K(1) [OF le(1)] by simp
    qed
    show ?thesis
    proof (rule fetched_onceI [where K = K])
      show "lru_runs (bf_lru b) c0 K (sh_cache ?t)" using K(2) by simp
      show "m \<in> K \<or> (\<exists>r'. sh_flights ?t m = Some (Storing r'))" if "m \<in> set (sh_fetched ?t)" for m
        using that K(4) [of m] by auto
      show "m \<in> set (sh_fetched ?t)" if "sh_flights ?t m = Some (Storing r')" for m r'
        using that K(5) [of m r'] by (auto split: if_splits)
    qed (use new K(3) in auto)
  qed
next
  case (stores s n r)
  let ?t = "set_flight n (Landing (Ok r)) (s\<lparr>sh_cache := lru_Add (bf_lru b) (sh_cache s) n r\<rparr>)"
  from stores.prems(1) show ?case
  proof (rule fetched_onceE)
    fix K assume K: "card (set (sh_fetched s)) \<le> cacheSize \<Longrightarrow> distinct (sh_fetched s)"
      "lru_runs (bf_lru b) c0 K (sh_cache s)" "K \<subseteq> set (sh_fetched s)"
      "\<And>n. n \<in> set (sh_fetched s) \<Longrightarrow> n \<in> K \<or> (\<exists>r. sh_flights s n = Some (Storing r))"
      "\<And>n r. sh_flights s n = Some (Storing r) \<Longrightarrow> n \<in> set (sh_fetched s)"
    show ?thesis
    proof (rule fetched_onceI [where K = "insert n K"])
      show "lru_runs (bf_lru b) c0 (insert n K) (sh_cache ?t)" using lru_runs.added [OF K(2), of n r] by simp
      show "insert n K \<subseteq> set (sh_fetched ?t)" using K(3) K(5) [OF stores(2)] by simp
      show "m \<in> insert n K \<or> (\<exists>r'. sh_flights ?t m = Some (Storing r'))" if "m \<in> set (sh_fetched ?t)" for m
        using that K(4) [of m] by auto
      show "m \<in> set (sh_fetched ?t)" if "sh_flights ?t m = Some (Storing r')" for m r'
        using that K(5) [of m r'] by (auto split: if_splits)
    qed (use K(1) in simp)
  qed
next
  case (fails s n t0 d e w)
  then show ?case by (intro fetched_once_same [OF fails.prems(1)]) auto
next
  case (times_out s n t0 d e w)
  then show ?case by (intro fetched_once_same [OF times_out.prems(1)]) auto
next
  case (wakes s n t0 d wake)
  then show ?case by (intro fetched_once_same [OF wakes.prems(1)]) auto
next
  case (lands s n r)
  then show ?case by (intro fetched_once_same [OF lands.prems(1)]) auto
qed (erule fetched_once_same; simp)+

section \<open>Properties\<close>

text \<open>C24: Whatever the calls of the workers and of the forward syncer interleave to, every event that a call returns is one
  that the service may return when its calls are read as single steps, and every error is that of a fetch that
  failed for two minutes; nobody waits for a flight that is not under way.\<close>

theorem shared_service:
  assumes "shreach b gr (sharing_start k c w g) s" and "empty_lru b c" and "group_laws gr" and "\<And>n. \<not> sg_busy gr g n"
  shows "(\<forall>n r. RDone n r \<in> set (sh_readers s) \<longrightarrow>
      (case r of
         Ok e \<Rightarrow> service_may b n (Ok e)
       | Err e \<Rightarrow> \<exists>e'. e = ErrWrap ''failed to fetch block'' e' \<and> timed_out b n e' \<or>
           e = ErrWrap ''failed to fetch previous block'' e' \<and> 1 < n \<and> timed_out b (n - 1) e'
       | Panic p \<Rightarrow> False)) \<and>
    (\<forall>q. RWaiting q \<in> set (sh_readers s) \<longrightarrow> sh_flights s (wanted q) \<noteq> None)"
proof -
  have "readers_ok b s" using sharing_inv [OF assms] by blast
  moreover have "case r of Ok e \<Rightarrow> service_may b n (Ok e)
       | Err e \<Rightarrow> \<exists>e'. e = ErrWrap ''failed to fetch block'' e' \<and> timed_out b n e' \<or>
           e = ErrWrap ''failed to fetch previous block'' e' \<and> 1 < n \<and> timed_out b (n - 1) e'
       | Panic p \<Rightarrow> False" if "answer_ok b n r" for n r
    using that by (cases r) auto
  ultimately show ?thesis unfolding readers_ok_def by fastforce
qed

text \<open>C25: Until more than a hundred different blocks were fetched, which is the size of the cache, each block is fetched from
  the node at most once, however many callers ask for it at the same time: the look into the cache is made inside
  the flight, and a flight ends only after its result is stored. So a block is fetched again only after the cache had
  to evict something.\<close>

theorem shared_fetch_once:
  assumes "shreach b gr (sharing_start k c w g) s" and "empty_lru b c" and "group_laws gr" and "\<And>n. \<not> sg_busy gr g n"
    and "lru_keeps (bf_lru b) cacheSize c" and "card (set (sh_fetched s)) \<le> cacheSize"
  shows "distinct (sh_fetched s)"
proof -
  have "fetched_once b c s"
    using assms(1)
  proof (induction rule: shreach.induct)
    case start
    show ?case by (auto simp: fetched_once_def sharing_start_def intro: lru_runs.created)
  next
    case (step s t)
    have "flights_ok b gr s" using sharing_inv [OF step(1) assms(2-4)] by simp
    with step(2) step.IH show ?case using assms(5) by (rule fetched_once_step)
  qed
  then show ?thesis using assms(6) by (simp add: fetched_once_def)
qed

section \<open>Instances\<close>

text \<open>A least-recently-used cache of a hundred entries, the most recent first.\<close>

definition bounded_lru :: "(u32 \<times> FetchResult) list lru" where
  "bounded_lru = \<lparr>
     lru_Get = \<lambda>c n. (map_of c n, case map_of c n of None \<Rightarrow> c | Some r \<Rightarrow> (n, r) # filter (\<lambda>(m, _). m \<noteq> n) c),
     lru_Add = \<lambda>c n r. take cacheSize ((n, r) # filter (\<lambda>(m, _). m \<noteq> n) c)\<rparr>"

lemma map_of_others: "map_of (filter (\<lambda>(m, _). m \<noteq> n) c) k = (if k = n then None else map_of c k)"
  by (induction c) auto

lemma map_of_take: "map_of (take k c) n = Some r \<Longrightarrow> map_of c n = Some r"
  by (induction c arbitrary: k) (auto simp: take_Cons split: nat.splits if_splits)

lemma bounded_lru_laws: "lru_laws bounded_lru"
proof -
  have "fst (lru_Get bounded_lru (lru_Add bounded_lru c n r) n) = Some r" for c n r
    by (simp add: bounded_lru_def cacheSize_def)
  moreover have "m = n \<and> r' = r \<or> fst (lru_Get bounded_lru c m) = Some r'"
    if "fst (lru_Get bounded_lru (lru_Add bounded_lru c n r) m) = Some r'" for c n r m r'
    using map_of_take [of cacheSize "(n, r) # filter (\<lambda>(m, _). m \<noteq> n) c" m r'] that
    by (simp add: bounded_lru_def map_of_others split: if_splits)
  moreover have "fst (lru_Get bounded_lru (snd (lru_Get bounded_lru c n)) m) = fst (lru_Get bounded_lru c m)" for c n m
    by (auto simp: bounded_lru_def map_of_others split: option.split)
  ultimately show ?thesis unfolding lru_laws_def by blast
qed

lemma bounded_lru_keeps: "lru_keeps bounded_lru cacheSize []"
proof -
  let ?others = "\<lambda>n. filter (\<lambda>(m, _). m \<noteq> n)"
  have keys: "fst ` set (?others n c) = fst ` set c - {n}" "distinct (map fst c) \<Longrightarrow> distinct (map fst (?others n c))"
    for n :: u32 and c :: "(u32 \<times> FetchResult) list"
    by (induction c) auto
  have "distinct (map fst c) \<and> fst ` set c \<subseteq> K \<and> finite K \<and> (card K \<le> cacheSize \<longrightarrow> fst ` set c = K)"
    if "lru_runs bounded_lru [] K c" for K c
    using that
  proof (induction rule: lru_runs.induct)
    case (got K c n)
    show ?case
    proof (cases "map_of c n")
      case None
      then show ?thesis using got.IH by (simp add: bounded_lru_def)
    next
      case (Some r)
      then have "n \<in> fst ` set c" by (auto dest: map_of_SomeD intro: rev_image_eqI)
      then show ?thesis using got.IH Some keys by (auto simp: bounded_lru_def)
    qed
  next
    case (added K c n r)
    let ?l = "(n, r) # ?others n c"
    have d: "distinct (map fst ?l)" using added.IH keys by auto
    have "fst ` set (take cacheSize ?l) \<subseteq> fst ` set ?l" by (intro image_mono set_take_subset)
    also have "\<dots> \<subseteq> insert n K" using added.IH keys(1) by auto
    finally have "fst ` set (take cacheSize ?l) \<subseteq> insert n K" .
    moreover have "fst ` set (take cacheSize ?l) = insert n K" if fits: "card (insert n K) \<le> cacheSize"
    proof -
      have "card K \<le> card (insert n K)" using added.IH by (intro card_mono) auto
      then have "card K \<le> cacheSize" using fits by simp
      then have all: "fst ` set ?l = insert n K" using added.IH keys(1) by auto
      have "length ?l = card (fst ` set ?l)" using distinct_card [OF d] by simp
      then have "take cacheSize ?l = ?l" using fits all by (intro take_all) simp
      with all show ?thesis by simp
    qed
    moreover have "distinct (map fst (take cacheSize ?l))" using d by (metis distinct_take take_map)
    ultimately show ?case using added.IH by (simp add: bounded_lru_def)
  qed simp
  then have "n \<in> fst ` set c" if "lru_runs bounded_lru [] K c" "card K \<le> cacheSize" "n \<in> K" for K c n
    using that by blast
  then show ?thesis unfolding lru_keeps_def by (simp add: bounded_lru_def map_of_eq_None_iff)
qed

definition bounded_fetcher :: "(int, (u32 \<times> FetchResult) list) fetcher" where
  "bounded_fetcher = (sample_fetcher 100 0)\<lparr>bf_lru := bounded_lru\<rparr>"

lemma fetch_attempt_lru: "fetch_attempt (b\<lparr>bf_lru := l\<rparr>) n w = fetch_attempt b n w"
  by (simp add: fetch_attempt_def cong del: if_weak_cong)

lemma bounded_fetcher_simps [simp]:
  "bf_lru bounded_fetcher = bounded_lru" "bf_timer bounded_fetcher = sample_timer" "bf_client bounded_fetcher = sample_client"
  "bf_hayabusaForkedBlock bounded_fetcher = 100" "bf_hayabusaActiveBlock bounded_fetcher = 0"
  "fetch_attempt bounded_fetcher n w = fetch_attempt (sample_fetcher 100 0) n w"
  by (simp_all add: bounded_fetcher_def fetch_attempt_lru)

lemma bounded_empty_lru: "empty_lru bounded_fetcher []"
  by (simp add: empty_lru_def bounded_lru_laws sample_node_numbers) (simp add: bounded_lru_def)

text \<open>A group that is the set of its busy keys, and two callers that ask for block 1 at the same time.\<close>

definition sample_group :: "u32 set flight_group" where
  "sample_group = \<lparr>sg_busy = \<lambda>g n. n \<in> g, sg_enter = \<lambda>g n. insert n g, sg_leave = \<lambda>g n. g - {n}\<rparr>"

lemma sample_group_laws: "group_laws sample_group"
  by (auto simp: group_laws_def sample_group_def)

definition shared_state ::
  "(u32 \<times> FetchResult) list \<Rightarrow> u32 set \<Rightarrow> (u32 \<rightharpoonup> flight) \<Rightarrow> reader list \<Rightarrow> u32 list \<Rightarrow>
   (int, (u32 \<times> FetchResult) list, u32 set) sharing" where
  "shared_state c g fl rs fetched = \<lparr>sh_cache = c, sh_world = 0, sh_group = g, sh_flights = fl, sh_readers = rs,
     sh_fetched = fetched, sh_crashed = False\<rparr>"

lemma shared_run:
  "shreach bounded_fetcher sample_group (sharing_start 2 [] 0 {})
     (shared_state [(1, sample_result)] {} Map.empty [RDone 1 (Ok sample_event), RDone 1 (Ok sample_event)] [1])"
proof -
  let ?b = bounded_fetcher and ?step = "shstep bounded_fetcher sample_group"
  let ?q = "(1, None) :: request"
  have attempt: "fetch_attempt ?b 1 0 = (Ok sample_result, 0)"
    using sample_attempt [of 1 main1 100 0 0] by (simp add: best_chain_def sample_blocks sample_result_def id_uint32_def)
  note defs = shared_state_def set_reader_def set_flight_def reader_at_def sample_group_def wanted_def
  have 0: "sharing_start 2 [] 0 {} = shared_state [] {} Map.empty [RIdle, RIdle] []"
    by (simp add: sharing_start_def shared_state_def numeral_2_eq_2)
  have 1: "?step (shared_state [] {} Map.empty [RIdle, RIdle] []) (shared_state [] {} Map.empty [RReady ?q, RIdle] [])"
    using shstep.begins [of "shared_state [] {} Map.empty [RIdle, RIdle] []" 0 ?b sample_group 1] by (simp add: defs)
  have 2: "?step (shared_state [] {} Map.empty [RReady ?q, RIdle] []) (shared_state [] {} Map.empty [RReady ?q, RReady ?q] [])"
    using shstep.begins [of "shared_state [] {} Map.empty [RReady ?q, RIdle] []" 1 ?b sample_group 1] by (simp add: defs)
  have 3: "?step (shared_state [] {} Map.empty [RReady ?q, RReady ?q] [])
      (shared_state [] {1} [1 \<mapsto> Looking] [RWaiting ?q, RReady ?q] [])"
    using shstep.launches [of "shared_state [] {} Map.empty [RReady ?q, RReady ?q] []" 0 ?q sample_group ?b] by (simp add: defs)
  have 4: "?step (shared_state [] {1} [1 \<mapsto> Looking] [RWaiting ?q, RReady ?q] [])
      (shared_state [] {1} [1 \<mapsto> Looking] [RWaiting ?q, RWaiting ?q] [])"
    using shstep.joins [of "shared_state [] {1} [1 \<mapsto> Looking] [RWaiting ?q, RReady ?q] []" 1 ?q sample_group ?b] by (simp add: defs)
  have 5: "?step (shared_state [] {1} [1 \<mapsto> Looking] [RWaiting ?q, RWaiting ?q] [])
      (shared_state [] {1} [1 \<mapsto> Trying 0 (ms 100)] [RWaiting ?q, RWaiting ?q] [])"
    using shstep.misses [of "shared_state [] {1} [1 \<mapsto> Looking] [RWaiting ?q, RWaiting ?q] []" 1 ?b "[]" sample_group]
    by (simp add: defs sample_timer_def bounded_lru_def)
  have 6: "?step (shared_state [] {1} [1 \<mapsto> Trying 0 (ms 100)] [RWaiting ?q, RWaiting ?q] [])
      (shared_state [] {1} [1 \<mapsto> Storing sample_result] [RWaiting ?q, RWaiting ?q] [1])"
    using shstep.succeeds [of "shared_state [] {1} [1 \<mapsto> Trying 0 (ms 100)] [RWaiting ?q, RWaiting ?q] []" 1 0 "ms 100" ?b
      sample_result 0 sample_group] attempt
    by (simp add: defs)
  have 7: "?step (shared_state [] {1} [1 \<mapsto> Storing sample_result] [RWaiting ?q, RWaiting ?q] [1])
      (shared_state [(1, sample_result)] {1} [1 \<mapsto> Landing (Ok sample_result)] [RWaiting ?q, RWaiting ?q] [1])"
    using shstep.stores [of "shared_state [] {1} [1 \<mapsto> Storing sample_result] [RWaiting ?q, RWaiting ?q] [1]" 1 sample_result ?b
      sample_group]
    by (simp add: defs bounded_lru_def cacheSize_def)
  have 8: "?step (shared_state [(1, sample_result)] {1} [1 \<mapsto> Landing (Ok sample_result)] [RWaiting ?q, RWaiting ?q] [1])
      (shared_state [(1, sample_result)] {} Map.empty [RDone 1 (Ok sample_event), RDone 1 (Ok sample_event)] [1])"
    using shstep.lands [of "shared_state [(1, sample_result)] {1} [1 \<mapsto> Landing (Ok sample_result)] [RWaiting ?q, RWaiting ?q] [1]"
      1 "Ok sample_result" ?b sample_group]
    by (simp add: defs land_def deliver_def sample_event_def)
  show ?thesis unfolding 0
    using shreach.step [OF shreach.step [OF shreach.step [OF shreach.step [OF shreach.step [OF shreach.step [OF shreach.step
      [OF shreach.step [OF shreach.start 1] 2] 3] 4] 5] 6] 7] 8] .
qed

theorem shared_service_witness:
  "service_may bounded_fetcher 1 (Ok sample_event)"
  using shared_service [OF shared_run bounded_empty_lru sample_group_laws] by (simp add: sample_group_def shared_state_def)

theorem shared_fetch_once_witness:
  "\<exists>s :: (int, (u32 \<times> FetchResult) list, u32 set) sharing.
     sh_readers s = [RDone 1 (Ok sample_event), RDone 1 (Ok sample_event)] \<and> sh_fetched s = [1] \<and> distinct (sh_fetched s)"
  using shared_fetch_once [OF shared_run bounded_empty_lru sample_group_laws _ bounded_lru_keeps [folded bounded_fetcher_simps(1)]]
  by (intro exI [of _ "shared_state [(1, sample_result)] {} Map.empty [RDone 1 (Ok sample_event), RDone 1 (Ok sample_event)] [1]"])
    (simp add: sample_group_def shared_state_def cacheSize_def)

end
