(* ===== verification/ABICodec.thy ===== *)
theory ABICodec
  imports AuthorityABI
begin

text \<open>
  The rest of the generated codec \<^verbatim>\<open>stats/contracts/generated/listauthority\<close> (the code of
  \<^verbatim>\<open>iauthority\<close> is the same): signed and dynamic values, sized integers, arrays, the
  hexadecimal types, and the packing of a call. The program calls only a part of it, which is in
  AuthorityABI.
\<close>

unbundle bit_operations_syntax

section \<open>Hexadecimal types\<close>

definition strip_0x :: "string \<Rightarrow> string" where
  "strip_0x s = (if take 2 s = ''0x'' then drop 2 s else s)"

text \<open>An explicit panic where the text is not the digits of so many bytes.\<close>

definition hex_or_panic :: "string \<Rightarrow> bytes outcome" where
  "hex_or_panic s = (case hex_DecodeString s of Inl e \<Rightarrow> Panic ExplicitPanic | Inr bs \<Rightarrow> Ok bs)"

definition AddressFromHex :: "string \<Rightarrow> address outcome" where
  "AddressFromHex s =
     (if length (strip_0x s) \<noteq> 40 then Panic ExplicitPanic
      else bind_outcome (hex_or_panic (strip_0x s)) (\<lambda>bs. Ok (Address (of_nat (be_nat bs)))))"

definition HashFromHex :: "string \<Rightarrow> bytes32 outcome" where
  "HashFromHex s =
     (if length (strip_0x s) \<noteq> 64 then Panic ExplicitPanic
      else bind_outcome (hex_or_panic (strip_0x s)) (\<lambda>bs. Ok (Bytes32 (of_nat (be_nat bs)))))"

definition Address_String :: "address \<Rightarrow> string" where
  "Address_String a = ''0x'' @ bytes_text (address_bytes a)"

definition Hash_String :: "bytes32 \<Rightarrow> string" where
  "Hash_String h = ''0x'' @ bytes_text (bytes32_bytes h)"

definition HexData_Bytes :: "string \<Rightarrow> bytes outcome" where
  "HexData_Bytes s = (if s = [] then Ok [] else hex_or_panic (strip_0x s))"

section \<open>Encoding\<close>

text \<open>\<open>BitLen\<close> is of the absolute value, so the least number of 256 bits is refused.\<close>

definition encodeInt256 :: "int \<Rightarrow> bytes outcome" where
  "encodeInt256 v =
     (if 2 ^ 255 \<le> \<bar>v\<bar> then Err (ErrMsg ''value too large for int256'')
      else if 0 \<le> v then Ok (be_bytes 32 (word_of_int v :: 256 word))
      else Ok (be_bytes 32 (word_of_int ((- v - 1) XOR (2 ^ 256 - 1)) :: 256 word)))"

definition padded_length :: "int \<Rightarrow> int" where
  "padded_length n = (n + 31) div 32 * 32"

definition encodeBytes :: "bytes \<Rightarrow> bytes outcome" where
  "encodeBytes data =
     bind_outcome (encodeUint256 (int (length data))) (\<lambda>lengthBytes.
       Ok (lengthBytes @ data @ replicate (nat (padded_length (int (length data))) - length data) 0))"

definition string_bytes :: "string \<Rightarrow> bytes" where
  "string_bytes s = map (\<lambda>c. word_of_nat (of_char c)) s"

definition encodeString :: "string \<Rightarrow> bytes outcome" where
  "encodeString s = encodeBytes (string_bytes s)"

section \<open>Decoding\<close>

definition decodeInt256 :: "bytes \<Rightarrow> int outcome" where
  "decodeInt256 data =
     (if length data < 32 then Err (ErrMsg ''insufficient data for int256'')
      else
        let result = int (be_nat (take 32 data)) in
        Ok (if data ! 0 AND 0x80 \<noteq> 0 then - ((result XOR (2 ^ 256 - 1)) + 1) else result))"

text \<open>\<open>make\<close> of elements of so many bytes panics for a negative length or one that does not fit.\<close>

definition make_ok :: "int \<Rightarrow> int \<Rightarrow> bool" where
  "make_ok elemSize n \<longleftrightarrow> 0 \<le> n \<and> n * elemSize \<le> 2 ^ 48"

text \<open>The length word at \<open>offset\<close>, as both decoders of dynamic values read it.\<close>

definition decode_length :: "bytes \<Rightarrow> int \<Rightarrow> string \<Rightarrow> int outcome" where
  "decode_length data offset what =
     (if int (length data) < wrap_i64 (offset + 32) then Err (ErrMsg (''insufficient data for '' @ what @ '' length''))
      else bind_outcome (slice data offset (wrap_i64 (offset + 32))) (\<lambda>w.
        bind_outcome (wrap_err (''decoding '' @ what @ '' length'') (decodeUint256 w)) (\<lambda>lengthBig.
          if 2 ^ 64 \<le> lengthBig then Err (ErrMsg (what @ '' length too large'')) else Ok (wrap_i64 lengthBig))))"

definition decodeBytes :: "bytes \<Rightarrow> int \<Rightarrow> (bytes \<times> int) outcome" where
  "decodeBytes data offset =
     bind_outcome (decode_length data offset ''bytes'') (\<lambda>length'.
       if int (length data) < wrap_i64 (offset + 32 + length') then Err (ErrMsg ''insufficient data for bytes content'')
       else if \<not> make_ok 1 length' then Panic IndexOutOfRange
       else bind_outcome (slice data (wrap_i64 (offset + 32)) (wrap_i64 (offset + 32 + length'))) (\<lambda>result.
         Ok (result, wrap_i64 (offset + 32 + padded_length length'))))"

definition decodeString :: "bytes \<Rightarrow> int \<Rightarrow> (string \<times> int) outcome" where
  "decodeString data offset =
     bind_outcome (decodeBytes data offset) (\<lambda>(bs, nextOffset). Ok (map (\<lambda>b. char_of (unat b)) bs, nextOffset))"

definition decodeFixedBytes :: "bytes \<Rightarrow> nat \<Rightarrow> bytes outcome" where
  "decodeFixedBytes data size' =
     (if length data < 32 then Err (ErrMsg ''insufficient data for fixed bytes'')
      else if 32 < size' then Err (ErrMsg ''fixed bytes size too large'')
      else Ok (take size' data))"

definition decodeBytes1 :: "bytes \<Rightarrow> u8 outcome" where
  "decodeBytes1 data = bind_outcome (decodeFixedBytes data 1) (\<lambda>bs. Ok (of_nat (be_nat bs)))"

definition decodeBytes32 :: "bytes \<Rightarrow> bytes32 outcome" where
  "decodeBytes32 data = bind_outcome (decodeFixedBytes data 32) (\<lambda>bs. Ok (Bytes32 (of_nat (be_nat bs))))"

definition decodeHash :: "bytes \<Rightarrow> bytes32 outcome" where
  "decodeHash data =
     (if length data < 32 then Err (ErrMsg ''insufficient data for hash'')
      else Ok (Bytes32 (of_nat (be_nat (take 32 data)))))"

text \<open>The elements of an array: \<open>n\<close> are left, the next is number \<open>i\<close> at \<open>offset\<close>.\<close>

fun decode_elements :: "(bytes \<Rightarrow> 'a outcome) \<Rightarrow> bytes \<Rightarrow> nat \<Rightarrow> int \<Rightarrow> ('a list \<times> int) outcome" where
  "decode_elements dec data 0 offset = Ok ([], offset)"
| "decode_elements dec data (Suc n) offset =
     (if int (length data) < wrap_i64 (offset + 32) then Err (ErrMsg ''insufficient data for array element'')
      else bind_outcome (slice data offset (wrap_i64 (offset + 32))) (\<lambda>w.
        bind_outcome (wrap_err ''decoding array element'' (dec w)) (\<lambda>elem.
        bind_outcome (decode_elements dec data n (wrap_i64 (offset + 32))) (\<lambda>(rest, nextOffset).
          Ok (elem # rest, nextOffset)))))"

definition decodeArray :: "bytes \<Rightarrow> int \<Rightarrow> (bytes \<Rightarrow> 'a outcome) \<Rightarrow> ('a list \<times> int) outcome" where
  "decodeArray data offset elemDecoder =
     bind_outcome (decode_length data offset ''array'') (\<lambda>length'.
       if \<not> make_ok 16 length' then Panic IndexOutOfRange
       else decode_elements elemDecoder data (nat length') (wrap_i64 (offset + 32)))"

section \<open>Sized integers\<close>

text \<open>Reading bytes into a word from the left, as the loops do.\<close>

definition shift_in :: "bytes \<Rightarrow> 'a::len word" where
  "shift_in bs = foldl (\<lambda>r b. push_bit 8 r OR ucast b) 0 bs"

definition all_bytes :: "u8 \<Rightarrow> bytes \<Rightarrow> bool" where
  "all_bytes x bs = list_all (\<lambda>b. b = x) bs"

definition decodeUint8 :: "bytes \<Rightarrow> u8 outcome" where
  "decodeUint8 data =
     (if length data < 32 then Err (ErrMsg ''insufficient data for uint8'')
      else if \<not> all_bytes 0 (take 31 data) then Err (ErrMsg ''invalid uint8 encoding'')
      else Ok (data ! 31))"

definition decodeUint16 :: "bytes \<Rightarrow> 16 word outcome" where
  "decodeUint16 data =
     (if length data < 32 then Err (ErrMsg ''insufficient data for uint16'')
      else if \<not> all_bytes 0 (take 30 data) then Err (ErrMsg ''invalid uint16 encoding'')
      else Ok (push_bit 8 (ucast (data ! 30)) OR ucast (data ! 31)))"

definition decodeUint32 :: "bytes \<Rightarrow> u32 outcome" where
  "decodeUint32 data =
     (if length data < 32 then Err (ErrMsg ''insufficient data for uint32'')
      else if \<not> all_bytes 0 (take 28 data) then Err (ErrMsg ''invalid uint32 encoding'')
      else Ok (shift_in (take 4 (drop 28 data))))"

definition decodeUint64 :: "bytes \<Rightarrow> u64 outcome" where
  "decodeUint64 data =
     (if length data < 32 then Err (ErrMsg ''insufficient data for uint64'')
      else if \<not> all_bytes 0 (take 24 data) then Err (ErrMsg ''value exceeds uint64 range'')
      else Ok (shift_in (take 8 (drop 24 data))))"

text \<open>An \<open>int64\<close> is the word it is kept in; the last step ORs \<open>^((1 << 32) - 1)\<close>.\<close>

definition decodeInt64 :: "bytes \<Rightarrow> u64 outcome" where
  "decodeInt64 data =
     (if length data < 32 then Err (ErrMsg ''insufficient data for int64'')
      else
        let isNegative = data ! 0 AND 0x80 \<noteq> 0;
            expectedByte = (if isNegative then 0xFF else 0) in
        if \<not> all_bytes expectedByte (take 24 data) then Err (ErrMsg ''value exceeds int64 range'')
        else
          let result = shift_in (take 8 (drop 24 data)) in
          Ok (if isNegative then result OR NOT (2 ^ 32 - 1) else result))"

section \<open>Methods\<close>

record method_info =
  mi_Name :: string
  mi_Signature :: string
  mi_Selector :: string

definition GetAuthorityMethod :: method_info where
  "GetAuthorityMethod = \<lparr>mi_Name = ''authority'', mi_Signature = ''authority()'', mi_Selector = ''0xbf7e214f''\<rparr>"

definition GetListMethod :: method_info where
  "GetListMethod = \<lparr>mi_Name = ''list'', mi_Signature = ''list()'', mi_Selector = ''0x0f560cd7''\<rparr>"

text \<open>An argument of \<open>Pack\<close> by its dynamic type.\<close>

datatype pack_arg = PBig int | PAddress address | PBool bool | PString string | PBytes bytes | POther nat

definition encode_arg :: "pack_arg \<Rightarrow> bytes outcome" where
  "encode_arg arg =
     (case arg of
        PBig v \<Rightarrow> wrap_err ''encoding big.Int'' (encodeUint256 v)
      | PAddress a \<Rightarrow> Ok (encodeAddress a)
      | PBool b \<Rightarrow> Ok (encodeBool b)
      | PString s \<Rightarrow> wrap_err ''encoding string'' (encodeString s)
      | PBytes bs \<Rightarrow> wrap_err ''encoding bytes'' (encodeBytes bs)
      | POther t \<Rightarrow> Err (ErrMsg ''unsupported argument type''))"

fun encode_args :: "pack_arg list \<Rightarrow> bytes outcome" where
  "encode_args [] = Ok []"
| "encode_args (arg # args) =
     bind_outcome (encode_arg arg) (\<lambda>bs. bind_outcome (encode_args args) (\<lambda>rest. Ok (bs @ rest)))"

definition Pack :: "method_info \<Rightarrow> pack_arg list \<Rightarrow> string outcome" where
  "Pack m args =
     bind_outcome (HexData_Bytes (mi_Selector m)) (\<lambda>selectorBytes.
       if selectorBytes = [] then Err (ErrMsg ''invalid method selector'')
       else if args = [] then Ok (mi_Selector m)
       else bind_outcome (encode_args args) (\<lambda>encodedArgs. Ok (''0x'' @ bytes_text (selectorBytes @ encodedArgs))))"

definition MustPack :: "method_info \<Rightarrow> pack_arg list \<Rightarrow> string outcome" where
  "MustPack m args = (case Pack m args of Err e \<Rightarrow> Panic ExplicitPanic | r \<Rightarrow> r)"

definition AuthorityMethod_decodeImpl :: "bytes \<Rightarrow> address outcome" where
  "AuthorityMethod_decodeImpl data =
     (if length data < 32 then Err (ErrMsg ''insufficient data for return value'')
      else bind_outcome (slice data 0 32) decodeAddress)"

text \<open>\<open>MustDecode\<close> of either method.\<close>

definition must_decode :: "'a outcome \<Rightarrow> 'a outcome" where
  "must_decode r = (case r of Err e \<Rightarrow> Panic ExplicitPanic | _ \<Rightarrow> r)"

section \<open>Words\<close>

lemma xor_mask: "0 \<le> u \<Longrightarrow> u < 2 ^ n \<Longrightarrow> (u :: int) XOR (2 ^ n - 1) = 2 ^ n - 1 - u"
proof -
  assume u: "0 \<le> u" "u < 2 ^ n"
  then have "take_bit n u = u" by (simp add: take_bit_int_eq_self)
  then have "bit u i \<Longrightarrow> i < n" for i by (metis bit_take_bit_iff)
  then have "u XOR mask n = take_bit n (NOT u)"
    by (intro bit_eqI) (auto simp: bit_simps)
  also have "\<dots> = (- u - 1) mod 2 ^ n" by (simp add: not_int_def take_bit_eq_mod minus_diff_commute)
  also have "\<dots> = (- u - 1 + 2 ^ n) mod 2 ^ n" by simp
  also have "\<dots> = 2 ^ n - 1 - u" using u by (subst mod_pos_pos_trivial) simp_all
  finally show ?thesis by (simp add: mask_eq_exp_minus_1)
qed

lemma encodeInt256_word:
  assumes "\<bar>v\<bar> < 2 ^ 255"
  shows "encodeInt256 v = Ok (be_bytes 32 (word_of_int v :: 256 word))"
proof (cases "0 \<le> v")
  case False
  then have "(- v - 1) XOR (2 ^ 256 - 1) = 2 ^ 256 + v"
    using assms by (subst xor_mask) simp_all
  moreover have "(word_of_int (2 ^ 256 + v) :: 256 word) = word_of_int v"
    by (simp only: word_of_int_eq_iff take_bit_eq_mod) simp
  ultimately show ?thesis using False assms unfolding encodeInt256_def by (simp only: if_False) simp
qed (use assms in \<open>simp add: encodeInt256_def\<close>)

lemma be_bytes_msb: "be_bytes 32 (w :: 256 word) ! 0 AND 0x80 \<noteq> 0 \<longleftrightarrow> bit w 255"
proof -
  have "be_bytes 32 w ! 0 = ucast (drop_bit 248 w)" by (simp add: be_bytes_def rev_nth)
  moreover have "x AND 0x80 \<noteq> 0 \<longleftrightarrow> bit x 7" for x :: u8
    using and_exp_eq_0_iff_not_bit [of x 7] by simp
  ultimately show ?thesis by (simp add: bit_simps)
qed

lemma decodeInt256_word: "decodeInt256 (be_bytes 32 (w :: 256 word) @ rest) = Ok (sint w)"
proof -
  have bs: "length (be_bytes 32 w) = 32" by simp
  have u: "int (be_nat (be_bytes 32 w)) = uint w"
    using unsigned_less [of w, where ?'a = nat] by (simp add: be_nat_be_bytes)
  have lt: "0 \<le> uint w" "uint w < 2 ^ 256" using uint_bounded [of w] by simp_all
  have "(be_bytes 32 w @ rest) ! 0 = be_bytes 32 w ! 0" by (simp add: nth_append)
  moreover have "sint w = (if bit w 255 then uint w - 2 ^ 256 else uint w)"
    using lt by (simp add: sint_uint signed_take_bit_eq_take_bit_minus take_bit_int_eq_self bit_uint_iff)
  ultimately show ?thesis
    unfolding decodeInt256_def Let_def using xor_mask [OF lt] by (simp add: u be_bytes_msb)
qed

lemma shift_in_nat: "(shift_in bs :: 'a::len word) = word_of_nat (be_nat bs)"
proof (induction bs rule: rev_induct)
  case (snoc b bs)
  have "push_bit 8 (r :: 'a word) OR ucast b = r * 256 + ucast b" for r
  proof -
    have "push_bit 8 r AND ucast b = 0"
    proof (rule bit_eqI)
      fix n
      show "bit (push_bit 8 r AND ucast b) n \<longleftrightarrow> bit (0 :: 'a word) n"
        using bit_imp_le_length [of b n] by (auto simp: bit_simps)
    qed
    then show ?thesis by (simp add: push_bit_eq_mult mult.commute flip: disjunctive_add_eq_or)
  qed
  with snoc show ?case
    by (simp add: shift_in_def be_nat_snoc)
qed (simp add: shift_in_def)

lemma leading_zeros: "all_bytes 0 bs \<longleftrightarrow> be_nat bs = 0"
  by (induction bs) (auto simp: all_bytes_def be_nat_Cons word_unat_eq_iff)
lemma be_nat_split:
  assumes "length bs = k + n"
  shows "be_nat (take k bs) = be_nat bs div 256 ^ n" and "be_nat (drop k bs) = be_nat bs mod 256 ^ n"
proof -
  have "be_nat bs = be_nat (take k bs) * 256 ^ n + be_nat (drop k bs)"
    using be_nat_append [of "take k bs" "drop k bs"] assms by simp
  moreover have "be_nat (drop k bs) < 256 ^ n" using be_nat_bound [of "drop k bs"] assms by simp
  ultimately show "be_nat (take k bs) = be_nat bs div 256 ^ n" "be_nat (drop k bs) = be_nat bs mod 256 ^ n"
    by simp_all
qed

text \<open>The two parts of a word that the sized decoders look at.\<close>

lemma word_parts:
  assumes "32 \<le> length data" and "k \<le> 32"
  shows "be_nat (take k data) = be_nat (take 32 data) div 256 ^ (32 - k)"
    and "be_nat (take (32 - k) (drop k data)) = be_nat (take 32 data) mod 256 ^ (32 - k)"
  using be_nat_split [of "take 32 data" k "32 - k"] assms by (simp_all add: take_drop min_def)

lemma all_ones: "all_bytes 0xFF bs \<longleftrightarrow> be_nat bs = 256 ^ length bs - 1"
proof (induction bs)
  case (Cons b bs)
  have "unat b \<le> 255" using unsigned_less [of b, where ?'a = nat] by simp
  moreover have "b = 0xFF \<longleftrightarrow> unat b = 255" by (simp add: word_unat_eq_iff)
  moreover have "be_nat bs < 256 ^ length bs" by (rule be_nat_bound)
  moreover have "x * p + y = 256 * p - 1 \<longleftrightarrow> x = 255 \<and> y = p - 1" if "x \<le> 255" "y < p" for x y p :: nat
  proof
    assume e: "x * p + y = 256 * p - 1"
    have "x = 255"
    proof (rule ccontr)
      assume "x \<noteq> 255"
      then have "x \<le> 254" using that(1) by simp
      then have "x * p \<le> 254 * p" by simp
      with e that(2) show False by linarith
    qed
    with e show "x = 255 \<and> y = p - 1" by simp
  qed (use that in simp)
  ultimately show ?case using Cons by (simp add: all_bytes_def be_nat_Cons)
qed (simp add: all_bytes_def)

section \<open>The sized integers\<close>

lemma fits: "(x :: nat) div 256 ^ n = 0 \<longleftrightarrow> x < 256 ^ n"
  by (simp add: div_eq_0_iff)

theorem decodeUint64_value:
  assumes "32 \<le> length data"
  defines "x \<equiv> be_nat (take 32 data)"
  shows "decodeUint64 data = (if x < 2 ^ 64 then Ok (word_of_nat x) else Err (ErrMsg ''value exceeds uint64 range''))"
  using assms(1) word_parts [OF assms(1), of 24]
  by (auto simp: decodeUint64_def leading_zeros shift_in_nat x_def div_eq_0_iff)

theorem decodeUint32_value:
  assumes "32 \<le> length data"
  defines "x \<equiv> be_nat (take 32 data)"
  shows "decodeUint32 data = (if x < 2 ^ 32 then Ok (word_of_nat x) else Err (ErrMsg ''invalid uint32 encoding''))"
  using assms(1) word_parts [OF assms(1), of 28]
  by (auto simp: decodeUint32_def leading_zeros shift_in_nat x_def div_eq_0_iff)

theorem decodeUint16_value:
  assumes "32 \<le> length data"
  defines "x \<equiv> be_nat (take 32 data)"
  shows "decodeUint16 data = (if x < 2 ^ 16 then Ok (word_of_nat x) else Err (ErrMsg ''invalid uint16 encoding''))"
proof -
  have "take 2 (drop 30 data) = [data ! 30, data ! 31]"
    using assms(1) by (simp add: numeral_2_eq_2 take_Suc_conv_app_nth)
  then have "push_bit 8 (ucast (data ! 30)) OR ucast (data ! 31) = (word_of_nat (be_nat (take 2 (drop 30 data))) :: 16 word)"
    by (simp add: shift_in_def flip: shift_in_nat)
  then show ?thesis
    using assms(1) word_parts [OF assms(1), of 30]
    by (auto simp: decodeUint16_def leading_zeros x_def div_eq_0_iff)
qed

theorem decodeUint8_value:
  assumes "32 \<le> length data"
  defines "x \<equiv> be_nat (take 32 data)"
  shows "decodeUint8 data = (if x < 2 ^ 8 then Ok (word_of_nat x) else Err (ErrMsg ''invalid uint8 encoding''))"
proof -
  have "take 1 (drop 31 data) = [data ! 31]" using assms(1) by (simp add: take_Suc_conv_app_nth)
  then have "data ! 31 = word_of_nat (be_nat (take 1 (drop 31 data)))" by (simp add: be_nat_Cons)
  then show ?thesis
    using assms(1) word_parts [OF assms(1), of 31]
    by (auto simp: decodeUint8_def leading_zeros x_def div_eq_0_iff)
qed

text \<open>Reading an encoded signed number back, and which numbers cannot be encoded.\<close>

theorem int256_round_trip:
  "if \<bar>v\<bar> < 2 ^ 255 then \<exists>bs. encodeInt256 v = Ok bs \<and> length bs = 32 \<and> decodeInt256 (bs @ rest) = Ok v
   else encodeInt256 v = Err (ErrMsg ''value too large for int256'')"
proof (cases "\<bar>v\<bar> < 2 ^ 255")
  case True
  then have "sint (word_of_int v :: 256 word) = v"
    by (simp add: sint_uint uint_word_of_int_eq signed_take_bit_take_bit signed_take_bit_int_eq_self)
  then show ?thesis using True by (simp add: encodeInt256_word decodeInt256_word)
qed (simp add: encodeInt256_def)

text \<open>The least number of 256 bits can be read but not written.\<close>

theorem least_int256:
  "encodeInt256 (- (2 ^ 255)) = Err (ErrMsg ''value too large for int256'')"
  "decodeInt256 (be_bytes 32 (2 ^ 255 :: 256 word)) = Ok (- (2 ^ 255))"
  using decodeInt256_word [of "2 ^ 255" "[]"] by (simp_all add: encodeInt256_def)

lemma be_nat_word: "be_nat (be_bytes 32 (w :: 256 word)) = unat w"
  using unsigned_less [of w, where ?'a = nat] by (simp add: be_nat_be_bytes)

lemma upper_ones: "(x :: u64) OR NOT (2 ^ 32 - 1) = take_bit 32 x - 2 ^ 32"
proof -
  have "x OR NOT (mask 32) = take_bit 32 x OR NOT (mask 32)" by (rule bit_eqI) (auto simp: bit_simps)
  moreover have "take_bit 32 x AND NOT (mask 32) = 0" by (rule bit_eqI) (auto simp: bit_simps)
  ultimately have "x OR NOT (mask 32) = take_bit 32 x + NOT (mask 32)" by (simp add: disjunctive_add_eq_or)
  then show ?thesis unfolding minus_exp_eq_not_mask [symmetric] mask_eq_exp_minus_1 by simp
qed

lemma take_bit_word_of_int: "take_bit 32 (word_of_int v :: u64) = word_of_int (v mod 2 ^ 32)"
  unfolding take_bit_eq_mod [symmetric] by (rule bit_eqI) (auto simp: bit_simps)

text \<open>A sign-extended number of 64 bits: a negative one comes back with its upper half lost.\<close>

theorem decodeInt64_value:
  assumes "- (2 ^ 63) \<le> v" and "v < 2 ^ 63"
  shows "decodeInt64 (be_bytes 32 (word_of_int v :: 256 word) @ rest) =
    Ok (word_of_int (if v < 0 then v mod 2 ^ 32 - 2 ^ 32 else v))"
proof -
  let ?w = "word_of_int v :: 256 word" and ?data = "be_bytes 32 (word_of_int v :: 256 word) @ rest"
  have len: "32 \<le> length ?data" by simp
  have whole: "be_nat (take 32 ?data) = unat ?w" by (simp add: be_nat_word)
  note parts = word_parts [OF len, of 24, unfolded whole, simplified]
  have bit: "?data ! 0 AND 0x80 \<noteq> 0 \<longleftrightarrow> v < 0"
  proof -
    have "bit ?w 255 \<longleftrightarrow> v < 0"
    proof -
      have "sint ?w = v" using assms
        by (simp add: sint_uint uint_word_of_int_eq signed_take_bit_take_bit signed_take_bit_int_eq_self)
      moreover have "bit ?w 255 \<longleftrightarrow> sint ?w < 0" using bit_last_iff [of ?w] by simp
      ultimately show ?thesis by simp
    qed
    then show ?thesis using be_bytes_msb [of ?w] by (simp add: nth_append)
  qed
  show ?thesis
  proof (cases "v < 0")
    case False
    then have u: "unat ?w = nat v" using assms by (simp add: unat_eq_nat_uint uint_word_of_int_eq take_bit_int_eq_self)
    have "nat v < 2 ^ 64" using assms False by simp
    then show ?thesis
      using False bit parts by (simp add: decodeInt64_def Let_def leading_zeros shift_in_nat u)
  next
    case True
    have u: "unat ?w = nat (v + 2 ^ 256)"
    proof -
      have "uint ?w = v mod 2 ^ 256" by (simp add: uint_word_of_int)
      also have "\<dots> = (v + 2 ^ 256) mod 2 ^ 256" by simp
      also have "\<dots> = v + 2 ^ 256" using assms True by (subst mod_pos_pos_trivial) simp_all
      finally show ?thesis by (simp add: unat_eq_nat_uint)
    qed
    have r: "nat (v + 2 ^ 256) = (256 ^ 24 - 1) * 256 ^ 8 + nat (v + 2 ^ 64)" "nat (v + 2 ^ 64) < 256 ^ 8"
      using assms True by (simp_all add: nat_eq_iff)
    then have "nat (v + 2 ^ 256) div 256 ^ 8 = 256 ^ 24 - 1" "nat (v + 2 ^ 256) mod 256 ^ 8 = nat (v + 2 ^ 64)"
      by (simp_all only: div_mult_self3 mod_mult_self3 div_less mod_less)
    then have low: "be_nat (take 8 (drop 24 ?data)) = nat (v + 2 ^ 64)" and ones: "all_bytes 0xFF (take 24 ?data)"
      using parts u by (simp_all add: all_ones)
    have "(word_of_nat (nat (v + 2 ^ 64)) :: u64) = word_of_int v"
      using assms True by (simp add: word_of_nat_eq_iff)
    moreover have "decodeInt64 ?data = Ok (shift_in (take 8 (drop 24 ?data)) OR NOT (2 ^ 32 - 1))"
      using True bit ones by (simp add: decodeInt64_def)
    ultimately have "decodeInt64 ?data = Ok (take_bit 32 (word_of_int v) - 2 ^ 32)"
      unfolding upper_ones shift_in_nat low by simp
    then show ?thesis using True by (simp add: take_bit_word_of_int)
  qed
qed

section \<open>Dynamic values\<close>

lemma decode_length_mid:
  assumes "encodeUint256 n = Ok w" and "n < 2 ^ 63" and "int (length (pre @ w @ post)) < 2 ^ 63"
  shows "decode_length (pre @ w @ post) (int (length pre)) what = Ok n"
proof -
  have w: "length w = 32" "0 \<le> n" using assms(1) by (auto simp: encodeUint256_Ok)
  then have sum: "wrap_i64 (int (length pre) + 32) = int (length pre) + 32"
    using assms(3) by (intro wrap_i64_id) simp_all
  have "slice (pre @ w @ post) (int (length pre)) (int (length pre) + 32) = Ok w"
    using slice_mid [of w 32 pre post] w by simp
  moreover have "decodeUint256 w = Ok n" using decodeUint256_encode [OF assms(1), of "[]"] by simp
  ultimately show ?thesis
    using w assms(2) by (simp add: decode_length_def sum wrap_err_def wrap_i64_id)
qed

lemma padded_bounds: "0 \<le> n \<Longrightarrow> n \<le> padded_length n \<and> padded_length n \<le> n + 31"
  unfolding padded_length_def by presburger

text \<open>Decoding what was encoded, anywhere in the data, gives the bytes back and the offset after the padding.\<close>

theorem decode_encode_bytes:
  assumes "encodeBytes bs = Ok enc" and "int (length (pre @ enc @ post)) < 2 ^ 63" and "length bs \<le> 2 ^ 48"
  shows "decodeBytes (pre @ enc @ post) (int (length pre)) = Ok (bs, int (length pre) + int (length enc))"
proof -
  let ?n = "int (length bs)" and ?o = "int (length pre)"
  define pad where "pad = replicate (nat (padded_length ?n) - length bs) (0 :: u8)"
  obtain w where w: "encodeUint256 ?n = Ok w" and enc: "enc = w @ bs @ pad"
    using assms(1) by (auto simp: encodeBytes_def outcome_simps pad_def)
  have lw: "length w = 32" using w by (auto simp: encodeUint256_Ok)
  have lp: "int (length pad) = padded_length ?n - ?n" using padded_bounds [of ?n] unfolding pad_def by simp linarith
  have total: "?o + 32 + padded_length ?n + int (length post) < 2 ^ 63" using assms(2) lw lp by (simp add: enc)
  have small: "?n < 2 ^ 63" "?n \<le> padded_length ?n" using assms(3) padded_bounds [of ?n] by simp_all
  have len: "decode_length (pre @ enc @ post) ?o ''bytes'' = Ok ?n"
    using decode_length_mid [OF w small(1), of pre "bs @ pad @ post"] assms(2) by (simp add: enc)
  have wraps: "wrap_i64 (?o + 32) = ?o + 32" "wrap_i64 (?o + 32 + ?n) = ?o + 32 + ?n"
    "wrap_i64 (?o + 32 + padded_length ?n) = ?o + 32 + padded_length ?n"
    using total small by (simp_all add: wrap_i64_id)
  have "slice (pre @ enc @ post) (?o + 32) (?o + 32 + ?n) = Ok bs"
    using slice_mid [OF refl, of "pre @ w" bs "pad @ post"] lw by (simp add: enc add.commute)
  moreover have "?o + 32 + ?n \<le> int (length (pre @ enc @ post))" using lw by (simp add: enc)
  moreover have "int (length enc) = 32 + padded_length ?n" using lw lp by (simp add: enc)
  ultimately show ?thesis
    using assms(3) by (simp add: decodeBytes_def len wraps make_ok_def del: length_append)
qed

theorem decode_encode_string:
  assumes "encodeString s = Ok enc" and "int (length (pre @ enc @ post)) < 2 ^ 63" and "length s \<le> 2 ^ 48"
  shows "decodeString (pre @ enc @ post) (int (length pre)) = Ok (s, int (length pre) + int (length enc))"
proof -
  have "unat (word_of_nat (of_char c) :: u8) = of_char c" for c :: char
    by (simp add: unat_of_nat take_bit_nat_eq_self)
  then have "map (\<lambda>b. char_of (unat b)) (string_bytes s) = s" by (simp add: string_bytes_def o_def)
  then show ?thesis
    using decode_encode_bytes [of "string_bytes s" enc pre post] assms
    by (simp add: encodeString_def decodeString_def) (simp add: string_bytes_def)
qed

text \<open>A length that is negative as an \<open>int\<close> passes the check of the data and panics in the allocation, where the
  decoder was to report an error.\<close>

theorem oversized_length_panics:
  assumes "2 ^ 63 \<le> n" and "n < 2 ^ 64" and "encodeUint256 n = Ok w"
  shows "decodeBytes (w @ rest) 0 = Panic IndexOutOfRange"
proof -
  have w: "length w = 32" using assms(3) by (auto simp: encodeUint256_Ok)
  have "decodeUint256 w = Ok n" using decodeUint256_encode [OF assms(3), of "[]"] by simp
  moreover have "wrap_i64 n = n - 2 ^ 64"
  proof -
    have "(n + 2 ^ 63) mod 2 ^ 64 = (n - 2 ^ 63) mod 2 ^ 64" by (simp add: mod_eq_dvd_iff)
    then show ?thesis using assms(1,2) by (simp add: wrap_i64_def mod_pos_pos_trivial)
  qed
  moreover have "wrap_i64 (32 + (n - 2 ^ 64)) = 32 + (n - 2 ^ 64)" using assms(1,2) by (intro wrap_i64_id) simp_all
  ultimately have "decode_length (w @ rest) 0 ''bytes'' = Ok (n - 2 ^ 64)" "wrap_i64 (32 + (n - 2 ^ 64)) \<le> 31"
    using assms(2) w by (simp_all add: decode_length_def wrap_i64_id slice_def wrap_err_def)
  then show ?thesis using assms(2) w by (simp add: decodeBytes_def make_ok_def)
qed

section \<open>Arrays\<close>

text \<open>What an array needs of its elements: a word each, read back by the element decoder.\<close>

locale word_codec =
  fixes enc :: "'a \<Rightarrow> bytes" and dec :: "bytes \<Rightarrow> 'a outcome"
  assumes length_enc: "length (enc x) = 32"
    and dec_enc: "dec (enc x) = Ok x"
begin

lemma elements:
  assumes "int (length (pre @ concat (map enc xs) @ post)) < 2 ^ 63"
  shows "decode_elements dec (pre @ concat (map enc xs) @ post) (length xs) (int (length pre)) =
    Ok (xs, int (length pre) + 32 * int (length xs))"
  using assms
proof (induction xs arbitrary: pre)
  case (Cons x xs)
  have "decode_elements dec ((pre @ enc x) @ concat (map enc xs) @ post) (length xs) (int (length (pre @ enc x))) =
      Ok (xs, int (length (pre @ enc x)) + 32 * int (length xs))"
    by (rule Cons.IH) (use Cons.prems in simp)
  moreover have "wrap_i64 (int (length pre) + 32) = int (length pre) + 32"
    using Cons.prems length_enc [of x] by (intro wrap_i64_id) simp_all
  ultimately show ?case
    using slice_mid [of "enc x" 32 pre "concat (map enc xs) @ post"]
    by (simp add: length_enc dec_enc wrap_err_def)
qed simp

lemma array:
  assumes "encodeUint256 (int (length xs)) = Ok w" and "length xs * 16 \<le> 2 ^ 48"
    and "int (length (pre @ w @ concat (map enc xs) @ post)) < 2 ^ 63"
  shows "decodeArray (pre @ w @ concat (map enc xs) @ post) (int (length pre)) dec =
    Ok (xs, int (length pre) + 32 + 32 * int (length xs))"
proof -
  have w: "length w = 32" using assms(1) by (auto simp: encodeUint256_Ok)
  have n: "int (length xs) < 2 ^ 63" using assms(2) by simp
  have "decode_length (pre @ w @ concat (map enc xs) @ post) (int (length pre)) ''array'' = Ok (int (length xs))"
    using assms(3) by (intro decode_length_mid [OF assms(1) n]) simp
  moreover have "wrap_i64 (int (length pre) + 32) = int (length pre) + 32"
    using assms(3) w by (intro wrap_i64_id) simp_all
  moreover have "int (length xs) * 16 \<le> 2 ^ 48" using assms(2) by simp
  ultimately show ?thesis
    using elements [of "pre @ w" xs post] assms(3) w by (simp add: decodeArray_def make_ok_def add.commute)
qed

end

interpretation address_word: word_codec encodeAddress decodeAddress
  by unfold_locales (use decodeAddress_encode [of _ "[]"] in simp_all)

interpretation bool_word: word_codec encodeBool decodeBool
  by unfold_locales (use decodeBool_encode [of _ "[]"] in simp_all)

interpretation hash_word: word_codec bytes32_bytes decodeHash
  by unfold_locales (simp_all add: bytes32_bytes_def decodeHash_def be_nat_word)

section \<open>Packing\<close>

text \<open>The packed text is the selector's bytes followed by the encoded arguments.\<close>

theorem packed_bytes:
  assumes "Pack m args = Ok s" and "args \<noteq> []"
  shows "\<exists>selector enc. HexData_Bytes (mi_Selector m) = Ok selector \<and> encode_args args = Ok enc \<and>
    HexData_Bytes s = Ok (selector @ enc)"
proof -
  obtain selector enc where "HexData_Bytes (mi_Selector m) = Ok selector" "encode_args args = Ok enc"
    and s: "s = ''0x'' @ bytes_text (selector @ enc)"
    using assms by (auto simp: Pack_def outcome_simps split: if_splits)
  moreover have "HexData_Bytes s = Ok (selector @ enc)"
    by (simp add: s HexData_Bytes_def strip_0x_def hex_or_panic_def hex_DecodeString_text)
  ultimately show ?thesis by blast
qed

text \<open>A string is packed in place of its offset: the first word after the selector is the length of the string,
  where the ABI has the offset of the tail.\<close>

theorem string_packed_in_place:
  assumes "Pack m [PString t] = Ok s" and "HexData_Bytes (mi_Selector m) = Ok selector"
  shows "\<exists>enc. HexData_Bytes s = Ok (selector @ enc) \<and> decodeUint256 enc = Ok (int (length t))"
proof -
  obtain enc where s: "HexData_Bytes s = Ok (selector @ enc)" and "encodeString t = Ok enc"
    using packed_bytes [OF assms(1)] assms(2) by (auto simp: encode_arg_def outcome_simps)
  then obtain w where "encodeUint256 (int (length t)) = Ok w" "\<exists>rest. enc = w @ rest"
    by (auto simp: encodeString_def encodeBytes_def outcome_simps string_bytes_def)
  then have "decodeUint256 enc = Ok (int (length t))" using decodeUint256_encode by blast
  with s show ?thesis by blast
qed

end
