(* ===== verification/IAuthority.thy ===== *)
theory IAuthority
  imports ABICodec
begin

text \<open>
  \<^verbatim>\<open>stats/contracts/generated/iauthority\<close>: the binding of the built-in Authority contract. Its
  codec is the text of the list binding again, so the encoders and decoders are those of
  AuthorityABI and ABICodec; what is its own are its three methods. Nothing in the program calls it yet.
\<close>

section \<open>Methods\<close>

definition GetFirstMethod :: method_info where
  "GetFirstMethod = \<lparr>mi_Name = ''first'', mi_Signature = ''first()'', mi_Selector = ''0x3df4ddf4''\<rparr>"

definition GetGetMethod :: method_info where
  "GetGetMethod = \<lparr>mi_Name = ''get'', mi_Signature = ''get(address)'', mi_Selector = ''0xc2bc2efc''\<rparr>"

definition GetNextMethod :: method_info where
  "GetNextMethod = \<lparr>mi_Name = ''next'', mi_Signature = ''next(address)'', mi_Selector = ''0xab73e316''\<rparr>"

text \<open>\<open>first\<close> and \<open>next\<close> return one address.\<close>

definition FirstMethod_decodeImpl :: "bytes \<Rightarrow> address outcome" where
  "FirstMethod_decodeImpl data =
     (if length data < 32 then Err (ErrMsg ''insufficient data for return value'')
      else bind_outcome (slice data 0 32) decodeAddress)"

definition NextMethod_decodeImpl :: "bytes \<Rightarrow> address outcome" where
  "NextMethod_decodeImpl data =
     (if length data < 32 then Err (ErrMsg ''insufficient data for return value'')
      else bind_outcome (slice data 0 32) decodeAddress)"

record GetResult =
  gr_Listed :: bool
  gr_Endorsor :: address
  gr_Identity :: bytes32
  gr_Active :: bool

definition no_result :: GetResult where
  "no_result = \<lparr>gr_Listed = False, gr_Endorsor = Address 0, gr_Identity = Bytes32 0, gr_Active = False\<rparr>"

text \<open>
  The result is returned beside the error, with the fields read so far. After the second field comes a
  \<open>return\<close>, so the code that reads the fourth is never reached.
\<close>

definition GetMethod_decodeImpl :: "bytes \<Rightarrow> (GetResult \<times> gerror option) outcome" where
  "GetMethod_decodeImpl data =
     (if length data < 32 then Ok (no_result, Some (ErrMsg ''insufficient data for return value 0'')) else
      bind_outcome (slice data 0 32) (\<lambda>w0.
      case decodeBool w0 of
        Panic p \<Rightarrow> Panic p
      | Err e \<Rightarrow> Ok (no_result, Some (ErrWrap ''decoding return value 0'' e))
      | Ok listed \<Rightarrow>
          let r1 = no_result\<lparr>gr_Listed := listed\<rparr> in
          if length data < 64 then Ok (r1, Some (ErrMsg ''insufficient data for return value 1'')) else
          bind_outcome (slice data 32 64) (\<lambda>w1.
          case decodeAddress w1 of
            Panic p \<Rightarrow> Panic p
          | Err e \<Rightarrow> Ok (r1, Some (ErrWrap ''decoding return value 1'' e))
          | Ok endorsor \<Rightarrow>
              Ok (r1\<lparr>gr_Endorsor := endorsor\<rparr>, Some (ErrMsg ''unsupported multi-return type: [32]byte'')))))"

definition GetMethod_MustDecode :: "bytes \<Rightarrow> GetResult outcome" where
  "GetMethod_MustDecode data =
     bind_outcome (GetMethod_decodeImpl data) (\<lambda>(r, e). if e \<noteq> None then Panic ExplicitPanic else Ok r)"

section \<open>Properties\<close>

text \<open>What the contract returns for \<open>get\<close>.\<close>

definition encode_GetResult :: "GetResult \<Rightarrow> bytes" where
  "encode_GetResult r = encodeBool (gr_Listed r) @ encodeAddress (gr_Endorsor r) @ bytes32_bytes (gr_Identity r) @
     encodeBool (gr_Active r)"

lemma slices: "32 \<le> length data \<Longrightarrow> slice data 0 32 = Ok (take 32 data)"
  "64 \<le> length data \<Longrightarrow> slice data 32 64 = Ok (take 32 (drop 32 data))"
  by (simp_all add: slice_def)

lemma word_decoders: "32 \<le> length w \<Longrightarrow> \<exists>x. decodeBool w = Ok x" "32 \<le> length w \<Longrightarrow> \<exists>x. decodeAddress w = Ok x"
  by (simp_all add: decodeBool_def decodeAddress_def)

text \<open>The answer of \<open>get\<close> is never decoded: whatever the data, an error is returned, so \<open>MustDecode\<close> always
  panics; given the contract's own answer the two fields before the identity are right and the other two are left
  at zero.\<close>

theorem get_never_decodes:
  "(\<exists>r e. GetMethod_decodeImpl data = Ok (r, Some e)) \<and> GetMethod_MustDecode data = Panic ExplicitPanic \<and>
   GetMethod_decodeImpl (encode_GetResult r) =
     Ok (no_result\<lparr>gr_Listed := gr_Listed r, gr_Endorsor := gr_Endorsor r\<rparr>,
       Some (ErrMsg ''unsupported multi-return type: [32]byte''))"
proof -
  obtain x e where fail: "GetMethod_decodeImpl data = Ok (x, Some e)"
  proof (cases "64 \<le> length data")
    case True
    then obtain l a where "decodeBool (take 32 data) = Ok l" "decodeAddress (take 32 (drop 32 data)) = Ok a"
      using word_decoders(1) [of "take 32 data"] word_decoders(2) [of "take 32 (drop 32 data)"] by auto
    with True show thesis by (intro that) (simp add: GetMethod_decodeImpl_def slices Let_def)
  next
    case short: False
    show thesis
    proof (cases "32 \<le> length data")
      case True
      then obtain l where "decodeBool (take 32 data) = Ok l" using word_decoders(1) [of "take 32 data"] by auto
      with True short show thesis by (intro that) (simp add: GetMethod_decodeImpl_def slices Let_def)
    qed (intro that, simp add: GetMethod_decodeImpl_def)
  qed
  moreover have "GetMethod_decodeImpl (encode_GetResult r) =
      Ok (no_result\<lparr>gr_Listed := gr_Listed r, gr_Endorsor := gr_Endorsor r\<rparr>,
        Some (ErrMsg ''unsupported multi-return type: [32]byte''))"
    using decodeBool_encode [of "gr_Listed r" "[]"] decodeAddress_encode [of "gr_Endorsor r" "[]"]
    by (simp add: GetMethod_decodeImpl_def encode_GetResult_def slices Let_def)
  ultimately show ?thesis by (simp add: GetMethod_MustDecode_def)
qed

text \<open>\<open>first\<close> and \<open>next\<close> decode the encoding of an address, and no shorter data.\<close>

theorem decode_encode_first:
  "FirstMethod_decodeImpl (encodeAddress a @ rest) = Ok a \<and> NextMethod_decodeImpl (encodeAddress a @ rest) = Ok a \<and>
   (length data < 32 \<longrightarrow> FirstMethod_decodeImpl data = Err (ErrMsg ''insufficient data for return value''))"
  using decodeAddress_encode [of a "[]"] by (simp add: FirstMethod_decodeImpl_def NextMethod_decodeImpl_def slices)

lemma selector_texts:
  "bytes_text [0xc2, 0xbc, 0x2e, 0xfc] = ''c2bc2efc''" "bytes_text [0xab, 0x73, 0xe3, 0x16] = ''ab73e316''"
  by (simp_all add: bytes_text_def hex_text_byte hex_char_def char_of_def bit_0 del: hex_text.simps)

lemma selectors:
  "HexData_Bytes ''0xc2bc2efc'' = Ok [0xc2, 0xbc, 0x2e, 0xfc]" "HexData_Bytes ''0xab73e316'' = Ok [0xab, 0x73, 0xe3, 0x16]"
  "HexData_Bytes ''0x3df4ddf4'' = Ok [0x3d, 0xf4, 0xdd, 0xf4]"
  by (simp_all add: HexData_Bytes_def strip_0x_def hex_or_panic_def hex_digit_def Let_def)

lemma bytes_text_append: "bytes_text (xs @ ys) = bytes_text xs @ bytes_text ys"
  by (simp add: bytes_text_def)

text \<open>A call of \<open>get\<close> or \<open>next\<close> is the selector and the padded address.\<close>

theorem packed_address_call:
  "Pack GetGetMethod [PAddress a] = Ok (''0xc2bc2efc'' @ bytes_text (encodeAddress a))"
  "Pack GetNextMethod [PAddress a] = Ok (''0xab73e316'' @ bytes_text (encodeAddress a))"
  "Pack GetFirstMethod [] = Ok ''0x3df4ddf4''"
  by (simp_all add: Pack_def GetGetMethod_def GetNextMethod_def GetFirstMethod_def encode_arg_def bytes_text_append selector_texts selectors
    del: append_Cons)

end
