(* ===== verification/Bindings.thy ===== *)
theory Bindings
  imports IAuthority
begin

text \<open>
  The surface of the two generated bindings (\<^verbatim>\<open>stats/contracts/generated\<close>): the registries of
  methods, \<open>Decode\<close> and \<open>MustDecode\<close> of each method, the accessors of the hexadecimal types, and
  the decoders of array elements, whose results are untyped (\<open>interface{}\<close>).
\<close>

section \<open>The list binding\<close>

definition Hash_Bytes :: "bytes32 \<Rightarrow> bytes" where
  "Hash_Bytes h = bytes32_bytes h"

definition HexData_Hex :: "string \<Rightarrow> string" where
  "HexData_Hex s = s"

datatype element = EBig int | EAddress address | EBool bool

definition decodeUint256ArrayElement :: "bytes \<Rightarrow> element outcome" where
  "decodeUint256ArrayElement data = bind_outcome (decodeUint256 data) (\<lambda>x. Ok (EBig x))"

definition decodeInt256ArrayElement :: "bytes \<Rightarrow> element outcome" where
  "decodeInt256ArrayElement data = bind_outcome (decodeInt256 data) (\<lambda>x. Ok (EBig x))"

definition decodeAddressArrayElement :: "bytes \<Rightarrow> element outcome" where
  "decodeAddressArrayElement data = bind_outcome (decodeAddress data) (\<lambda>a. Ok (EAddress a))"

definition decodeBoolArrayElement :: "bytes \<Rightarrow> element outcome" where
  "decodeBoolArrayElement data = bind_outcome (decodeBool data) (\<lambda>x. Ok (EBool x))"

text \<open>A method of the registry: the embedded \<open>PackableMethod\<close> has the fields of \<open>MethodInfo\<close>.\<close>

definition AuthorityMethod :: method_info where
  "AuthorityMethod = \<lparr>mi_Name = ''authority'', mi_Signature = ''authority()'', mi_Selector = ''0xbf7e214f''\<rparr>"

definition ListMethod :: method_info where
  "ListMethod = \<lparr>mi_Name = ''list'', mi_Signature = ''list()'', mi_Selector = ''0x0f560cd7''\<rparr>"

definition AuthorityMethod_Decode :: "bytes \<Rightarrow> address outcome" where
  "AuthorityMethod_Decode data = AuthorityMethod_decodeImpl data"

definition AuthorityMethod_MustDecode :: "bytes \<Rightarrow> address outcome" where
  "AuthorityMethod_MustDecode data = must_decode (AuthorityMethod_decodeImpl data)"

definition ListMethod_Decode :: "bytes \<Rightarrow> AuthorityNode list outcome" where
  "ListMethod_Decode data = ListMethod_decodeImpl data"

definition ListMethod_MustDecode :: "bytes \<Rightarrow> AuthorityNode list outcome" where
  "ListMethod_MustDecode data = must_decode (ListMethod_decodeImpl data)"

section \<open>The binding of the built-in contract\<close>

definition FirstMethod :: method_info where
  "FirstMethod = \<lparr>mi_Name = ''first'', mi_Signature = ''first()'', mi_Selector = ''0x3df4ddf4''\<rparr>"

definition GetMethod :: method_info where
  "GetMethod = \<lparr>mi_Name = ''get'', mi_Signature = ''get(address)'', mi_Selector = ''0xc2bc2efc''\<rparr>"

definition NextMethod :: method_info where
  "NextMethod = \<lparr>mi_Name = ''next'', mi_Signature = ''next(address)'', mi_Selector = ''0xab73e316''\<rparr>"

definition FirstMethod_Decode :: "bytes \<Rightarrow> address outcome" where
  "FirstMethod_Decode data = FirstMethod_decodeImpl data"

definition FirstMethod_MustDecode :: "bytes \<Rightarrow> address outcome" where
  "FirstMethod_MustDecode data = must_decode (FirstMethod_decodeImpl data)"

definition GetMethod_Decode :: "bytes \<Rightarrow> (GetResult \<times> gerror option) outcome" where
  "GetMethod_Decode data = GetMethod_decodeImpl data"

definition NextMethod_Decode :: "bytes \<Rightarrow> address outcome" where
  "NextMethod_Decode data = NextMethod_decodeImpl data"

definition NextMethod_MustDecode :: "bytes \<Rightarrow> address outcome" where
  "NextMethod_MustDecode data = must_decode (NextMethod_decodeImpl data)"

section \<open>Properties\<close>

text \<open>The registry and the functions that describe the methods agree.\<close>

theorem registry_agrees:
  "AuthorityMethod = GetAuthorityMethod \<and> ListMethod = GetListMethod \<and> FirstMethod = GetFirstMethod \<and>
   GetMethod = GetGetMethod \<and> NextMethod = GetNextMethod"
  by (simp add: AuthorityMethod_def GetAuthorityMethod_def ListMethod_def GetListMethod_def FirstMethod_def
      GetFirstMethod_def GetMethod_def GetGetMethod_def NextMethod_def GetNextMethod_def)

lemma must_decode_Ok [simp]: "must_decode r = Ok x \<longleftrightarrow> r = Ok x"
  by (cases r) (simp_all add: must_decode_def)

lemma must_decode_not_Err [simp]: "must_decode r \<noteq> Err e"
  by (cases r) (simp_all add: must_decode_def)

text \<open>\<open>MustDecode\<close> returns what \<open>Decode\<close> returns, and never an error: it panics instead.\<close>

theorem MustDecode_returns:
  "(ListMethod_MustDecode data = Ok ns \<longleftrightarrow> ListMethod_Decode data = Ok ns) \<and> ListMethod_MustDecode data \<noteq> Err e \<and>
   (AuthorityMethod_MustDecode data = Ok a \<longleftrightarrow> AuthorityMethod_Decode data = Ok a) \<and>
   (FirstMethod_MustDecode data = Ok a \<longleftrightarrow> FirstMethod_Decode data = Ok a) \<and>
   (NextMethod_MustDecode data = Ok a \<longleftrightarrow> NextMethod_Decode data = Ok a)"
  by (simp add: ListMethod_MustDecode_def ListMethod_Decode_def AuthorityMethod_MustDecode_def AuthorityMethod_Decode_def
      FirstMethod_MustDecode_def FirstMethod_Decode_def NextMethod_MustDecode_def NextMethod_Decode_def)

text \<open>Wrapping the elements one by one or the decoded array afterwards is the same.\<close>

lemma decode_elements_map:
  "decode_elements (\<lambda>w. bind_outcome (dec w) (\<lambda>x. Ok (f x))) data n offset =
     bind_outcome (decode_elements dec data n offset) (\<lambda>(xs, next'). Ok (map f xs, next'))"
proof (induction n arbitrary: offset)
  case (Suc n)
  have "wrap_err m (bind_outcome (dec w) (\<lambda>x. Ok (f x))) = bind_outcome (wrap_err m (dec w)) (\<lambda>x. Ok (f x))" for m w
    by (cases "dec w") (simp_all add: wrap_err_def)
  then show ?case by (simp add: Suc.IH bind_outcome_assoc case_prod_unfold)
qed simp

lemma decodeArray_map:
  "decodeArray data offset (\<lambda>w. bind_outcome (dec w) (\<lambda>x. Ok (f x))) =
     bind_outcome (decodeArray data offset dec) (\<lambda>(xs, next'). Ok (map f xs, next'))"
  by (simp add: decodeArray_def decode_elements_map bind_outcome_assoc if_distrib [of "\<lambda>m. bind_outcome m g" for g] cong: if_cong)

text \<open>An encoded array of addresses is decoded into the untyped elements that hold these addresses.\<close>

theorem decode_address_array:
  assumes "encodeUint256 (int (length xs)) = Ok w" and "length xs * 16 \<le> 2 ^ 48"
    and "int (length (pre @ w @ concat (map encodeAddress xs) @ post)) < 2 ^ 63"
  shows "decodeArray (pre @ w @ concat (map encodeAddress xs) @ post) (int (length pre)) decodeAddressArrayElement =
    Ok (map EAddress xs, int (length pre) + 32 + 32 * int (length xs))"
proof -
  have elem: "decodeAddressArrayElement = (\<lambda>w. bind_outcome (decodeAddress w) (\<lambda>a. Ok (EAddress a)))"
    by (rule ext) (simp add: decodeAddressArrayElement_def)
  show ?thesis unfolding elem decodeArray_map address_word.array [OF assms] by simp
qed

theorem decode_address_array_witness:
  "\<exists>w. encodeUint256 2 = Ok w \<and>
     decodeArray (w @ encodeAddress (Address 7) @ encodeAddress (Address 9)) 0 decodeAddressArrayElement =
       Ok ([EAddress (Address 7), EAddress (Address 9)], 96)"
proof -
  obtain w where w: "encodeUint256 2 = Ok w" "length w = 32" by (auto simp: encodeUint256_def)
  from decode_address_array [of "[Address 7, Address 9]" w "[]" "[]"] w show ?thesis
    by (intro exI [of _ w]) (simp add: address_word.length_enc)
qed

end
