(* ===== verification/InfluxDB.thy ===== *)
theory InfluxDB
  imports Samples Channel
begin

text \<open>
  The rest of \<^verbatim>\<open>influxdb/influxdb.go\<close>: connecting, the text of the query behind
  \<open>Latest\<close>, and the goroutine that logs write errors, which \<open>Close\<close> stops and waits for.
\<close>

section \<open>New\<close>

text \<open>Pinging the server; the write API with its failure callback is the client library's.\<close>

definition influx_New :: "('w \<Rightarrow> gerror option \<times> 'w) \<Rightarrow> string \<Rightarrow> string \<Rightarrow> 'w \<Rightarrow> (gerror + string \<times> string) \<times> 'w" where
  "influx_New ping org bucket w =
     (case ping w of
        (Some e, w) \<Rightarrow> (Inl e, w)
      | (None, w) \<Rightarrow> (Inr (org, bucket), w))"

text \<open>A failed write is retried up to five times.\<close>

definition write_failed :: "nat \<Rightarrow> bool" where
  "write_failed retryAttempts \<longleftrightarrow> retryAttempts < 5"

section \<open>The query of Latest\<close>

definition DefaultQueryStartDate :: string where
  "DefaultQueryStartDate = ''2015-01-01T00:00:00Z''"

definition DefaultQueryEndDate :: string where
  "DefaultQueryEndDate = ''2100-01-01T00:00:00Z''"

definition quoted :: "string \<Rightarrow> string" where
  "quoted s = [CHR 0x22] @ s @ [CHR 0x22]"

definition query_line :: "string \<Rightarrow> string" where
  "query_line s = [CHR 0x0A, CHR 0x09, CHR 0x09] @ s"

definition last_line :: "string \<Rightarrow> string" where
  "last_line s = [CHR 0x0A] @ replicate 8 (CHR '' '') @ s"

definition latest_query :: "string \<Rightarrow> string" where
  "latest_query bucket =
     ''from(bucket: '' @ quoted bucket @ '')'' @
     query_line (''|> range(start: '' @ DefaultQueryStartDate @ '', stop: '' @ DefaultQueryEndDate @ '')'') @
     query_line (''|> filter(fn: (r) => r['' @ quoted ''_measurement'' @ ''] == '' @ quoted ''block_stats'' @ '')'') @
     query_line (''|> filter(fn: (r) => r['' @ quoted ''_field'' @ ''] == '' @ quoted ''best_block_number'' @ '')'') @
     last_line ''|> group()'' @ last_line ''|> last()''"

section \<open>The error goroutine and Close\<close>

datatype closing = NotClosed | Waiting | Closed "gerror option"

record influx_run =
  ir_cancelled :: bool
  ir_errors :: "gerror chan"
  ir_handling :: bool
  ir_logged :: "gerror list"
  ir_close :: closing

definition influx_start :: "nat \<Rightarrow> influx_run" where
  "influx_start n = \<lparr>ir_cancelled = False, ir_errors = make_chan n, ir_handling = True, ir_logged = [], ir_close = NotClosed\<rparr>"

text \<open>
  The library reports write errors and may close their channel; the goroutine logs them until the
  context is done or the channel is closed; \<open>Close\<close> cancels, then waits for the goroutine or the
  timeout, whichever comes first.
\<close>

inductive irstep :: "influx_run \<Rightarrow> influx_run \<Rightarrow> bool" where
  report: "chan_send (ir_errors s) e = Some c \<Longrightarrow> irstep s (s\<lparr>ir_errors := c\<rparr>)"
| no_more: "\<not> ch_closed (ir_errors s) \<Longrightarrow> irstep s (s\<lparr>ir_errors := chan_close (ir_errors s)\<rparr>)"
| logs: "\<lbrakk>ir_handling s; chan_recv (ir_errors s) = Some (e, c)\<rbrakk>
    \<Longrightarrow> irstep s (s\<lparr>ir_errors := c, ir_logged := ir_logged s @ [e]\<rparr>)"
| drained: "\<lbrakk>ir_handling s; chan_drained (ir_errors s)\<rbrakk> \<Longrightarrow> irstep s (s\<lparr>ir_handling := False\<rparr>)"
| stop: "\<lbrakk>ir_handling s; ir_cancelled s\<rbrakk> \<Longrightarrow> irstep s (s\<lparr>ir_handling := False\<rparr>)"
| close: "ir_close s = NotClosed \<Longrightarrow> irstep s (s\<lparr>ir_cancelled := True, ir_close := Waiting\<rparr>)"
| clean: "\<lbrakk>ir_close s = Waiting; \<not> ir_handling s\<rbrakk> \<Longrightarrow> irstep s (s\<lparr>ir_close := Closed None\<rparr>)"
| timeout: "ir_close s = Waiting
    \<Longrightarrow> irstep s (s\<lparr>ir_close := Closed (Some (ErrMsg ''timeout waiting for goroutine cleanup''))\<rparr>)"

inductive irreach :: "influx_run \<Rightarrow> influx_run \<Rightarrow> bool" for s0 where
  start: "irreach s0 s0"
| step: "irreach s0 s \<Longrightarrow> irstep s t \<Longrightarrow> irreach s0 t"

definition ir_inv :: "influx_run \<Rightarrow> bool" where
  "ir_inv s \<longleftrightarrow> (ir_close s \<noteq> NotClosed \<longrightarrow> ir_cancelled s) \<and> (ir_close s = Closed None \<longrightarrow> \<not> ir_handling s)"

lemma irreach_inv: "irreach (influx_start n) s \<Longrightarrow> ir_inv s"
proof (induction rule: irreach.induct)
  case start
  show ?case by (simp add: ir_inv_def influx_start_def)
next
  case (step s t)
  from step(2) step.IH show ?case by (induction rule: irstep.induct) (auto simp: ir_inv_def)
qed

text \<open>\<open>Close\<close> without an error means that the goroutine is gone, and while \<open>Close\<close> waits the goroutine can
  stop at once, so that a clean close is at most two steps away whatever errors are still queued.\<close>

theorem close_is_clean:
  assumes "irreach (influx_start n) s"
  shows "(ir_close s = Closed None \<longrightarrow> \<not> ir_handling s) \<and>
    (ir_close s = Waiting \<longrightarrow> (\<exists>u. (u = s \<or> irstep s u) \<and> irstep u (u\<lparr>ir_close := Closed None\<rparr>)))"
proof -
  have inv: "ir_inv s" using assms by (rule irreach_inv)
  moreover have "\<exists>u. (u = s \<or> irstep s u) \<and> irstep u (u\<lparr>ir_close := Closed None\<rparr>)" if waiting: "ir_close s = Waiting"
  proof (cases "ir_handling s")
    case True
    have "irstep s (s\<lparr>ir_handling := False\<rparr>)" using True waiting inv by (intro irstep.stop) (auto simp: ir_inv_def)
    moreover have "irstep (s\<lparr>ir_handling := False\<rparr>) (s\<lparr>ir_handling := False\<rparr>\<lparr>ir_close := Closed None\<rparr>)"
      using waiting by (intro irstep.clean) simp_all
    ultimately show ?thesis by blast
  next
    case False
    then show ?thesis using waiting irstep.clean by blast
  qed
  ultimately show ?thesis by (auto simp: ir_inv_def)
qed

end
