(* ===== verification/BackwardSpec.thy ===== *)
theory BackwardSpec
  imports BackwardSyncer
begin

text \<open>
  The contract of the backward syncer without its goroutines: a bag of block numbers to deliver.
  A step delivers the event of a number, gives a number up after a failure, or, once it was cancelled,
  forgets one. The producer, the work channel and the workers implement it.
\<close>

record sender =
  sn_todo :: "u32 multiset"
  sn_sent :: "(u32 \<times> BlockEvent) list"
  sn_failed :: "u32 list"
  sn_cancelled :: bool

definition sender_start :: "u32 \<Rightarrow> u32 \<Rightarrow> sender" where
  "sender_start lo hi = \<lparr>sn_todo = span lo hi, sn_sent = [], sn_failed = [], sn_cancelled = False\<rparr>"

inductive sender_step :: "(u32 \<Rightarrow> BlockEvent outcome \<Rightarrow> bool) \<Rightarrow> sender \<Rightarrow> sender \<Rightarrow> bool" for may where
  deliver: "n \<in># sn_todo a \<Longrightarrow> may n (Ok e) \<Longrightarrow>
     sender_step may a (a\<lparr>sn_todo := sn_todo a - {#n#}, sn_sent := sn_sent a @ [(n, e)]\<rparr>)"
| give_up: "n \<in># sn_todo a \<Longrightarrow> may n (Err err) \<Longrightarrow>
     sender_step may a (a\<lparr>sn_todo := sn_todo a - {#n#}, sn_failed := sn_failed a @ [n]\<rparr>)"
| cancelled: "\<not> sn_cancelled a \<Longrightarrow> sender_step may a (a\<lparr>sn_cancelled := True\<rparr>)"
| forget: "n \<in># sn_todo a \<Longrightarrow> sn_cancelled a \<Longrightarrow> sender_step may a (a\<lparr>sn_todo := sn_todo a - {#n#}\<rparr>)"

inductive_simps sender_step_iff: "sender_step may a b"

text \<open>What is still to deliver: not produced yet, in the channel, or with a worker.\<close>

definition backward_abs :: "bsync \<Rightarrow> sender" where
  "backward_abs s =
     \<lparr>sn_todo = span (bs_minBlock s) (bs_blockNum s) + mset (ch_buf (bs_workChan s)) + held s,
      sn_sent = bs_sent s, sn_failed = bs_failed s, sn_cancelled = bs_cancelled s\<rparr>"

lemma abs_todo_accounted:
  "accounted_numbers s = sn_todo (backward_abs s) + mset (map fst (bs_sent s)) + mset (bs_failed s)"
  by (simp add: accounted_numbers_def backward_abs_def)

text \<open>Steps that neither send nor fail keep the abstract state, given the accounting.\<close>

lemma abs_same:
  assumes "accounted_numbers t = accounted_numbers s" and "bs_sent t = bs_sent s" and "bs_failed t = bs_failed s"
    and "bs_cancelled t = bs_cancelled s"
  shows "backward_abs t = backward_abs s"
proof -
  have "sn_todo (backward_abs t) = sn_todo (backward_abs s)"
    using assms unfolding abs_todo_accounted by simp
  then show ?thesis using assms(2-4) by (simp add: backward_abs_def)
qed

lemma holds_todo: "worker_at s i v \<Longrightarrow> holds v \<subseteq># sn_todo (backward_abs s)"
proof -
  assume w: "worker_at s i v"
  have "held (set_worker i BDone s) + holds v = held s" using held_set_worker [OF w, of BDone] by simp
  then have "holds v \<subseteq># held s" by (metis mset_subset_eq_add_right)
  then show ?thesis by (simp add: backward_abs_def subset_mset.add_increasing)
qed

lemma abs_release:
  assumes "worker_at s i v" and "holds v = {#n#}" and "holds v' = {#}"
  shows "sn_todo (backward_abs (set_worker i v' s)) = sn_todo (backward_abs s) - {#n#}"
proof -
  have "held (set_worker i v' s) + {#n#} = held s" using held_set_worker [OF assms(1), of v'] assms(2,3) by simp
  then have "held s = held (set_worker i v' s) + {#n#}" by simp
  then show ?thesis by (simp add: backward_abs_def)
qed

lemma bstep_simulates:
  "bstep may s t \<Longrightarrow> events_from may s \<Longrightarrow> backward_abs t = backward_abs s \<or> sender_step may (backward_abs s) (backward_abs t)"
proof (induction rule: bstep.induct)
  case (produce s c)
  have "accounted_numbers (s\<lparr>bs_workChan := c, bs_blockNum := bs_blockNum s - 1\<rparr>) = accounted_numbers s"
    using produce(3,4) by (rule accounted_produce)
  then show ?case by (intro disjI1 abs_same) simp_all
next
  case (take s i n c)
  have "accounted_numbers (set_worker i (BProcessing n) (s\<lparr>bs_workChan := c\<rparr>)) = accounted_numbers s"
    using take(2,3) by (rule accounted_take)
  then show ?case by (intro disjI1 abs_same) simp_all
next
  case (failed s i n err)
  let ?s = "s\<lparr>bs_failed := bs_failed s @ [n]\<rparr>"
  have w: "worker_at ?s i (BProcessing n)" using failed(2) by (simp add: worker_at_def)
  have "sn_todo (backward_abs (set_worker i BWaiting ?s)) = sn_todo (backward_abs ?s) - {#n#}"
    by (rule abs_release [OF w]) simp_all
  moreover have "sn_todo (backward_abs ?s) = sn_todo (backward_abs s)" by (simp add: backward_abs_def held_def)
  ultimately have "backward_abs (set_worker i BWaiting ?s) = (backward_abs s)\<lparr>sn_todo := sn_todo (backward_abs s) - {#n#},
      sn_failed := sn_failed (backward_abs s) @ [n]\<rparr>" by (simp add: backward_abs_def)
  moreover have "n \<in># sn_todo (backward_abs s)" using holds_todo [OF failed(2)] by simp
  ultimately show ?case using sender_step.give_up failed(3) by metis
next
  case (sent s i n e)
  let ?s = "s\<lparr>bs_sent := bs_sent s @ [(n, e)]\<rparr>"
  have w: "worker_at ?s i (BSending n e)" using sent(2) by (simp add: worker_at_def)
  have "sn_todo (backward_abs (set_worker i BWaiting ?s)) = sn_todo (backward_abs ?s) - {#n#}"
    by (rule abs_release [OF w]) simp_all
  moreover have "sn_todo (backward_abs ?s) = sn_todo (backward_abs s)" by (simp add: backward_abs_def held_def)
  ultimately have "backward_abs (set_worker i BWaiting ?s) = (backward_abs s)\<lparr>sn_todo := sn_todo (backward_abs s) - {#n#},
      sn_sent := sn_sent (backward_abs s) @ [(n, e)]\<rparr>" by (simp add: backward_abs_def)
  moreover have "n \<in># sn_todo (backward_abs s)" using holds_todo [OF sent(2)] by simp
  moreover have "may n (Ok e)" using sent(2,3) worker_at_set by (auto simp: events_from_def)
  ultimately show ?case using sender_step.deliver by metis
next
  case (send_cancelled s i n e)
  have "sn_todo (backward_abs (set_worker i BDone s)) = sn_todo (backward_abs s) - {#n#}"
    by (rule abs_release [OF send_cancelled(2)]) simp_all
  then have "backward_abs (set_worker i BDone s) = (backward_abs s)\<lparr>sn_todo := sn_todo (backward_abs s) - {#n#}\<rparr>"
    by (simp add: backward_abs_def)
  moreover have "n \<in># sn_todo (backward_abs s)" using holds_todo [OF send_cancelled(2)] by simp
  moreover have "sn_cancelled (backward_abs s)" using send_cancelled(3) by (simp add: backward_abs_def)
  ultimately show ?case using sender_step.forget by metis
next
  case (cancel s)
  have "backward_abs (s\<lparr>bs_cancelled := True\<rparr>) = (backward_abs s)\<lparr>sn_cancelled := True\<rparr>" by (simp add: backward_abs_def held_def)
  moreover have "\<not> sn_cancelled (backward_abs s)" using cancel(2) by (simp add: backward_abs_def)
  ultimately show ?case using sender_step.cancelled by metis
next
  case (finish s i)
  then show ?case using accounted_worker [OF finish(2), of BDone] by (intro disjI1 abs_same) simp_all
next
  case (quit s i)
  then show ?case using accounted_worker [OF quit(2), of BDone] by (intro disjI1 abs_same) simp_all
next
  case (processed s i n e)
  then show ?case using accounted_worker [OF processed(2), of "BSending n e"] by (intro disjI1 abs_same) simp_all
qed (auto intro!: disjI1 abs_same)

section \<open>Properties\<close>

text \<open>C15: The producer, the channel and the hundred workers refine the bag of numbers: the syncer starts with the
  whole range to deliver, and every step of every interleaving delivers one number with the event of its block, gives
  one up because its processing failed, cancels, forgets one after the cancellation, or changes nothing that can be
  seen. A number is never forgotten before.\<close>

theorem backward_refines:
  assumes "breach may head backSyncBlocks s" and "bstep may s t"
  shows "backward_abs (NewBackwardSyncer head backSyncBlocks) = sender_start (backward_minBlock head backSyncBlocks) head \<and>
    (backward_abs t = backward_abs s \<or> sender_step may (backward_abs s) (backward_abs t))"
proof
  have "sum_list (map holds (replicate k BWaiting)) = {#}" for k by (induction k) auto
  then show "backward_abs (NewBackwardSyncer head backSyncBlocks) = sender_start (backward_minBlock head backSyncBlocks) head"
    by (simp add: backward_abs_def sender_start_def NewBackwardSyncer_def held_def make_chan_def)
  show "backward_abs t = backward_abs s \<or> sender_step may (backward_abs s) (backward_abs t)"
    using assms(2) breach_events [OF assms(1)] by (rule bstep_simulates)
qed

text \<open>The step in which the event of block 1 is handed over is a step of the specification.\<close>

lemma delivering_step:
  "\<exists>s t. breach (service_may (sample_fetcher 100 0)) 1 1 s \<and> bstep (service_may (sample_fetcher 100 0)) s t \<and>
     bs_sent s = [] \<and> bs_sent t = [(1, sample_event)]"
proof -
  obtain t where "breach (service_may (sample_fetcher 100 0)) 1 1 t" "bs_sent t = [(1, sample_event)]" using sample_run by blast
  then show ?thesis
  proof (induction rule: breach.induct)
    case start
    then show ?case by (simp add: NewBackwardSyncer_def)
  next
    case (step s t)
    from step(2) step.prems have "bs_sent s = [(1, sample_event)] \<or> bs_sent s = []"
      by (auto elim!: bstep.cases)
    then show ?case using step by blast
  qed
qed

theorem backward_refines_witness:
  "\<exists>s t. bstep (service_may (sample_fetcher 100 0)) s t \<and> bs_sent s = [] \<and> bs_sent t = [(1, sample_event)] \<and>
     sender_step (service_may (sample_fetcher 100 0)) (backward_abs s) (backward_abs t)"
proof -
  obtain s t where st: "breach (service_may (sample_fetcher 100 0)) 1 1 s" "bstep (service_may (sample_fetcher 100 0)) s t"
    "bs_sent s = []" "bs_sent t = [(1, sample_event)]" using delivering_step by blast
  then have "backward_abs t \<noteq> backward_abs s" by (auto simp: backward_abs_def)
  with backward_refines [OF st(1,2)] st show ?thesis by blast
qed

end
