(* ===== verification/FetchProps.thy ===== *)
theory FetchProps
  imports Samples
begin

text \<open>
  What holds of a fetched block: the properties of \<^verbatim>\<open>pubsub/block_fetcher.go\<close>,
  \<^verbatim>\<open>pubsub/event_block.go\<close> and the fetching half of \<^verbatim>\<open>stats/pos/staker.go\<close>, each
  with an instance.
\<close>

section \<open>FetchBlock\<close>

text \<open>C23: \<open>FetchBlock\<close> always returns, and a block it returns is good: it has the number asked for,
  staker information exactly from the Hayabusa fork on, and no authority nodes once Hayabusa is active;
  the cache keeps holding good blocks only.\<close>

theorem FetchBlock_total:
  assumes "clock_laws (bf_timer b) (fetch_attempt b n)" and "cache_inv b s"
  shows "\<exists>r s'. FetchBlock b n s = Some (r, s') \<and> cache_inv b s' \<and> (\<forall>x. r = Ok x \<longrightarrow> good_result b n x)"
proof -
  obtain r s' where "FetchBlock b n s = Some (r, s')" using FetchBlock_returns [OF assms(1)] by fastforce
  then show ?thesis using FetchBlock_inv [OF assms(2)] FetchBlock_good [OF assms(2)] by blast
qed

theorem FetchBlock_total_witness:
  "\<exists>r s'. FetchBlock (sample_fetcher 100 0) 2 ([], 0) = Some (r, s') \<and> cache_inv (sample_fetcher 100 0) s'"
proof -
  have "clock_laws (bf_timer (sample_fetcher 100 0)) (fetch_attempt (sample_fetcher 100 0) 2)"
    by (simp add: sample_clock)
  from FetchBlock_total [OF this sample_cache_inv] show ?thesis by blast
qed

text \<open>A block that was fetched once is served from the cache from then on: the node is not asked
  again, whatever it would answer now.\<close>

theorem FetchBlock_cached:
  assumes "lru_laws (bf_lru b)" and "FetchBlock b n (c, w) = Some (Ok r, (c', w'))"
  shows "\<exists>c2. FetchBlock b n (c', w2) = Some (Ok r, (c2, w2))"
proof -
  have "fst (lru_Get (bf_lru b) c' n) = Some r"
    using assms(2)
  proof (cases rule: FetchBlock_cases)
    case (hit x c1)
    then have "fst (lru_Get (bf_lru b) (snd (lru_Get (bf_lru b) c n)) n) = fst (lru_Get (bf_lru b) c n)"
      using assms(1) unfolding lru_laws_def by blast
    with hit show ?thesis by simp
  next
    case (fetched x c1 w1)
    then show ?thesis using assms(1) by (simp add: lru_laws_def)
  qed simp
  then show ?thesis by (cases "lru_Get (bf_lru b) c' n") (simp add: FetchBlock_def)
qed

theorem FetchBlock_cached_witness:
  "\<exists>c r. fr_Block r = main2 \<and> FetchBlock (sample_fetcher 100 0) 2 (c, 5) = Some (Ok r, (c, 5))"
proof -
  let ?r = "\<lparr>fr_Block = main2, fr_Seed = [], fr_Staker = None, fr_AuthNodes = [], fr_FutureSeed = []\<rparr>"
  have "FetchBlock (sample_fetcher 100 0) 2 ([], 0) = Some (Ok ?r, ([(2, ?r)], 0))"
    using sample_FetchBlock [of 2 main2 100 0 "[]" 0]
    by (simp add: best_chain_def sample_blocks id_uint32_def Let_def)
  then obtain c where "FetchBlock (sample_fetcher 100 0) 2 ([(2, ?r)], 5) = Some (Ok ?r, (c, 5))"
    using FetchBlock_cached [of "sample_fetcher 100 0" 2 "[]" 0 ?r "[(2, ?r)]" 0 5] sample_lru_laws by auto
  moreover from this have "c = [(2, ?r)]" by (simp add: FetchBlock_def sample_lru_def)
  ultimately show ?thesis by (intro exI [of _ c] exI [of _ ?r]) simp
qed

section \<open>Seeds\<close>

text \<open>C26: The seed of the child of a block comes from a checkpoint that is at least one and less than two
  intervals older than the child.\<close>

theorem seed_number_window:
  assumes "0 < cfg_SeederInterval cfg" and "unat (id_uint32 h) + 1 < 2 ^ 32" and "seed_number cfg h = Some k"
  shows "unat k mod unat (cfg_SeederInterval cfg) = 0 \<and>
    unat k + unat (cfg_SeederInterval cfg) \<le> unat (id_uint32 h) + 1 \<and>
    unat (id_uint32 h) + 1 < unat k + 2 * unat (cfg_SeederInterval cfg)"
proof -
  define S B where "S = unat (cfg_SeederInterval cfg)" and "B = unat (id_uint32 h) + 1"
  have S: "0 < S" using assms(1) by (simp add: S_def word_less_nat_alt)
  have k: "k = of_nat ((B div S - 1) * S)" and gt: "1 < B div S"
    using assms seed_number_nat [OF assms(1,2)] by (auto simp: S_def B_def split: if_splits)
  have le: "(B div S - 1) * S + S = B div S * S" using gt by (cases "B div S") auto
  moreover have "B div S * S \<le> B" "B < B div S * S + S" using S dividend_less_div_times [of S B]
    by (auto simp: div_times_less_eq_dividend)
  ultimately have "(B div S - 1) * S < 2 ^ 32" using assms(2) B_def by linarith
  then have "unat k = (B div S - 1) * S"
    unfolding k by (subst unat_of_nat) simp
  then show ?thesis using le \<open>B div S * S \<le> B\<close> \<open>B < B div S * S + S\<close> by (simp add: S_def B_def)
qed

text \<open>An identifier that begins with the block number.\<close>

definition numbered_id :: "u32 \<Rightarrow> 256 word" where
  "numbered_id n = push_bit 224 (ucast n)"

lemma id_numbered [simp]: "id_uint32 (Bytes32 (numbered_id n)) = n"
  unfolding id_uint32_def numbered_id_def by (rule bit_word_eqI) (auto simp: bit_simps)

theorem seed_number_window_witness:
  "seed_number sample_cfg (Bytes32 (numbered_id 20000)) = Some 8640 \<and> (8640::nat) + 8640 \<le> 20001 \<and> (20001::nat) < 8640 + 2 * 8640"
proof -
  have "seed_number sample_cfg (Bytes32 (numbered_id 20000)) = Some 8640"
    by (simp add: seed_number_def sample_cfg_def Let_def word_le_nat_alt)
  with seed_number_window [of sample_cfg "Bytes32 (numbered_id 20000)" 8640] show ?thesis
    by (simp add: sample_cfg_def)
qed

text \<open>C27: The future seed of a fetched block is the seed of its child: fetching it only at the end of an
  interval, and reusing the block's own seed otherwise, gives the same as always fetching it.\<close>

theorem future_seed_is_childs:
  assumes "fetch_attempt b n w = (Ok r, w')" and "0 < cfg_SeederInterval (bf_cfg b)" and "unat n + 1 < 2 ^ 32"
    and "id_uint32 (blk_ID (fr_Block r)) = n" and "id_uint32 (blk_ParentID (fr_Block r)) + 1 = n"
    and "unat (id_uint32 (blk_ParentID (fr_Block r))) + 1 < 2 ^ 32"
  shows "\<exists>w1 w2. fetchSeed (bf_cfg b) (bf_codec b) (bf_client b) (blk_ID (fr_Block r)) w1 = (Ok (fr_FutureSeed r), w2)"
  using assms(1)
proof (rule fetch_attempt_Ok)
  fix w1 w2 w3
  assume own: "fetchSeed (bf_cfg b) (bf_codec b) (bf_client b) (blk_ParentID (fr_Block r)) w1 = (Ok (fr_Seed r), w2)"
    and boundary: "(n + 1) mod cfg_SeederInterval (bf_cfg b) = 0 \<Longrightarrow>
      fetchSeed (bf_cfg b) (bf_codec b) (bf_client b) (blk_ID (fr_Block r)) w2 = (Ok (fr_FutureSeed r), w3)"
    and inside: "(n + 1) mod cfg_SeederInterval (bf_cfg b) \<noteq> 0 \<Longrightarrow> fr_FutureSeed r = fr_Seed r"
  show ?thesis
  proof (cases "(n + 1) mod cfg_SeederInterval (bf_cfg b) = 0")
    case True
    from boundary [OF this] show ?thesis by blast
  next
    case False
    then have "seed_number (bf_cfg b) (blk_ID (fr_Block r)) = seed_number (bf_cfg b) (blk_ParentID (fr_Block r))"
      using assms(2-6) by (intro seed_number_same_epoch) auto
    then show ?thesis using own inside [OF False] by (auto simp: fetchSeed_def)
  qed
qed

text \<open>A node whose identifiers begin with the block number.\<close>

definition numbered_client :: "int client" where
  "numbered_client = sample_client\<lparr>cl_ExpandedBlock := \<lambda>r w. (case r of
       RevNumber n \<Rightarrow> Inr (sample_block n (numbered_id n) (numbered_id (n - 1)))
     | _ \<Rightarrow> Inl ErrNotFound, w)\<rparr>"

theorem future_seed_is_childs_witness:
  "\<exists>r w1 w2. fetch_attempt ((sample_fetcher 100 0)\<lparr>bf_client := numbered_client\<rparr>) 5 0 = (Ok r, 0) \<and>
     fetchSeed sample_cfg sample_codec numbered_client (blk_ID (fr_Block r)) w1 = (Ok (fr_FutureSeed r), w2)"
proof -
  let ?b = "(sample_fetcher 100 0)\<lparr>bf_client := numbered_client\<rparr>"
  let ?blk = "sample_block 5 (numbered_id 5) (numbered_id 4)"
  let ?r = "\<lparr>fr_Block = ?blk, fr_Seed = [], fr_Staker = None, fr_AuthNodes = [], fr_FutureSeed = []\<rparr>"
  have ids: "blk_ID ?blk = Bytes32 (numbered_id 5)" "blk_ParentID ?blk = Bytes32 (numbered_id 4)"
    by (simp_all add: sample_block_def)
  have seed: "fetchSeed sample_cfg cd cl (Bytes32 (numbered_id 4)) w = (Ok [], w)" for cd cl w
    by (simp add: fetchSeed_def seed_number_def sample_cfg_def)
  have e: "cl_ExpandedBlock numbered_client (RevNumber 5) 0 = (Inr ?blk, 0)"
    by (simp add: numbered_client_def)
  have m: "(5 + 1 :: u32) mod cfg_SeederInterval sample_cfg \<noteq> 0" by (simp add: sample_cfg_def)
  have att: "fetch_attempt ?b 5 0 = (Ok ?r, 0)"
    using m by (simp add: fetch_attempt_def e ids seed)
  have "\<exists>w1 w2. fetchSeed (bf_cfg ?b) (bf_codec ?b) (bf_client ?b) (blk_ID (fr_Block ?r)) w1 = (Ok (fr_FutureSeed ?r), w2)"
    using ids by (intro future_seed_is_childs [OF att]) (simp_all add: sample_cfg_def)
  with att show ?thesis by (intro exI [of _ ?r]) simp
qed

section \<open>Events\<close>

text \<open>C18: The event of block n holds block n and, past block 1, block n - 1; its Hayabusa flags say
  whether n has reached the two heights; staker information is there exactly from the fork on, for the
  block and for its parent; authority nodes are gone once Hayabusa is active.\<close>

theorem ProcessBlock_event:
  assumes "cache_inv b s"
    and "ProcessBlock (FetchBlock b) (bf_hayabusaForkedBlock b) (bf_hayabusaActiveBlock b) n s = Some (Ok e, s')"
  shows "event_ok (bf_hayabusaForkedBlock b) (bf_hayabusaActiveBlock b) n e"
  using assms by (rule fetcher.ProcessBlock_event_ok)

theorem ProcessBlock_event_witness:
  "\<exists>e. event_ok 100 0 1 e \<and> be_Block e = main1"
proof -
  let ?r = "\<lparr>fr_Block = main1, fr_Seed = [], fr_Staker = None, fr_AuthNodes = [], fr_FutureSeed = []\<rparr>"
  have "FetchBlock (sample_fetcher 100 0) 1 ([], 0) = Some (Ok ?r, ([(1, ?r)], 0))"
    using sample_FetchBlock [of 1 main1 100 0 "[]" 0]
    by (simp add: best_chain_def sample_blocks id_uint32_def Let_def)
  then have "ProcessBlock (FetchBlock (sample_fetcher 100 0)) 100 0 1 ([], 0) =
      Some (Ok (block_event 100 0 1 ?r None), ([(1, ?r)], 0))"
    by (simp add: ProcessBlock_def)
  then have "event_ok 100 0 1 (block_event 100 0 1 ?r None)"
    using ProcessBlock_event [OF sample_cache_inv, of 100 0] by simp
  then show ?thesis by (intro exI [of _ "block_event 100 0 1 ?r None"]) (simp add: block_event_def)
qed

section \<open>Staker information\<close>

text \<open>C29: Staker information is returned only when none of the nine simulated calls reverted, and in it
  every validator's amounts add up: its own stake is the total without the delegators' part, own
  stake counts twice in the weight, and the same for the amounts queued for the next period.\<close>

theorem FetchValidations_accounted:
  assumes "FetchValidations cd cl blockID w = (Ok si, w1)"
  shows "(\<exists>res. fetchStakerInfo cd cl blockID w = (Ok res, w1) \<and> length res = 9 \<and>
      (\<forall>r \<in> set res. \<not> cr_Reverted r \<and> cr_VMError r = [])) \<and>
    (\<forall>v \<in> set (si_Validations si). accounted v)"
  using assms
proof (rule FetchValidations_Ok)
  fix res
  assume fetched: "fetchStakerInfo cd cl blockID w = (Ok res, w1)" and "unpackInfo cd res = Ok si"
  then have "unpackValidators cd (res ! 1) = Ok (si_Validations si)" using unpackInfo_Ok_validators by blast
  then show ?thesis using fetched fetchStakerInfo_Ok [OF fetched] unpackValidators_accounted by blast
qed

theorem FetchValidations_accounted_witness:
  "\<exists>si v. fst (FetchValidations sample_codec sample_client (Bytes32 161) 0) = Ok si \<and>
     si_Validations si = [v] \<and> accounted v \<and> v_LockedVET v = 30 \<and> v_DelegatorWeight v = Some (15 * VET)"
proof -
  let ?r = "\<lparr>cr_Data = ''0x'', cr_Reverted = False, cr_VMError = []\<rparr>"
  have fetched: "fetchStakerInfo sample_codec sample_client h w = (Ok (replicate 9 ?r), w)" for h w
    by (simp add: fetchStakerInfo_def sample_codec_def sample_client_def staker_clauses_def numeral_eq_Suc)
  obtain v where v: "unpackValidators sample_codec ?r = Ok [v]" "v_LockedVET v = 30" "v_DelegatorWeight v = Some (15 * VET)"
    by (simp add: unpackValidators_def sample_codec_def sample_columns_def read_columns_def next_as_def nth_or_panic_def
        wrap_err_def columns_cover_def unpack_row_def Let_def ScaleToVET_def VET_def big_Uint64_def)
  then obtain si where si: "unpackInfo sample_codec (replicate 9 ?r) = Ok si" "si_Validations si = [v]"
    by (simp add: unpackInfo_def nth_or_panic_def decode_call_def wrap_err_def slice_def sample_codec_def)
  then have *: "FetchValidations sample_codec sample_client (Bytes32 161) 0 = (Ok si, 0)"
    by (simp add: FetchValidations_def fetched wrap_err_def)
  with FetchValidations_accounted [OF *] si v show ?thesis by auto
qed

end
