(* ===== verification/Dashboards.thy ===== *)
theory Dashboards
  imports Startup
begin

text \<open>
  \<^verbatim>\<open>grafana/dashboards.go\<close> and \<^verbatim>\<open>grafana/testing.go\<close>: the dashboards that the program is
  shipped with, and the set-up that runs their queries against a database filled by the program. The
  embedded files, the JSON decoder, the InfluxDB client, the node and the formatting of a time are
  parameters; the order in which a Go map is walked is one too.
\<close>

section \<open>Dashboards\<close>

text \<open>The \<open>any\<close> of a variable's query: the harness only asks whether it is a string.\<close>

datatype json_value = JString string | JOther

record Variable =
  va_Name :: string
  va_Datasource :: string
  va_Query :: json_value

record Target =
  tg_Query :: string
  tg_Datasource :: string

record Panel =
  pn_Targets :: "Target list"
  pn_Title :: string
  pn_Datasource :: string

record Dashboard =
  da_Panels :: "Panel list"
  da_Templating :: "Variable list"
  da_Title :: string

fun find_panel :: "string \<Rightarrow> Panel list \<Rightarrow> Panel option" where
  "find_panel title [] = None"
| "find_panel title (p # ps) = (if pn_Title p = title then Some p else find_panel title ps)"

definition GetPanelByTitle :: "Dashboard \<Rightarrow> string \<Rightarrow> Panel option" where
  "GetPanelByTitle d title = find_panel title (da_Panels d)"

fun find_variable :: "string \<Rightarrow> Variable list \<Rightarrow> Variable option" where
  "find_variable name [] = None"
| "find_variable name (v # vs) = (if va_Name v = name then Some v else find_variable name vs)"

definition GetVariableByName :: "Dashboard \<Rightarrow> string \<Rightarrow> Variable option" where
  "GetVariableByName d name = find_variable name (da_Templating d)"

text \<open>The embedded directory: its entries with whether they are directories, its files, and the decoder.\<close>

record embedded =
  em_ReadDir :: "string \<Rightarrow> gerror + (string \<times> bool) list"
  em_ReadFile :: "string \<Rightarrow> gerror + bytes"
  em_Unmarshal :: "bytes \<Rightarrow> gerror + Dashboard"

definition dashboardsPath :: string where
  "dashboardsPath = ''config/dashboards''"

definition ParseDashboard :: "embedded \<Rightarrow> string \<Rightarrow> gerror + Dashboard" where
  "ParseDashboard em name =
     (case em_ReadFile em (dashboardsPath @ ''/'' @ name) of
        Inl e \<Rightarrow> Inl e
      | Inr data \<Rightarrow> em_Unmarshal em data)"

fun parse_entries :: "embedded \<Rightarrow> (string \<times> bool) list \<Rightarrow> gerror + Dashboard list" where
  "parse_entries em [] = Inr []"
| "parse_entries em ((name, isDir) # entries) =
     (if isDir then parse_entries em entries
      else
        (case em_ReadFile em (dashboardsPath @ ''/'' @ name) of
           Inl e \<Rightarrow> Inl e
         | Inr data \<Rightarrow>
             (case em_Unmarshal em data of
                Inl e \<Rightarrow> Inl e
              | Inr dashboard \<Rightarrow>
                  (case parse_entries em entries of Inl e \<Rightarrow> Inl e | Inr ds \<Rightarrow> Inr (dashboard # ds)))))"

definition ParseDashboards :: "embedded \<Rightarrow> gerror + Dashboard list" where
  "ParseDashboards em = (case em_ReadDir em dashboardsPath of Inl e \<Rightarrow> Inl e | Inr entries \<Rightarrow> parse_entries em entries)"

lemma parse_entries_iff:
  "parse_entries em entries = Inr ds \<longleftrightarrow>
     list_all2 (\<lambda>e d. ParseDashboard em (fst e) = Inr d) (filter (\<lambda>e. \<not> snd e) entries) ds"
proof (induction entries arbitrary: ds)
  case (Cons entry entries)
  obtain name isDir where entry: "entry = (name, isDir)" by (cases entry)
  show ?case
  proof (cases "isDir")
    case True
    then show ?thesis by (simp add: entry Cons.IH)
  next
    case False
    have "parse_entries em (entry # entries) = Inr ds \<longleftrightarrow>
        (\<exists>d ds'. ds = d # ds' \<and> ParseDashboard em name = Inr d \<and> parse_entries em entries = Inr ds')"
      using False by (auto simp: entry ParseDashboard_def split: sum.splits)
    then show ?thesis using False by (simp add: entry Cons.IH list_all2_Cons1)
  qed
qed auto

text \<open>The dashboards are those of the files of the directory, in order, each as \<open>ParseDashboard\<close> reads it; one
  file that cannot be read or decoded makes the whole fail.\<close>

theorem ParseDashboards_files:
  "ParseDashboards em = Inr ds \<longleftrightarrow>
     (\<exists>entries. em_ReadDir em dashboardsPath = Inr entries \<and>
        list_all2 (\<lambda>e d. ParseDashboard em (fst e) = Inr d) (filter (\<lambda>e. \<not> snd e) entries) ds)"
  by (simp add: ParseDashboards_def parse_entries_iff split: sum.splits)

section \<open>SubstituteVariables\<close>

text \<open>\<open>strings.ReplaceAll\<close> for a non-empty text to replace, and \<open>strconv.FormatUint\<close> with base ten.\<close>

fun replace_all :: "string \<Rightarrow> string \<Rightarrow> string \<Rightarrow> string" where
  "replace_all p v [] = []"
| "replace_all p v (c # cs) =
     (if p \<noteq> [] \<and> has_prefix (c # cs) p then v @ replace_all p v (drop (length p - 1) cs) else c # replace_all p v cs)"

fun dec_text :: "nat \<Rightarrow> string" where
  "dec_text n = (if n < 10 then [char_of (48 + n)] else dec_text (n div 10) @ [char_of (48 + n mod 10)])"

declare dec_text.simps [simp del]

text \<open>How a test function ends: it goes on, it was failed or skipped at once, or it panicked.\<close>

datatype 'a verdict = Going 'a | FailedNow | SkippedNow | Panicked gpanic

text \<open>The answer of a query: an error, whether there is a first row, and the result of \<open>Close\<close>.\<close>

record query_table =
  qt_Err :: "gerror option"
  qt_Next :: bool
  qt_Close :: "gerror option"

record 'w harness =
  ha_Block :: "u64 \<Rightarrow> 'w \<Rightarrow> (gerror + Block) \<times> 'w"
  ha_Query :: "string \<Rightarrow> 'w \<Rightarrow> (gerror + query_table) \<times> 'w"
  ha_RFC3339 :: "u64 \<Rightarrow> string"
  ha_walk :: "(string, string) gomap \<Rightarrow> (string \<times> string) list"

record test_setup =
  se_EndBlock :: u64
  se_Blocks :: u32
  se_bucket :: string

definition variableReplacements :: "test_setup \<Rightarrow> Block \<Rightarrow> string \<Rightarrow> (string, string) gomap" where
  "variableReplacements su topBlock start =
     [(''${staker}'', ''0x'' @ address_text (blk_Signer topBlock)),
      (''${proposer}'', ''0x'' @ address_text (blk_Signer topBlock)),
      (''${selected_block}'', dec_text (unat (se_EndBlock su))),
      (''${manual_block}'', dec_text (unat (se_EndBlock su))),
      (''${bucket}'', se_bucket su),
      (''${vet_price}'', ''0.02''), (''${vtho_price}'', ''0.001''), (''${epoch_length}'', ''180''),
      (''${block_interval}'', ''10''), (''${seeder_interval}'', ''8640''),
      (''${validator_eviction_threshold}'', ''60480''), (''${low_staking_period}'', ''60480''),
      (''${medium_staking_period}'', ''259200''), (''${high_staking_period}'', ''777600''),
      (''${cooldown_period}'', ''60480''), (''${hayabusa_tp}'', ''1500''), (''${hayabusa_fork_block}'', ''11000000''),
      (''${amount_of_epochs}'', ''5''), (''${datasource}'', ''InfluxDB''), (''${region}'', ''eu-west-1''),
      (''${color}'', ''blue''), (''${group}'', ''dev-pn''),
      (''v.timeRangeStart'', start), (''v.timeRangeStop'', ''now()''), (''v.windowPeriod'', ''1m'')]"

text \<open>Whether a placeholder occurs is asked of the query, its occurrences are replaced in the result so far.\<close>

definition substitute :: "(string \<times> string) list \<Rightarrow> string \<Rightarrow> string" where
  "substitute walk query =
     foldl (\<lambda>result (placeholder, replacement).
       if contains query placeholder then replace_all placeholder replacement result else result) query walk"

text \<open>The lower block's number is a \<open>uint64\<close> difference.\<close>

definition SubstituteVariables :: "'w harness \<Rightarrow> test_setup \<Rightarrow> string \<Rightarrow> 'w \<Rightarrow> string verdict \<times> 'w" where
  "SubstituteVariables ha su query w =
     (case ha_Block ha (se_EndBlock su) w of
        (Inl e, w) \<Rightarrow> (FailedNow, w)
      | (Inr topBlock, w) \<Rightarrow>
          (case ha_Block ha (se_EndBlock su - ucast (se_Blocks su)) w of
             (Inl e, w) \<Rightarrow> (FailedNow, w)
           | (Inr bottomBlock, w) \<Rightarrow>
               (Going (substitute
                  (ha_walk ha (variableReplacements su topBlock (ha_RFC3339 ha (blk_Timestamp bottomBlock)))) query), w)))"

section \<open>AssertHasResults\<close>

text \<open>The state of a test: whether it was marked as failed, and the world.\<close>

type_synonym 'w test_state = "bool \<times> 'w"

definition assert_rows :: "'w harness \<Rightarrow> string \<Rightarrow> 'w test_state \<Rightarrow> unit verdict \<times> 'w test_state" where
  "assert_rows ha query s =
     (case s of (failed, w) \<Rightarrow>
        (case ha_Query ha query w of
           (Inl e, w) \<Rightarrow> (FailedNow, (True, w))
         | (Inr res, w) \<Rightarrow>
             if qt_Err res \<noteq> None then (FailedNow, (True, w))
             else if qt_Close res \<noteq> None then (FailedNow, (True, w))
             else (Going (), (failed \<or> \<not> qt_Next res, w))))"

definition assert_query :: "'w harness \<Rightarrow> test_setup \<Rightarrow> string \<Rightarrow> 'w test_state \<Rightarrow> unit verdict \<times> 'w test_state" where
  "assert_query ha su text s =
     (case SubstituteVariables ha su text (snd s) of
        (Going query, w) \<Rightarrow> assert_rows ha query (fst s, w)
      | (FailedNow, w) \<Rightarrow> (FailedNow, (True, w))
      | (SkippedNow, w) \<Rightarrow> (SkippedNow, (fst s, w))
      | (Panicked p, w) \<Rightarrow> (Panicked p, (fst s, w)))"

definition Variable_AssertHasResults :: "'w harness \<Rightarrow> test_setup \<Rightarrow> Variable \<Rightarrow> 'w test_state \<Rightarrow> unit verdict \<times> 'w test_state" where
  "Variable_AssertHasResults ha su v s =
     (let s1 = (fst s \<or> va_Datasource v \<noteq> ''influxdb'', snd s) in
      case va_Query v of JOther \<Rightarrow> (Going (), s1) | JString text \<Rightarrow> assert_query ha su text s1)"

fun assert_targets :: "'w harness \<Rightarrow> test_setup \<Rightarrow> Target list \<Rightarrow> 'w test_state \<Rightarrow> unit verdict \<times> 'w test_state" where
  "assert_targets ha su [] s = (Going (), s)"
| "assert_targets ha su (t # ts) s =
     (case assert_query ha su (tg_Query t) s of
        (Going u, s) \<Rightarrow> assert_targets ha su ts s
      | (r, s) \<Rightarrow> (r, s))"

definition Panel_AssertHasResults :: "'w harness \<Rightarrow> test_setup \<Rightarrow> Panel \<Rightarrow> 'w test_state \<Rightarrow> unit verdict \<times> 'w test_state" where
  "Panel_AssertHasResults ha su p s =
     assert_targets ha su (pn_Targets p) (fst s \<or> pn_Datasource p \<noteq> ''influxdb'', snd s)"

section \<open>NewTestSetup\<close>

record test_options =
  to_ThorURL :: string
  to_EndBlock :: u64
  to_Blocks :: u32

text \<open>The administration of the database: identifiers and names are texts.\<close>

record 'w influx_admin =
  im_Ping :: "'w \<Rightarrow> (bool \<times> gerror option) \<times> 'w"
  im_FindOrganizationByName :: "string \<Rightarrow> 'w \<Rightarrow> (gerror + string) \<times> 'w"
  im_FindBucketByName :: "string \<Rightarrow> 'w \<Rightarrow> (gerror + string) \<times> 'w"
  im_DeleteBucketWithID :: "string \<Rightarrow> 'w \<Rightarrow> gerror option \<times> 'w"
  im_CreateBucketWithNameWithID :: "string \<Rightarrow> string \<Rightarrow> 'w \<Rightarrow> (gerror + string) \<times> 'w"

definition default_blocks :: "test_options \<Rightarrow> u32" where
  "default_blocks opts = (if to_Blocks opts = 0 then 360 * 4 else to_Blocks opts)"

definition recreate_bucket :: "'w influx_admin \<Rightarrow> string \<Rightarrow> 'w \<Rightarrow> string verdict \<times> 'w" where
  "recreate_bucket im name w =
     (case im_FindOrganizationByName im ''vechain'' w of
        (Inl e, w) \<Rightarrow> (FailedNow, w)
      | (Inr org, w) \<Rightarrow>
          (case (case im_FindBucketByName im name w of
                   (Inl e, w) \<Rightarrow> (None, w)
                 | (Inr bucket, w) \<Rightarrow> im_DeleteBucketWithID im bucket w) of
             (Some e, w) \<Rightarrow> (FailedNow, w)
           | (None, w) \<Rightarrow>
               (case im_CreateBucketWithNameWithID im org name w of
                  (Inl e, w) \<Rightarrow> (FailedNow, w)
                | (Inr bucket, w) \<Rightarrow> (Going bucket, w))))"

text \<open>Up to the start of the publisher: the run that follows is the one of Program. A nil command is dereferenced.\<close>

definition NewTestSetup ::
  "'w influx_admin \<Rightarrow> ('w, 'c, 'd) services \<Rightarrow> int \<Rightarrow> string \<Rightarrow> test_options \<Rightarrow> 'w \<Rightarrow> 'd \<Rightarrow>
   (test_setup \<times> ('w, 'c, 'd) cmd) verdict \<times> 'w \<times> 'd" where
  "NewTestSetup im sv now name opts w d =
     (if to_ThorURL opts = [] then (FailedNow, w, d)
      else if to_EndBlock opts = 0 then (FailedNow, w, d)
      else
        (case im_Ping im w of
           ((ok, err), w) \<Rightarrow>
             if \<not> ok \<or> err \<noteq> None then (SkippedNow, w, d)
             else
               (case recreate_bucket im name w of
                  (Going bucket, w) \<Rightarrow>
                    (case thorflux_New sv now \<lparr>op_ThorURL = to_ThorURL opts, op_GenesisURL = [],
                         op_Blocks = ucast (default_blocks opts), op_EndBlock = to_EndBlock opts\<rparr> w d of
                       (Panic p, w, d) \<Rightarrow> (Panicked p, w, d)
                     | (Err e, w, d) \<Rightarrow> (FailedNow, w, d)
                     | (Ok None, w, d) \<Rightarrow> (Panicked NilDereference, w, d)
                     | (Ok (Some cmd), w, d) \<Rightarrow>
                         (Going (\<lparr>se_EndBlock = to_EndBlock opts, se_Blocks = default_blocks opts, se_bucket = bucket\<rparr>, cmd), w, d))
                | (FailedNow, w) \<Rightarrow> (FailedNow, w, d)
                | (SkippedNow, w) \<Rightarrow> (SkippedNow, w, d)
                | (Panicked p, w) \<Rightarrow> (Panicked p, w, d))))"

section \<open>Templates\<close>

text \<open>A query seen as pieces of text and placeholders.\<close>

datatype token = Lit string | Var string

primrec token_text :: "(string \<Rightarrow> string) \<Rightarrow> token \<Rightarrow> string" where
  "token_text f (Lit xs) = xs"
| "token_text f (Var p) = f p"

definition render :: "(string \<Rightarrow> string) \<Rightarrow> token list \<Rightarrow> string" where
  "render f ts = concat (map (token_text f) ts)"

lemma render_simps [simp]: "render f [] = []" "render f (t # ts) = token_text f t @ render f ts"
  by (simp_all add: render_def)

text \<open>The names of the table. Each begins with one of two marks, and none is the beginning of another.\<close>

definition placeholders :: "string list" where
  "placeholders = [''${staker}'', ''${proposer}'', ''${selected_block}'', ''${manual_block}'', ''${bucket}'', ''${vet_price}'',
     ''${vtho_price}'', ''${epoch_length}'', ''${block_interval}'', ''${seeder_interval}'',
     ''${validator_eviction_threshold}'', ''${low_staking_period}'', ''${medium_staking_period}'',
     ''${high_staking_period}'', ''${cooldown_period}'', ''${hayabusa_tp}'', ''${hayabusa_fork_block}'',
     ''${amount_of_epochs}'', ''${datasource}'', ''${region}'', ''${color}'', ''${group}'',
     ''v.timeRangeStart'', ''v.timeRangeStop'', ''v.windowPeriod'']"

fun marked :: "string \<Rightarrow> bool" where
  "marked (c # cs) = (c = CHR ''$'' \<or> c = CHR ''v'' \<and> (case cs of [] \<Rightarrow> False | c' # cs' \<Rightarrow> c' = CHR ''.''))"
| "marked [] = False"

text \<open>A text in which no mark begins, whatever follows it unless it ends in \<open>v\<close>.\<close>

fun calm :: "string \<Rightarrow> bool" where
  "calm [] = True"
| "calm (c # cs) = (\<not> marked (c # cs) \<and> calm cs)"

definition dotted :: "string \<Rightarrow> bool" where
  "dotted xs \<longleftrightarrow> xs \<noteq> [] \<and> hd xs = CHR ''.''"

definition open_ended :: "string \<Rightarrow> bool" where
  "open_ended xs \<longleftrightarrow> xs \<noteq> [] \<and> last xs = CHR ''v''"

text \<open>What may be put in the place of a placeholder.\<close>

definition plain :: "string \<Rightarrow> bool" where
  "plain xs \<longleftrightarrow> xs \<noteq> [] \<and> calm xs \<and> \<not> dotted xs \<and> \<not> open_ended xs"

fun template :: "token list \<Rightarrow> bool" where
  "template [] = True"
| "template (Var p # ts) = (p \<in> set placeholders \<and> template ts)"
| "template (Lit xs # ts) = (calm xs \<and> (case ts of Lit ys # us \<Rightarrow> False | _ \<Rightarrow> True) \<and> template ts)"

lemma placeholder_shape:
  "list_all (\<lambda>p. marked p \<and> p \<noteq> [] \<and> \<not> dotted p \<and> calm (tl p) \<and> \<not> open_ended p) placeholders"
  by code_simp

lemma placeholders_apart: "list_all (\<lambda>p. list_all (\<lambda>q. p = q \<or> \<not> has_prefix p q) placeholders) placeholders"
  by code_simp

lemma has_prefix_append: "has_prefix (xs @ ys) p \<Longrightarrow> has_prefix xs p \<or> has_prefix p xs"
  unfolding has_prefix_iff by (metis append_eq_append_conv2)

lemma marked_prefix: "has_prefix s p \<Longrightarrow> marked p \<Longrightarrow> marked s"
  by (cases p; cases s) (auto simp: has_prefix_iff split: list.splits)

lemma calm_marked:
  "calm xs \<Longrightarrow> \<not> (open_ended xs \<and> dotted ys) \<Longrightarrow> i < length xs \<Longrightarrow> \<not> marked (drop i xs @ ys)"
proof (induction xs arbitrary: i)
  case (Cons c cs)
  show ?case
  proof (cases i)
    case 0
    then show ?thesis using Cons.prems by (cases cs; cases ys) (auto simp: open_ended_def dotted_def)
  next
    case (Suc j)
    have "\<not> (open_ended cs \<and> dotted ys)" using Cons.prems(2) by (auto simp: open_ended_def)
    then show ?thesis using Cons.IH [of j] Cons.prems(1,3) Suc by simp
  qed
qed simp

section \<open>Replacing one placeholder\<close>

lemma replace_all_skip:
  "(\<And>i. i < length xs \<Longrightarrow> \<not> has_prefix (drop i xs @ ys) p) \<Longrightarrow> replace_all p v (xs @ ys) = xs @ replace_all p v ys"
proof (induction xs)
  case (Cons c cs)
  have "\<not> has_prefix (c # cs @ ys) p" using Cons.prems [of 0] by simp
  moreover have "replace_all p v (cs @ ys) = cs @ replace_all p v ys"
    by (rule Cons.IH) (use Cons.prems [of "Suc i" for i] in auto)
  ultimately show ?case by simp
qed simp

lemma replace_all_here: "p \<noteq> [] \<Longrightarrow> replace_all p v (p @ ys) = v @ replace_all p v ys"
proof -
  assume "p \<noteq> []"
  then obtain c cs where "p = c # cs" by (cases p) auto
  moreover have "has_prefix (p @ ys) p" by (auto simp: has_prefix_iff)
  ultimately show ?thesis by simp
qed

lemma placeholder_facts:
  assumes "p \<in> set placeholders"
  shows "marked p" "p \<noteq> []" "\<not> dotted p" "calm (tl p)" "\<not> open_ended p"
  using assms placeholder_shape by (auto simp: list_all_iff)

lemma skip_calm:
  assumes "p \<in> set placeholders" and "calm xs" and "\<not> (open_ended xs \<and> dotted ys)"
  shows "replace_all p v (xs @ ys) = xs @ replace_all p v ys"
  using calm_marked [OF assms(2,3)] marked_prefix placeholder_facts(1) [OF assms(1)] by (intro replace_all_skip) blast

lemma skip_other:
  assumes "p \<in> set placeholders" and "q \<in> set placeholders" and "p \<noteq> q"
  shows "replace_all p v (q @ ys) = q @ replace_all p v ys"
proof (rule replace_all_skip)
  fix i assume i: "i < length q"
  show "\<not> has_prefix (drop i q @ ys) p"
  proof (cases i)
    case 0
    have "\<not> has_prefix q p" "\<not> has_prefix p q" using placeholders_apart assms by (auto simp: list_all_iff)
    then show ?thesis using 0 has_prefix_append by auto
  next
    case (Suc j)
    have "tl q \<noteq> []" "drop i q = drop j (tl q)" "j < length (tl q)" using i Suc by (cases q; auto)+
    moreover from this have "\<not> open_ended (tl q)"
      using placeholder_facts(5) [OF assms(2)] by (cases q) (auto simp: open_ended_def)
    ultimately have "\<not> marked (drop i q @ ys)"
      using calm_marked [OF placeholder_facts(4) [OF assms(2)], of ys j] by simp
    then show ?thesis using marked_prefix placeholder_facts(1) [OF assms(1)] by blast
  qed
qed

text \<open>A placeholder stands for itself until it is replaced.\<close>

definition partial_values :: "(string \<Rightarrow> string) \<Rightarrow> bool" where
  "partial_values f \<longleftrightarrow> (\<forall>q \<in> set placeholders. f q = q \<or> plain (f q))"

lemma not_dotted_render:
  assumes "partial_values f" and "template ts" and "case ts of Lit ys # us \<Rightarrow> False | _ \<Rightarrow> True"
  shows "\<not> dotted (render f ts)"
proof (cases ts)
  case (Cons t us)
  then obtain q where q: "t = Var q" "q \<in> set placeholders" using assms(2,3) by (cases t) auto
  then have "f q \<noteq> []" "\<not> dotted (f q)" using assms(1) placeholder_facts(2,3) by (auto simp: partial_values_def plain_def)
  then show ?thesis using Cons q(1) by (simp add: dotted_def)
qed (simp add: dotted_def)

lemma replace_render:
  assumes "template ts" and "partial_values f" and "p \<in> set placeholders" and "f p = p"
    and "g p = v" and "\<And>q. q \<noteq> p \<Longrightarrow> g q = f q"
  shows "replace_all p v (render f ts) = render g ts"
  using assms(1)
proof (induction ts rule: template.induct)
  case (2 q ts)
  then have q: "q \<in> set placeholders" and ih: "replace_all p v (render f ts) = render g ts" by simp_all
  show ?case
  proof (cases "q = p")
    case True
    then show ?thesis using ih assms(4,5) replace_all_here [OF placeholder_facts(2) [OF assms(3)]] by simp
  next
    case False
    then have "f q = q \<or> plain (f q)" using assms(2) q by (simp add: partial_values_def)
    then show ?thesis
    proof
      assume "f q = q"
      then show ?thesis using ih False assms(6) skip_other [OF assms(3) q] by simp
    next
      assume "plain (f q)"
      then show ?thesis using ih False assms(6) skip_calm [OF assms(3)] by (simp add: plain_def)
    qed
  qed
next
  case (3 xs ts)
  have "\<not> dotted (render f ts)" using 3(2) by (intro not_dotted_render [OF assms(2)]) auto
  then show ?case using 3 skip_calm [OF assms(3)] by simp
qed simp

section \<open>Replacing all of them\<close>

text \<open>The text after the placeholders of a part of the walk have been replaced.\<close>

definition replaced :: "(string \<times> string) list \<Rightarrow> string \<Rightarrow> string" where
  "replaced done p = (case map_of done p of None \<Rightarrow> p | Some v \<Rightarrow> v)"

lemma contains_var: "Var p \<in> set ts \<Longrightarrow> contains (render (replaced []) ts) p"
  unfolding contains_iff
proof (induction ts)
  case (Cons t ts)
  then consider "t = Var p" | xs ys where "render (replaced []) ts = xs @ p @ ys" by auto
  then show ?case
  proof cases
    case 1
    then have "render (replaced []) (t # ts) = [] @ p @ render (replaced []) ts" by (simp add: replaced_def)
    then show ?thesis by blast
  next
    case 2
    then show ?thesis by (intro exI [of _ "token_text (replaced []) t @ xs"] exI [of _ ys]) simp
  qed
qed simp

lemma render_cong: "(\<And>p. Var p \<in> set ts \<Longrightarrow> f p = g p) \<Longrightarrow> render f ts = render g ts"
proof (induction ts)
  case (Cons t ts)
  then show ?case by (cases t) auto
qed simp

text \<open>Any walk over distinct placeholders of the table, with plain replacements.\<close>

definition plain_walk :: "(string \<times> string) list \<Rightarrow> bool" where
  "plain_walk walk \<longleftrightarrow> distinct (map fst walk) \<and> (\<forall>(p, v) \<in> set walk. p \<in> set placeholders \<and> plain v)"

lemma replaced_partial: "plain_walk walk \<Longrightarrow> partial_values (replaced walk)"
  by (auto simp: partial_values_def replaced_def plain_walk_def split: option.split dest!: map_of_SomeD)

lemma substitute_walk:
  assumes "template ts" and "plain_walk walk"
  shows "substitute walk (render (replaced []) ts) = render (replaced walk) ts"
proof -
  let ?query = "render (replaced []) ts"
  let ?step = "\<lambda>result (p, v). if contains ?query p then replace_all p v result else result"
  have "foldl ?step (render (replaced done) ts) rest = render (replaced (done @ rest)) ts"
    if "plain_walk (done @ rest)" for "done" rest
    using that
  proof (induction rest arbitrary: "done")
    case (Cons e rest)
    obtain p v where e: "e = (p, v)" by (cases e)
    have p: "p \<in> set placeholders" "p \<notin> fst ` set done" "plain_walk (done @ [e])" "plain_walk done"
      using Cons.prems e by (auto simp: plain_walk_def)
    have "map_of done p = None" using p(2) by (simp add: map_of_eq_None_iff)
    then have new: "replaced (done @ [e]) p = v" "replaced done p = p" "\<And>q. q \<noteq> p \<Longrightarrow> replaced (done @ [e]) q = replaced done q"
      using e by (auto simp: replaced_def map_add_def split: option.split)
    have "?step (render (replaced done) ts) e = render (replaced (done @ [e])) ts"
    proof (cases "contains ?query p")
      case True
      then show ?thesis
        using e replace_render [OF assms(1) replaced_partial [OF p(4)] p(1) new(2), of "replaced (done @ [e])"] new(1,3) by simp
    next
      case False
      then have "Var p \<notin> set ts" using contains_var by blast
      then have "render (replaced done) ts = render (replaced (done @ [e])) ts" using new(3) by (intro render_cong) metis
      then show ?thesis using False e by simp
    qed
    then show ?case using Cons.IH [of "done @ [e]"] Cons.prems by simp
  qed simp
  from this [of "[]" walk] show ?thesis using assms(2) by (simp add: substitute_def)
qed

section \<open>The table\<close>

lemma calm_plain_chars:
  "CHR ''$'' \<notin> set xs \<Longrightarrow> CHR ''v'' \<notin> set xs \<Longrightarrow> calm xs \<and> \<not> open_ended xs"
  by (induction xs) (auto simp: open_ended_def)

lemma plain_chars:
  "xs \<noteq> [] \<Longrightarrow> hd xs \<noteq> CHR ''.'' \<Longrightarrow> CHR ''$'' \<notin> set xs \<Longrightarrow> CHR ''v'' \<notin> set xs \<Longrightarrow> plain xs"
  using calm_plain_chars [of xs] by (simp add: plain_def dotted_def)

lemma hex_char_plain: "d < 16 \<Longrightarrow> hex_char d \<noteq> CHR ''$'' \<and> hex_char d \<noteq> CHR ''v''"
proof -
  have "list_all (\<lambda>d. hex_char d \<noteq> CHR ''$'' \<and> hex_char d \<noteq> CHR ''v'') [0..<16]" by code_simp
  then show "d < 16 \<Longrightarrow> ?thesis" by (simp add: list_all_iff)
qed

lemma hex_text_plain: "CHR ''$'' \<notin> set (hex_text k n) \<and> CHR ''v'' \<notin> set (hex_text k n)"
proof (induction k arbitrary: n)
  case (Suc k)
  have "n mod 16 < 16" by simp
  then show ?case using Suc [of "n div 16"] hex_char_plain [of "n mod 16"] by auto
qed simp

lemma digit_plain:
  fixes d :: nat
  shows "d < 10 \<Longrightarrow> char_of (48 + d) \<noteq> CHR ''$'' \<and> char_of (48 + d) \<noteq> CHR ''v'' \<and> char_of (48 + d) \<noteq> CHR ''.''"
proof -
  have "list_all (\<lambda>d. char_of (48 + d) \<noteq> CHR ''$'' \<and> char_of (48 + d) \<noteq> CHR ''v'' \<and> char_of (48 + d) \<noteq> CHR ''.'') [0..<10::nat]"
    by code_simp
  then show "d < 10 \<Longrightarrow> ?thesis" by (simp add: list_all_iff)
qed

lemma dec_text_plain: "plain (dec_text n)"
proof -
  have "dec_text n \<noteq> [] \<and> (\<forall>c \<in> set (dec_text n). c \<noteq> CHR ''$'' \<and> c \<noteq> CHR ''v'' \<and> c \<noteq> CHR ''.'')"
  proof (induction n rule: dec_text.induct)
    case (1 n)
    show ?case
    proof (cases "n < 10")
      case True
      then show ?thesis using digit_plain [of n] by (simp add: dec_text.simps [of n])
    next
      case False
      then show ?thesis using 1 digit_plain [of "n mod 10"] by (simp add: dec_text.simps [of n])
    qed
  qed
  then show ?thesis by (intro plain_chars) (auto dest: hd_in_set)
qed

lemma table_names: "map fst (variableReplacements su topBlock start) = placeholders"
  by (simp add: variableReplacements_def placeholders_def)

lemma table_values:
  assumes "plain (se_bucket su)" and "plain start" and "(p, v) \<in> set (variableReplacements su topBlock start)"
  shows "plain v"
proof -
  have "plain (''0x'' @ address_text (blk_Signer topBlock))"
    using hex_text_plain by (intro plain_chars) (auto simp: address_text_def)
  moreover have "list_all plain [''0.02'', ''0.001'', ''180'', ''10'', ''8640'', ''60480'', ''259200'', ''777600'', ''1500'', ''11000000'',
      ''5'', ''InfluxDB'', ''eu-west-1'', ''blue'', ''dev-pn'', ''now()'', ''1m'']" by code_simp
  ultimately show ?thesis using assms dec_text_plain unfolding variableReplacements_def by auto
qed

section \<open>Properties\<close>

text \<open>C40: Whatever order the map of replacements is walked in, a query made of ordinary text and placeholders of the table
  comes out with every placeholder replaced by its value, in one pass as it were.\<close>

theorem SubstituteVariables_template:
  assumes "ha_Block ha (se_EndBlock su) w = (Inr topBlock, w1)"
    and "ha_Block ha (se_EndBlock su - ucast (se_Blocks su)) w1 = (Inr bottomBlock, w2)"
    and "\<And>m. mset (ha_walk ha m) = mset m"
    and "template ts" and "plain (se_bucket su)" and "plain (ha_RFC3339 ha (blk_Timestamp bottomBlock))"
  defines "table \<equiv> variableReplacements su topBlock (ha_RFC3339 ha (blk_Timestamp bottomBlock))"
  shows "SubstituteVariables ha su (render (\<lambda>p. p) ts) w = (Going (render (\<lambda>p. the (map_of table p)) ts), w2)"
proof -
  have same: "set (ha_walk ha table) = set table" "distinct (map fst table)" "fst ` set table = set placeholders"
    using assms(3) [of table] mset_eq_setD table_names by (auto simp: table_def placeholders_def simp flip: set_map)
  have "mset (map fst (ha_walk ha table)) = mset (map fst table)" using assms(3) by simp
  then have dist: "distinct (map fst (ha_walk ha table))" using same(2) mset_eq_imp_distinct_iff by blast
  have "plain_walk (ha_walk ha table)"
    using dist same table_values [OF assms(5,6)] unfolding plain_walk_def table_def by force
  from substitute_walk [OF assms(4) this]
  have "substitute (ha_walk ha table) (render (replaced []) ts) = render (replaced (ha_walk ha table)) ts" .
  moreover have "replaced [] = (\<lambda>p. p)" by (simp add: replaced_def fun_eq_iff)
  moreover have "map_of (ha_walk ha table) = map_of table" using map_of_inject_set [OF dist same(2)] same(1) by blast
  then have "replaced (ha_walk ha table) p = the (map_of table p)" if "p \<in> set placeholders" for p
    using that same(3) by (auto simp: replaced_def map_of_eq_None_iff split: option.split)
  then have "render (replaced (ha_walk ha table)) ts = render (\<lambda>p. the (map_of table p)) ts"
    using assms(4) by (induction ts rule: template.induct) auto
  ultimately show ?thesis using assms(1,2) by (simp add: SubstituteVariables_def table_def)
qed

text \<open>A panel that passes has the right source, and each of its queries, substituted, gave at least one row.\<close>

definition gave_rows :: "'w harness \<Rightarrow> test_setup \<Rightarrow> string \<Rightarrow> bool" where
  "gave_rows ha su text \<longleftrightarrow> (\<exists>w query w1 res w2. SubstituteVariables ha su text w = (Going query, w1) \<and>
     ha_Query ha query w1 = (Inr res, w2) \<and> qt_Err res = None \<and> qt_Next res \<and> qt_Close res = None)"

lemma assert_query_passes:
  assumes "assert_query ha su text (failed, w) = (Going (), (False, w'))"
  shows "\<not> failed \<and> gave_rows ha su text"
proof -
  obtain query w1 where 1: "SubstituteVariables ha su text w = (Going query, w1)" "assert_rows ha query (failed, w1) = (Going (), (False, w'))"
    using assms by (auto simp: assert_query_def split: verdict.splits prod.splits)
  then obtain res where "ha_Query ha query w1 = (Inr res, w')" "qt_Err res = None" "qt_Close res = None" "\<not> failed" "qt_Next res"
    by (auto simp: assert_rows_def split: prod.splits sum.splits if_splits)
  with 1(1) show ?thesis unfolding gave_rows_def by blast
qed

lemma assert_targets_passes:
  "assert_targets ha su ts (failed, w) = (Going (), (False, w')) \<Longrightarrow> \<not> failed \<and> (\<forall>t \<in> set ts. gave_rows ha su (tg_Query t))"
proof (induction ts arbitrary: failed w)
  case (Cons t ts)
  obtain failed1 w1 where here: "assert_query ha su (tg_Query t) (failed, w) = (Going (), (failed1, w1))"
    and rest: "assert_targets ha su ts (failed1, w1) = (Going (), (False, w'))"
    using Cons.prems by (auto split: verdict.splits prod.splits)
  from Cons.IH [OF rest] have "\<not> failed1" "\<forall>t \<in> set ts. gave_rows ha su (tg_Query t)" by simp_all
  with here assert_query_passes [of ha su "tg_Query t" failed w w1] show ?case by simp
qed simp

theorem panel_passes:
  assumes "Panel_AssertHasResults ha su p (False, w) = (Going (), (False, w'))"
  shows "pn_Datasource p = ''influxdb'' \<and> (\<forall>t \<in> set (pn_Targets p). gave_rows ha su (tg_Query t))"
  using assert_targets_passes [of ha su "pn_Targets p" "pn_Datasource p \<noteq> ''influxdb''" w w'] assms
  by (simp add: Panel_AssertHasResults_def)

text \<open>The end block is documented as optional; the set-up fails without it.\<close>

theorem end_block_is_mandatory:
  "to_EndBlock opts = 0 \<Longrightarrow> NewTestSetup im sv now name opts w d = (FailedNow, w, d)"
  by (simp add: NewTestSetup_def)

text \<open>Fewer blocks up to the end block than were asked for: the number of the lower block wraps, and the node is asked
  for a block near \<open>2 ^ 64\<close>.\<close>

theorem lower_block_wraps:
  assumes "unat (se_EndBlock su) < unat (se_Blocks su)"
  shows "unat (se_EndBlock su - ucast (se_Blocks su)) = 2 ^ 64 + unat (se_EndBlock su) - unat (se_Blocks su)"
proof -
  have "unat (ucast (se_Blocks su) :: u64) = unat (se_Blocks su)" 
    using unsigned_less [of "se_Blocks su", where ?'a = nat]
    by (simp add: unsigned_ucast_eq take_bit_nat_eq_self_iff)
  with assms show ?thesis by (simp add: unat_sub_if_size word_size)
qed

section \<open>Instances\<close>

definition sample_harness :: "int harness" where
  "sample_harness = \<lparr>ha_Block = \<lambda>n w. (Inr main1, w), ha_Query = \<lambda>q w. (Inr \<lparr>qt_Err = None, qt_Next = True, qt_Close = None\<rparr>, w),
     ha_RFC3339 = \<lambda>t. ''1970-01-01T00:00:10Z'', ha_walk = \<lambda>m. m\<rparr>"

definition sample_setup :: test_setup where
  "sample_setup = \<lparr>se_EndBlock = 300, se_Blocks = 200, se_bucket = ''TestX''\<rparr>"

theorem SubstituteVariables_template_witness:
  "SubstituteVariables sample_harness sample_setup ''from(bucket: ${bucket}) |> range(start: v.timeRangeStart)'' 0 =
     (Going ''from(bucket: TestX) |> range(start: 1970-01-01T00:00:10Z)'', 0)"
proof -
  let ?ts = "[Lit ''from(bucket: '', Var ''${bucket}'', Lit '') |> range(start: '', Var ''v.timeRangeStart'', Lit '')'']"
  have 1: "ha_Block sample_harness (se_EndBlock sample_setup) 0 = (Inr main1, 0)"
    "ha_Block sample_harness (se_EndBlock sample_setup - ucast (se_Blocks sample_setup)) 0 = (Inr main1, 0)"
    "mset (ha_walk sample_harness m) = mset m" "ha_RFC3339 sample_harness t = ''1970-01-01T00:00:10Z''" for m t
    by (simp_all add: sample_harness_def)
  have 2: "template ?ts" by code_simp
  have 3: "plain ''TestX''" "plain ''1970-01-01T00:00:10Z''" by code_simp+
  have 4: "se_bucket sample_setup = ''TestX''" by (simp add: sample_setup_def)
  have "SubstituteVariables sample_harness sample_setup (render (\<lambda>p. p) ?ts) 0 =
      (Going (render (\<lambda>p. the (map_of (variableReplacements sample_setup main1 ''1970-01-01T00:00:10Z'') p)) ?ts), 0)"
    using SubstituteVariables_template [OF 1(1,2,3) 2] 1(4) 3 4 by simp
  then show ?thesis by (simp add: variableReplacements_def 4)
qed

text \<open>Without the condition on the text the order of the walk shows: a replacement can complete a placeholder.\<close>

theorem substitute_order_matters:
  "substitute (variableReplacements sample_setup main1 ''1970-01-01T00:00:10Z'') ''v.windowPerio${group} v.windowPeriod'' = ''1mev-pn 1m'' \<and>
   substitute (rev (variableReplacements sample_setup main1 ''1970-01-01T00:00:10Z'')) ''v.windowPerio${group} v.windowPeriod'' =
     ''v.windowPeriodev-pn 1m''"
  by (simp add: substitute_def variableReplacements_def)

theorem panel_passes_witness:
  "gave_rows sample_harness sample_setup ''from(bucket: x)''"
proof -
  let ?p = "\<lparr>pn_Targets = [\<lparr>tg_Query = ''from(bucket: x)'', tg_Datasource = ''influxdb''\<rparr>], pn_Title = ''p'', pn_Datasource = ''influxdb''\<rparr>"
  have "Panel_AssertHasResults sample_harness sample_setup ?p (False, 0) = (Going (), (False, 0))"
    by (simp add: Panel_AssertHasResults_def assert_query_def SubstituteVariables_def assert_rows_def sample_harness_def)
  from panel_passes [OF this] show ?thesis by simp
qed

end
