(* ===== verification/Spec2Isabelle.thy ===== *)
theory Spec2Isabelle
  imports Program Lifecycle Stored SharedFetch Bindings InfluxDB BackwardSpec Publisher Subscriber Startup FetchProps TxStats ChainStats
    PosWriter AuthorityList PriceApi Dashboards
begin

text \<open>
  A verification development for thorflux, the Go program that follows a VeChain Thor node block
  by block and writes statistics of every block to InfluxDB.

  \<^bold>\<open>The program.\<close> The command (\<^verbatim>\<open>cmd/main.go\<close>, \<^verbatim>\<open>cmd/thorflux/thorflux.go\<close>) reads its
  flags and the genesis of the network and builds a publisher and a subscriber that share one
  channel of block events. The publisher (\<^verbatim>\<open>pubsub/publisher.go\<close>) runs two syncers: the backward
  syncer counts down from the first block over a hundred workers, the forward syncer follows the
  head of the chain and rewinds to the finalized block when it meets a fork. Both ask the event
  service (\<^verbatim>\<open>pubsub/event_block.go\<close>) for the event of a block number; the service asks the block
  fetcher (\<^verbatim>\<open>pubsub/block_fetcher.go\<close>) for the block and its parent, and the fetcher reads the
  node with retries, together with the seed, the staker information and the authority nodes, and
  keeps the result in a cache. The subscriber (\<^verbatim>\<open>pubsub/subscriber.go\<close>) either resolves a fork
  (\<^verbatim>\<open>pubsub/fork_handler.go\<close>) or turns an event into one task per handler for the worker pool
  (\<^verbatim>\<open>pubsub/worker_pool.go\<close>); a handler (\<^verbatim>\<open>stats/*\<close>) makes the points of one aspect of the
  block, and the pool hands them to the client of the database (\<^verbatim>\<open>influxdb/influxdb.go\<close>), which
  sends them asynchronously. The dashboards
  (\<^verbatim>\<open>grafana/\<close>) query that database; a set-up for tests fills one and checks their queries.

  \<^bold>\<open>How Go is read.\<close> A \<open>uint8\<close>, \<open>uint32\<close> or \<open>uint64\<close> is a word of that width and
  wraps; a \<open>*big.Int\<close> is an \<open>int\<close> (\<open>None\<close> where nil is possible); a \<open>float64\<close> is a
  rational, an infinity or NaN, rounded to the nearest binary64 after every operation (Float64). A
  call that can fail returns an \<open>outcome\<close>: \<open>Ok\<close>, \<open>Err\<close> with the error, or \<open>Panic\<close> with
  its cause, so nil dereferences, indices out of range and explicit panics are values. What a call
  reads and changes outside the program (node, clock, database, price feed) is a world of type
  \<open>'w\<close> passed through. A Go map is an association list; where its walk decides a result, the
  order of the walk is an argument and the properties hold for all of them. Goroutines are
  inductive step relations in which, in every state, any goroutine that is not blocked may move.

  \<^bold>\<open>Theories, from the bottom up.\<close>
  \<^item> Prelude, Float64, VetUtil, Types: outcomes, byte strings, Go maps and words; binary64;
    \<^verbatim>\<open>vetutil/vet.go\<close>; the data of the thor API and of \<^verbatim>\<open>types/\<close>, and the points.
  \<^item> Channel: a buffered channel, with the FIFO contract as the locale \<open>fifo\<close>.
  \<^item> Hex, AuthorityABI, ABICodec: \<^verbatim>\<open>encoding/hex\<close> and the codec of
    \<^verbatim>\<open>stats/contracts/generated/listauthority\<close>. AuthorityABI holds what the program calls and the
    round trip of node lists; ABICodec the rest of the file, with the codecs of fixed words behind the
    locale \<open>word_codec\<close>.
  \<^item> IAuthority, Bindings: the methods of \<^verbatim>\<open>stats/contracts/generated/iauthority\<close> over the same codec;
    the registries, \<open>Decode\<close> and \<open>MustDecode\<close> of both bindings and the untyped elements of arrays.
  \<^item> Client, Retry, StakerFetch: the node and the libraries as records of functions;
    \<^verbatim>\<open>common/retry.go\<close>; the fetching half of \<^verbatim>\<open>stats/pos/staker.go\<close>.
  \<^item> BlockFetcher, EventBlock, FetchProps: the cached fetch with its invariant, the event of a
    block over any \<open>block_source\<close> (the fetcher is one), and the properties of both. The syncers rely on
    the locale \<open>event_source\<close> only, which the service implements.
  \<^item> BackwardSyncer, BackwardSpec: producer and workers; a bag of numbers to deliver as their
    abstract specification, and the simulation.
  \<^item> ForwardSyncer: one pass of the loop as a function, its runs as a relation in which other
    goroutines touch the cache between two passes.
  \<^item> Publisher, Syncing: the constructor with its error paths, the range of the backward sync, and
    \<^verbatim>\<open>Run\<close> around the shared channel; then \<^verbatim>\<open>Run\<close> with both syncers inside, which refines it.
  \<^item> Influx, InfluxDB: the database with its asynchronous client as a parameter: what is handed over, what
    the server holds, and what happens in the background; the wrapper's connection, its query of the
    last block and the error goroutine with \<^verbatim>\<open>Close\<close>.
  \<^item> ForkHandler, WorkerPool, Subscriber: the three parts of the consuming side.
  \<^item> ChainStats (\<^verbatim>\<open>blockstats\<close>, \<^verbatim>\<open>utilisation\<close>, \<^verbatim>\<open>liveness\<close>), TxStats
    (\<^verbatim>\<open>transactions\<close>), SlotCalculator and SlotsWriter (\<^verbatim>\<open>slots\<close>), Owners
    (\<^verbatim>\<open>excel\<close>), AuthorityList (\<^verbatim>\<open>authority\<close>), PosStaker, PosEvents and PosWriter
    (\<^verbatim>\<open>pos\<close>), PriceApi (\<^verbatim>\<open>priceapi\<close>): the handlers.
  \<^item> Startup: the initialisation of the staker ABI, flags, genesis and the construction of the parts.
  \<^item> PointTypes: one table of the type of every field, the measurements of each handler, and the lemmas that
    every handler keeps to both.
  \<^item> Pipeline: publisher, subscriber, pool, handlers and database composed into one relation.
  \<^item> Program: the syncers of Syncing in front of Pipeline, the whole program after its start.
  \<^item> Lifecycle: how the whole program comes to its end: which steps remain once it is cancelled or was
    given an end block, one measure that they lower, and the state in which it hangs.
  \<^item> Stored: what a run with an end block hands to the database client, and what the next program makes of
    the database.
  \<^item> SharedFetch: the event service with many callers at once, down to the flights of the
    \<^verbatim>\<open>singleflight\<close> group; it justifies the theories above, which read one call as one step.
  \<^item> Dashboards: \<^verbatim>\<open>grafana/dashboards.go\<close> and \<^verbatim>\<open>grafana/testing.go\<close>, with the substitution of the
    variables of a query.
  \<^item> Samples: a small chain, node, cache and clock at which theorems with hypotheses are applied.

  \<^bold>\<open>What is shown.\<close>
  \<^item> Of the backward syncer: in every interleaving each block is sent at most once, in range and as
    its proper event; an uncancelled run accounts for every block; every interleaving ends, provided that the
    events are received or the context is cancelled; its steps refine the bag.
  \<^item> Of the forward syncer: a pass returns; it stays, moves to a child or reports a fork; the log of
    a run reads block by block; the exact condition of the process exit.
  \<^item> Of the whole program: with an end block, once it stopped uncancelled, each block of the range
    became one batch of tasks or a logged failure, and all but at most a hundred tasks were run. With an
    end block, or once cancelled, every step but the idle ones lowers a measure and such a step is possible
    until the program has stopped, or hangs: the event of a fork is sent without regard to the context, and
    with the channel full and the subscriber gone that send, and so the program, never ends (Lifecycle).
  \<^item> Of the database: with an end block the points handed to its client are exactly those that the processed
    tasks returned; once stopped, the statistics of every block of the range, but for failures, panics and
    tasks left in the queue. A program started again with an end block hands over nothing up to the last
    number it reads back, so a hole that an interrupted sync or a lost batch left below that number is never
    filled (Stored). That a point handed over arrives is not claimed.
  \<^item> Of the publisher and the pipeline: no send on a closed channel, nothing lost or reordered, the
    channel carries a merge of the two syncers' logs, no gap between the syncers, one task per handler for
    every event received, all tasks accounted for, and every field written of one type.
  \<^item> Of the fork handler: the search ends, finds the side chain where there is one and returns exactly it;
    resolving first deletes exactly the points past the finalized block, which stands if the search fails.
  \<^item> Of the worker pool: accepted tasks are conserved, and a shutdown moves on to the end.
  \<^item> Of the fetch: it returns, the cache invariant, the window of the seed, and the figures of the
    staker information. With many callers each answer is one that the service read as one step may give,
    or the error of two minutes of failures, and each block is fetched once, until more than the
    hundred blocks were fetched that the cache holds.
  \<^item> Of the handlers: what the written figures are in terms of the block, that the slots handler returns where
    the data it needs is there, and where handlers panic.
  \<^item> Of the dashboards: a query made of plain text and placeholders has each placeholder replaced, in
    whatever order the map of values is walked, and a query for which the order shows; what a panel that
    passes its check has.
  \<^item> Of the codecs: round trips, and the values at which they lose or refuse a number.

  \<^bold>\<open>Bounds and loops.\<close> The constants are the code's: a channel buffer of 2000 events, 100
  backward workers, 10 pool workers, a queue of 100 tasks and a cache of 100 blocks; no theorem depends on
  them being small.
  Allocation in the codec panics above \<open>2 ^ 48\<close> bytes, the limit of the Go runtime. Loops without an
  evident bound (both retries, the fetch of the finalized block, the search of the common ancestor, the
  timestamps of missed slots) are partial functions whose value is \<open>None\<close> when they do not return,
  and each is shown to return: the retries under the laws of a clock that does not go back, the
  ancestor search under the shape of a chain (numbers fall by one along parents). No fuel is used.

  \<^bold>\<open>Parameters.\<close> Not under the repository, and so arguments of the definitions: the thor node and
  its client, the ABI and RLP decoders, the scheduler of proof of stake, blake2b, the pseudo-random
  generator and \<^verbatim>\<open>math.Log\<close>, the LRU cache, the \<^verbatim>\<open>singleflight\<close> group, the embedded files, the
  clock, the flag and JSON parsers, the HTTP client, the spreadsheet reader, and the InfluxDB client with its server: its writes are asynchronous, may be given up,
  and points of equal measurement, tags and time are merged, so its laws (\<open>db_laws\<close>) only say that a write is
  handed over, what a delete removes, and that no field of a measurement appears from nowhere. Hypotheses about
  them (the laws of the clock, of the cache, of the group, of a chain, of the database) are named
  predicates, each met by an instance.

  \<^bold>\<open>Not modelled.\<close>
  \<^item> The codec of \<^verbatim>\<open>stats/contracts/generated/iauthority\<close>: the same generated text as in the list
    binding, where it is modelled. Nothing calls that binding.
  \<^item> The generator directives and the embedded bytecode and ABI texts: data without behaviour.
  \<^item> Logging, signal handling and the exit of the process: \<^verbatim>\<open>os.Exit\<close> in the forward syncer is the
    outcome of its pass, and cancellation of the context is a step that may happen at any time.
  \<^item> Interleavings inside one operation of the authority list or one pass of the forward syncer up to
    its send: each is one step. The list has no mutex in the code, so two workers may race on it.
\<close>

end
